(* ===== verification/C_Prelude.thy ===== *)
theory C_Prelude
  imports Main "HOL-Library.Word" "HOL-Library.Monad_Syntax"
begin

text \<open>
  The machine model shared by every component: the C integer types of the two targets
  (LP64, little endian, 8-bit unsigned \<open>char\<close>), a byte-addressed memory in which
  reading or writing an address that is not part of an object is a fault, and the
  predicates with which the components describe arrays and C strings in it.

  A \<open>heap\<close> maps the addresses of live objects to bytes. An operation of the code that
  reads or writes memory returns an \<open>option\<close>: \<open>None\<close> is a fault (an access outside
  every object, or another undefined behaviour), or a loop that does not end where the
  loop is a \<^theory_text>\<open>partial_function\<close>. A theorem \<open>f h \<dots> = Some r\<close> therefore says that the code
  returns, returns \<open>r\<close>, and touches no byte outside its objects on the way.
\<close>

unbundle bit_operations_syntax

section \<open>Types\<close>

type_synonym u8 = "8 word"
type_synonym u16 = "16 word"
type_synonym u32 = "32 word"
type_synonym u64 = "64 word"
type_synonym ptr = u64
type_synonym heap = "ptr \<rightharpoonup> u8"

text \<open>The number of addresses; kept folded so that arithmetic does not expand it.\<close>

definition addr_max :: nat where
  "addr_max = 2 ^ 64"

named_theorems region_simps

text \<open>
  The simplifier evaluates the scrutinee of a \<^const>\<open>Option.bind\<close> before it looks at its
  continuation, as it does for \<^theory_text>\<open>if\<close> and \<^theory_text>\<open>case\<close>. This keeps the equations of recursive
  loops from unfolding under a read that has not happened yet.
\<close>

lemma bind_weak_cong [cong]: "x = y \<Longrightarrow> Option.bind x f = Option.bind y f"
  by simp

section \<open>Memory accesses\<close>

definition store8 :: "heap \<Rightarrow> ptr \<Rightarrow> u8 \<Rightarrow> heap option" where
  "store8 h p v = (case h p of None \<Rightarrow> None | Some _ \<Rightarrow> Some (h(p \<mapsto> v)))"

primrec load_bytes :: "heap \<Rightarrow> ptr \<Rightarrow> nat \<Rightarrow> u8 list option" where
  "load_bytes h p 0 = Some []"
| "load_bytes h p (Suc n) = do { b \<leftarrow> h p; bs \<leftarrow> load_bytes h (p + 1) n; Some (b # bs) }"

primrec store_bytes :: "heap \<Rightarrow> ptr \<Rightarrow> u8 list \<Rightarrow> heap option" where
  "store_bytes h p [] = Some h"
| "store_bytes h p (b # bs) = do { h' \<leftarrow> store8 h p b; store_bytes h' (p + 1) bs }"

text \<open>Little-endian composition and decomposition of a number.\<close>

primrec le_nat :: "u8 list \<Rightarrow> nat" where
  "le_nat [] = 0"
| "le_nat (b # bs) = unat b + 256 * le_nat bs"

primrec nat_le :: "nat \<Rightarrow> nat \<Rightarrow> u8 list" where
  "nat_le 0 v = []"
| "nat_le (Suc n) v = of_nat v # nat_le n (v div 256)"

definition load64 :: "heap \<Rightarrow> ptr \<Rightarrow> u64 option" where
  "load64 h p = map_option (\<lambda>bs. of_nat (le_nat bs)) (load_bytes h p 8)"

definition store64 :: "heap \<Rightarrow> ptr \<Rightarrow> u64 \<Rightarrow> heap option" where
  "store64 h p v = store_bytes h p (nat_le 8 (unat v))"

text \<open>An object on its own, for instance a local array: its bytes start at address 0.\<close>

definition blk :: "u8 list \<Rightarrow> heap" where
  "blk bs = (\<lambda>a. if unat a < length bs then Some (bs ! unat a) else None)"

text \<open>The bytes of a string literal, without its terminating NUL.\<close>

definition cbytes :: "string \<Rightarrow> u8 list" where
  "cbytes s = map of_char s"

section \<open>Arrays and strings in memory\<close>

primrec arr :: "heap \<Rightarrow> ptr \<Rightarrow> u8 list \<Rightarrow> bool" where
  "arr h p [] \<longleftrightarrow> True"
| "arr h p (b # bs) \<longleftrightarrow> h p = Some b \<and> arr h (p + 1) bs"

primrec cstr :: "heap \<Rightarrow> ptr \<Rightarrow> u8 list \<Rightarrow> bool" where
  "cstr h p [] \<longleftrightarrow> h p = Some 0"
| "cstr h p (c # cs) \<longleftrightarrow> h p = Some c \<and> c \<noteq> 0 \<and> cstr h (p + 1) cs"

definition region :: "ptr \<Rightarrow> nat \<Rightarrow> ptr set" where
  "region p n = (\<lambda>i. p + of_nat i) ` {..<n}"

definition mapped :: "heap \<Rightarrow> ptr \<Rightarrow> nat \<Rightarrow> bool" where
  "mapped h p n \<longleftrightarrow> region p n \<subseteq> dom h"

definition upd_bytes :: "heap \<Rightarrow> ptr \<Rightarrow> u8 list \<Rightarrow> heap" where
  "upd_bytes h p bs = (\<lambda>a. if unat (a - p) < length bs then Some (bs ! unat (a - p)) else h a)"

section \<open>Counters\<close>

lemma unat_dec: "0 < n \<Longrightarrow> unat (n - 1) < unat n" for n :: u64
  by (simp add: unat_minus_one word_gt_0 unat_gt_0)

lemma unat_sub_8: "8 \<le> n \<Longrightarrow> unat (n - 8) < unat n" for n :: u64
  by (simp add: unat_sub word_le_nat_alt)

lemma ucast_ucast_8 [simp]: "ucast (ucast (x :: u8) :: u64) = x" "ucast (ucast (x :: u8) :: u32) = x"
  by (rule bit_word_eqI, simp add: bit_simps)+

lemma ucast_and_255 [simp]: "ucast ((x :: u64) AND 255) = (ucast x :: u8)"
proof -
  have "x AND 255 = take_bit 8 x" by (simp add: take_bit_eq_mask mask_numeral)
  then show ?thesis by (simp add: bit_eq_iff bit_simps)
qed

section \<open>Regions\<close>

lemma unat_less_addr_max [simp]: "unat (a :: u64) < addr_max"
  using unsigned_less [of a] by (simp add: addr_max_def)

lemma unat_of_nat_addr: "n < addr_max \<Longrightarrow> unat (of_nat n :: u64) = n"
  by (simp add: addr_max_def unat_of_nat take_bit_nat_eq_self)

lemma of_nat_less_addr: "m < addr_max \<Longrightarrow> n < addr_max \<Longrightarrow> (of_nat m :: u64) < of_nat n \<longleftrightarrow> m < n"
  by (simp add: word_less_nat_alt unat_of_nat_addr)

lemma of_nat_le_addr: "m < addr_max \<Longrightarrow> n < addr_max \<Longrightarrow> (of_nat m :: u64) \<le> of_nat n \<longleftrightarrow> m \<le> n"
  by (simp add: word_le_nat_alt unat_of_nat_addr)

lemma of_nat_gt_0: "0 < n \<Longrightarrow> n < addr_max \<Longrightarrow> 0 < (of_nat n :: u64)"
  by (simp add: word_less_nat_alt unat_of_nat_addr)

lemma unat_add_of_nat: "unat p + n < addr_max \<Longrightarrow> unat (p + of_nat n) = unat p + n" for p :: u64
  by (simp add: unat_word_ariths unat_of_nat_addr addr_max_def)

lemma region_0 [simp]: "region p 0 = {}"
  by (simp add: region_def)

lemma region_Suc [simp]: "region p (Suc n) = insert p (region (p + 1) n)"
proof -
  have "{..<Suc n} = insert 0 (Suc ` {..<n})"
    by (auto simp: image_iff less_Suc_eq_0_disj)
  then show ?thesis by (simp add: region_def image_image algebra_simps)
qed

lemma region_add: "region p (m + n) = region p m \<union> region (p + of_nat m) n"
  by (induction m arbitrary: p) (auto simp: algebra_simps)

lemma region_mono: "m \<le> n \<Longrightarrow> region p m \<subseteq> region p n"
  by (auto simp: region_def)

lemma region_iff:
  assumes "n \<le> addr_max"
  shows "a \<in> region p n \<longleftrightarrow> unat (a - p) < n"
proof
  assume "a \<in> region p n"
  then obtain i where i: "i < n" "a = p + of_nat i" by (auto simp: region_def)
  with assms have "unat (a - p) = i" by (simp add: unat_of_nat_addr)
  with i show "unat (a - p) < n" by simp
next
  assume "unat (a - p) < n"
  moreover have "a = p + of_nat (unat (a - p))" by simp
  ultimately show "a \<in> region p n" unfolding region_def by blast
qed

lemma region_memI: "i < n \<Longrightarrow> p + of_nat i \<in> region p n"
  by (auto simp: region_def)

lemma unat_pred: "a \<noteq> p \<Longrightarrow> unat (a - p) = Suc (unat (a - (p + 1)))" for a p :: u64
proof -
  assume "a \<noteq> p"
  then have "a - p \<noteq> 0" by simp
  then have "unat (a - p - 1) = unat (a - p) - 1" and "0 < unat (a - p)"
    by (simp_all add: unat_minus_one unat_gt_0)
  then show ?thesis by (simp add: diff_diff_add)
qed

lemma unat_Suc_pred: "0 < n \<Longrightarrow> unat n = Suc (unat (n - 1))" for n :: u64
  using unat_pred [of n 0] by (simp add: word_gt_0)

lemma head_notin_tail:
  assumes "n < addr_max"
  shows "p \<notin> region (p + 1) n"
proof
  assume "p \<in> region (p + 1) n"
  then obtain i where i: "i < n" "p = p + 1 + of_nat i" by (auto simp: region_def)
  then have "of_nat (Suc i) = (0 :: u64)" by (simp add: algebra_simps)
  then have "unat (of_nat (Suc i) :: u64) = 0" by simp
  moreover have "unat (of_nat (Suc i) :: u64) = Suc i"
    using i(1) assms by (intro unat_of_nat_addr) simp
  ultimately show False by simp
qed

lemma region_split_disjoint:
  assumes "m + n \<le> addr_max"
  shows "region p m \<inter> region (p + of_nat m) n = {}"
proof -
  have "p + of_nat i \<noteq> p + of_nat m + of_nat j" if "i < m" "j < n" for i j
  proof
    assume "p + of_nat i = p + of_nat m + of_nat j"
    then have "(of_nat i :: u64) = of_nat (m + j)" by (simp add: add.assoc)
    then have "unat (of_nat i :: u64) = unat (of_nat (m + j) :: u64)" by simp
    with that assms show False by (simp add: unat_of_nat_addr del: of_nat_add)
  qed
  then show ?thesis by (auto simp: region_def)
qed

section \<open>Reading\<close>

lemma mapped_0 [simp]: "mapped h p 0"
  by (simp add: mapped_def)

lemma mapped_Suc [simp]: "mapped h p (Suc n) \<longleftrightarrow> p \<in> dom h \<and> mapped h (p + 1) n"
  by (auto simp: mapped_def)

lemma mapped_numeral [simp]:
  "mapped h p (numeral k) \<longleftrightarrow> p \<in> dom h \<and> mapped h (p + 1) (pred_numeral k)"
  by (simp add: numeral_eq_Suc)

lemma mapped_add: "mapped h p (m + n) \<longleftrightarrow> mapped h p m \<and> mapped h (p + of_nat m) n"
  by (auto simp: mapped_def region_add)

lemma mapped_mono: "mapped h p n \<Longrightarrow> m \<le> n \<Longrightarrow> mapped h p m"
  using region_mono by (fastforce simp: mapped_def)

lemma mapped_fun_upd [intro]: "mapped h p n \<Longrightarrow> mapped (h(q \<mapsto> v)) p n"
  by (auto simp: mapped_def)

lemma arr_append: "arr h p (xs @ ys) \<longleftrightarrow> arr h p xs \<and> arr h (p + of_nat (length xs)) ys"
  by (induction xs arbitrary: p) (auto simp: algebra_simps)

lemma arr_nth: "arr h p bs \<longleftrightarrow> (\<forall>i<length bs. h (p + of_nat i) = Some (bs ! i))"
  by (induction bs arbitrary: p) (auto simp: less_Suc_eq_0_disj algebra_simps)

lemma arr_nthD: "arr h p bs \<Longrightarrow> i < length bs \<Longrightarrow> h (p + of_nat i) = Some (bs ! i)"
  by (simp add: arr_nth)

lemma arr_blk: "length bs \<le> addr_max \<Longrightarrow> arr (blk bs) 0 bs"
  by (simp add: arr_nth blk_def unat_of_nat_addr)

lemma arr_mapped: "arr h p bs \<Longrightarrow> mapped h p (length bs)"
  by (induction bs arbitrary: p) auto

lemma mapped_arr: "mapped h p n \<Longrightarrow> \<exists>bs. length bs = n \<and> arr h p bs"
proof (induction n arbitrary: p)
  case 0
  then show ?case by simp
next
  case (Suc n)
  then obtain b where b: "h p = Some b" by auto
  from Suc obtain bs where "length bs = n" "arr h (p + 1) bs" by fastforce
  with b have "length (b # bs) = Suc n \<and> arr h p (b # bs)" by simp
  then show ?case by blast
qed

lemma load_bytes_arr: "load_bytes h p n = Some bs \<longleftrightarrow> length bs = n \<and> arr h p bs"
  by (induction n arbitrary: p bs) (auto simp: bind_eq_Some_conv length_Suc_conv)

lemma cstr_arr: "cstr h p s \<longleftrightarrow> arr h p (s @ [0]) \<and> 0 \<notin> set s"
  by (induction s arbitrary: p) auto

lemma cstr_nonzero: "cstr h p s \<Longrightarrow> 0 \<notin> set s"
  by (simp add: cstr_arr)

lemma cstr_mapped: "cstr h p s \<Longrightarrow> mapped h p (Suc (length s))"
  using arr_mapped [of h p "s @ [0]"] by (simp add: cstr_arr)

lemma cstr_drop: "cstr h p s \<Longrightarrow> i \<le> length s \<Longrightarrow> cstr h (p + of_nat i) (drop i s)"
proof (induction i arbitrary: p s)
  case 0
  then show ?case by simp
next
  case (Suc i)
  then show ?case by (cases s) (auto simp: add.assoc [symmetric])
qed

lemma cstr_append: "cstr h p (xs @ ys) \<longleftrightarrow> arr h p xs \<and> 0 \<notin> set xs \<and> cstr h (p + of_nat (length xs)) ys"
  by (auto simp: cstr_arr arr_append)

lemma cstr_unique: "cstr h p s \<Longrightarrow> cstr h p t \<Longrightarrow> s = t"
proof (induction s arbitrary: p t)
  case Nil
  then show ?case by (cases t) auto
next
  case (Cons c s)
  then show ?case by (cases t) auto
qed

section \<open>Writing\<close>

lemma upd_bytes_Nil [simp]: "upd_bytes h p [] = h"
  by (simp add: upd_bytes_def)

lemma upd_bytes_Cons:
  assumes "length bs < addr_max"
  shows "upd_bytes h p (b # bs) = upd_bytes (h(p \<mapsto> b)) (p + 1) bs"
proof
  fix a
  show "upd_bytes h p (b # bs) a = upd_bytes (h(p \<mapsto> b)) (p + 1) bs a"
  proof (cases "a = p")
    case True
    with assms show ?thesis
      by (simp add: upd_bytes_def addr_max_def unsigned_minus_1_eq_mask mask_eq_exp_minus_1)
  next
    case False
    then show ?thesis by (simp add: upd_bytes_def unat_pred)
  qed
qed

lemma upd_bytes_outside: "length bs \<le> addr_max \<Longrightarrow> a \<notin> region p (length bs) \<Longrightarrow> upd_bytes h p bs a = h a"
  by (simp add: upd_bytes_def region_iff)

lemma dom_upd_bytes: "length bs \<le> addr_max \<Longrightarrow> dom (upd_bytes h p bs) = region p (length bs) \<union> dom h"
  by (auto simp: upd_bytes_def region_iff dom_def)

lemma mapped_upd_bytes: "length bs \<le> addr_max \<Longrightarrow> mapped h q n \<Longrightarrow> mapped (upd_bytes h p bs) q n"
  by (auto simp: mapped_def dom_upd_bytes)

lemma arr_upd_bytes: "length bs \<le> addr_max \<Longrightarrow> arr (upd_bytes h p bs) p bs"
  by (simp add: arr_nth upd_bytes_def unat_of_nat_addr)

lemma arr_cong: "(\<And>a. a \<in> region p (length bs) \<Longrightarrow> h a = h' a) \<Longrightarrow> arr h p bs = arr h' p bs"
  by (simp add: arr_nth region_memI cong: imp_cong)

lemma cstr_cong: "(\<And>a. a \<in> region p (Suc (length s)) \<Longrightarrow> h a = h' a) \<Longrightarrow> cstr h p s = cstr h' p s"
  using arr_cong [of p "s @ [0]" h h'] by (simp add: cstr_arr)

lemma arr_upd_disjoint:
  "length bs \<le> addr_max \<Longrightarrow> region p (length bs) \<inter> region q (length cs) = {} \<Longrightarrow>
   arr (upd_bytes h p bs) q cs = arr h q cs"
  by (rule arr_cong) (auto intro: upd_bytes_outside)

lemma cstr_upd_disjoint:
  "length bs \<le> addr_max \<Longrightarrow> region p (length bs) \<inter> region q (Suc (length s)) = {} \<Longrightarrow>
   cstr (upd_bytes h p bs) q s = cstr h q s"
  by (rule cstr_cong) (auto intro: upd_bytes_outside)

lemma arr_fun_upd: "q \<notin> region p (length bs) \<Longrightarrow> arr (h(q \<mapsto> v)) p bs = arr h p bs"
  by (rule arr_cong) auto

lemma cstr_fun_upd: "q \<notin> region p (Suc (length s)) \<Longrightarrow> cstr (h(q \<mapsto> v)) p s = cstr h p s"
  by (rule cstr_cong) auto

lemma store8_mapped [simp]: "h p = Some b \<Longrightarrow> store8 h p v = Some (h(p \<mapsto> v))"
  by (simp add: store8_def)

lemma store8_dom: "p \<in> dom h \<Longrightarrow> store8 h p v = Some (h(p \<mapsto> v))"
  by (auto simp: store8_def)

lemma store_bytes_eq:
  "mapped h p (length bs) \<Longrightarrow> length bs \<le> addr_max \<Longrightarrow> store_bytes h p bs = Some (upd_bytes h p bs)"
proof (induction bs arbitrary: h p)
  case Nil
  then show ?case by simp
next
  case (Cons b bs)
  then have "store_bytes (h(p \<mapsto> b)) (p + 1) bs = Some (upd_bytes (h(p \<mapsto> b)) (p + 1) bs)"
    by (intro Cons.IH mapped_fun_upd) simp_all
  with Cons.prems show ?case by (simp add: store8_dom upd_bytes_Cons)
qed

lemma upd_bytes_append:
  "length xs + length ys \<le> addr_max \<Longrightarrow>
   upd_bytes h p (xs @ ys) = upd_bytes (upd_bytes h p xs) (p + of_nat (length xs)) ys"
proof (induction xs arbitrary: h p)
  case Nil
  then show ?case by simp
next
  case (Cons x xs)
  then show ?case by (simp add: upd_bytes_Cons algebra_simps)
qed

lemma upd_bytes_snoc:
  "length xs < addr_max \<Longrightarrow> (upd_bytes h p xs)(p + of_nat (length xs) \<mapsto> b) = upd_bytes h p (xs @ [b])"
  by (simp add: upd_bytes_append upd_bytes_Cons addr_max_def)

lemma upd_bytes_fun_upd:
  "length bs \<le> addr_max \<Longrightarrow> q \<notin> region p (length bs) \<Longrightarrow>
   upd_bytes (h(q \<mapsto> v)) p bs = (upd_bytes h p bs)(q \<mapsto> v)"
  by (auto simp: upd_bytes_def region_iff)

lemma end_notin_region: "n < addr_max \<Longrightarrow> p + of_nat n \<notin> region p n"
  by (simp add: region_iff unat_of_nat_addr)

section \<open>Little-endian words\<close>

lemma length_nat_le [simp]: "length (nat_le n v) = n"
  by (induction n arbitrary: v) auto

lemma nat_le_0 [simp]: "nat_le n 0 = replicate n 0"
  by (induction n) auto

lemma le_nat_less: "le_nat bs < 256 ^ length bs"
proof (induction bs)
  case Nil
  then show ?case by simp
next
  case (Cons b bs)
  have "unat b < 256" using unsigned_less [of b] by simp
  with Cons show ?case by simp
qed

lemma nat_le_le_nat [simp]: "nat_le (length bs) (le_nat bs) = bs"
proof (induction bs)
  case Nil
  then show ?case by simp
next
  case (Cons b bs)
  have "unat b < 256" using unsigned_less [of b] by simp
  moreover have "(of_nat (unat b + 256 * le_nat bs) :: u8) = b"
  proof -
    have "(256 :: u8) = 0" by simp
    then show ?thesis by (simp only: of_nat_add of_nat_mult of_nat_numeral mult_zero_left add_0_right) simp
  qed
  ultimately show ?case using Cons by simp
qed

lemma le_nat_nat_le [simp]: "le_nat (nat_le n v) = v mod 256 ^ n"
proof (induction n arbitrary: v)
  case 0
  then show ?case by simp
next
  case (Suc n)
  then show ?case by (simp add: unat_of_nat mod_mult2_eq)
qed

lemma load64_arr:
  "length bs = 8 \<Longrightarrow> arr h p bs \<Longrightarrow> \<exists>v. load64 h p = Some v \<and> nat_le 8 (unat v) = bs"
proof -
  assume len: "length bs = 8" and a: "arr h p bs"
  have "le_nat bs < addr_max"
    using le_nat_less [of bs] len by (simp add: addr_max_def)
  moreover from len a have "load_bytes h p 8 = Some bs" by (simp only: load_bytes_arr)
  ultimately show ?thesis
    using nat_le_le_nat [of bs] len by (simp add: load64_def unat_of_nat_addr)
qed

lemma store64_eq: "mapped h p 8 \<Longrightarrow> store64 h p v = Some (upd_bytes h p (nat_le 8 (unat v)))"
  unfolding store64_def by (rule store_bytes_eq) (simp_all add: addr_max_def)

end
