(* ===== verification/Elf64.thy ===== *)
theory Elf64
  imports C_Prelude
begin

text \<open>
  The parts of \<^verbatim>\<open>include/elf64.h\<close> and \<^verbatim>\<open>include/elf_common.h\<close> that the boot firmware uses: the file
  header and the program header, with the constants it compares. A structure in memory is
  read as a whole; its fields are little endian and at the offsets of the C layout.
\<close>

section \<open>Definitions\<close>

definition EI_MAG0 :: nat where "EI_MAG0 = 0"
definition EI_MAG1 :: nat where "EI_MAG1 = 1"
definition EI_MAG2 :: nat where "EI_MAG2 = 2"
definition EI_MAG3 :: nat where "EI_MAG3 = 3"
definition EI_CLASS :: nat where "EI_CLASS = 4"
definition EI_DATA :: nat where "EI_DATA = 5"
definition EI_NIDENT :: nat where "EI_NIDENT = 16"
definition ELFMAG0 :: u8 where "ELFMAG0 = 0x7f"
definition ELFMAG1 :: u8 where "ELFMAG1 = 69"
definition ELFMAG2 :: u8 where "ELFMAG2 = 76"
definition ELFMAG3 :: u8 where "ELFMAG3 = 70"
definition ELFCLASS64 :: u8 where "ELFCLASS64 = 2"
definition ELFDATA2LSB :: u8 where "ELFDATA2LSB = 1"
definition EM_PPC64 :: u16 where "EM_PPC64 = 21"
definition PT_LOAD :: u32 where "PT_LOAD = 1"

record Elf64_Ehdr =
  e_ident :: "u8 list"
  e_type :: u16
  e_machine :: u16
  e_version :: u32
  e_entry :: u64
  e_phoff :: u64
  e_shoff :: u64
  e_flags :: u32
  e_ehsize :: u16
  e_phentsize :: u16
  e_phnum :: u16
  e_shentsize :: u16
  e_shnum :: u16
  e_shstrndx :: u16

record Elf64_Phdr =
  p_type :: u32
  p_flags :: u32
  p_offset :: u64
  p_vaddr :: u64
  p_paddr :: u64
  p_filesz :: u64
  p_memsz :: u64
  p_align :: u64

definition IS_ELF :: "Elf64_Ehdr \<Rightarrow> bool" where
  "IS_ELF ehdr \<longleftrightarrow> e_ident ehdr ! EI_MAG0 = ELFMAG0 \<and> e_ident ehdr ! EI_MAG1 = ELFMAG1 \<and>
     e_ident ehdr ! EI_MAG2 = ELFMAG2 \<and> e_ident ehdr ! EI_MAG3 = ELFMAG3"

section \<open>Layout\<close>

text \<open>The field of \<open>n\<close> bytes at an offset of a structure.\<close>

definition fld :: "nat \<Rightarrow> nat \<Rightarrow> u8 list \<Rightarrow> 'a::len word" where
  "fld off n bs = of_nat (le_nat (take n (drop off bs)))"

definition SIZEOF_EHDR :: nat where "SIZEOF_EHDR = 64"
definition SIZEOF_PHDR :: nat where "SIZEOF_PHDR = 56"

definition Ehdr_of :: "u8 list \<Rightarrow> Elf64_Ehdr" where
  "Ehdr_of bs =
     \<lparr>e_ident = take EI_NIDENT bs, e_type = fld 16 2 bs, e_machine = fld 18 2 bs, e_version = fld 20 4 bs,
      e_entry = fld 24 8 bs, e_phoff = fld 32 8 bs, e_shoff = fld 40 8 bs, e_flags = fld 48 4 bs,
      e_ehsize = fld 52 2 bs, e_phentsize = fld 54 2 bs, e_phnum = fld 56 2 bs, e_shentsize = fld 58 2 bs,
      e_shnum = fld 60 2 bs, e_shstrndx = fld 62 2 bs\<rparr>"

definition Phdr_of :: "u8 list \<Rightarrow> Elf64_Phdr" where
  "Phdr_of bs =
     \<lparr>p_type = fld 0 4 bs, p_flags = fld 4 4 bs, p_offset = fld 8 8 bs, p_vaddr = fld 16 8 bs,
      p_paddr = fld 24 8 bs, p_filesz = fld 32 8 bs, p_memsz = fld 40 8 bs, p_align = fld 48 8 bs\<rparr>"

definition load_ehdr :: "heap \<Rightarrow> ptr \<Rightarrow> Elf64_Ehdr option" where
  "load_ehdr h p = map_option Ehdr_of (load_bytes h p SIZEOF_EHDR)"

definition load_phdr :: "heap \<Rightarrow> ptr \<Rightarrow> Elf64_Phdr option" where
  "load_phdr h p = map_option Phdr_of (load_bytes h p SIZEOF_PHDR)"

text \<open>The bytes of a structure, in the order of its fields.\<close>

definition wbytes :: "'a::len word \<Rightarrow> u8 list" where
  "wbytes w = nat_le (LENGTH('a) div 8) (unat w)"

definition Ehdr_bytes :: "Elf64_Ehdr \<Rightarrow> u8 list" where
  "Ehdr_bytes e = e_ident e @ wbytes (e_type e) @ wbytes (e_machine e) @ wbytes (e_version e) @ wbytes (e_entry e) @
     wbytes (e_phoff e) @ wbytes (e_shoff e) @ wbytes (e_flags e) @ wbytes (e_ehsize e) @ wbytes (e_phentsize e) @
     wbytes (e_phnum e) @ wbytes (e_shentsize e) @ wbytes (e_shnum e) @ wbytes (e_shstrndx e)"

definition Phdr_bytes :: "Elf64_Phdr \<Rightarrow> u8 list" where
  "Phdr_bytes p = wbytes (p_type p) @ wbytes (p_flags p) @ wbytes (p_offset p) @ wbytes (p_vaddr p) @
     wbytes (p_paddr p) @ wbytes (p_filesz p) @ wbytes (p_memsz p) @ wbytes (p_align p)"

section \<open>Fields\<close>

lemma length_wbytes [simp]:
  "length (wbytes (w :: u16)) = 2" "length (wbytes (x :: u32)) = 4" "length (wbytes (y :: u64)) = 8"
  by (simp_all add: wbytes_def)

lemma of_le_wbytes [simp]:
  "of_nat (le_nat (wbytes (w :: u16))) = w" "of_nat (le_nat (wbytes (x :: u32))) = x" "of_nat (le_nat (wbytes (y :: u64))) = y"
  using unsigned_less [of w, where ?'a = nat] unsigned_less [of x, where ?'a = nat] unsigned_less [of y, where ?'a = nat]
  by (simp_all add: wbytes_def)

lemma length_Phdr_bytes [simp]: "length (Phdr_bytes p) = SIZEOF_PHDR"
  by (simp add: Phdr_bytes_def SIZEOF_PHDR_def)

lemma length_Ehdr_bytes: "length (e_ident e) = EI_NIDENT \<Longrightarrow> length (Ehdr_bytes e) = SIZEOF_EHDR"
  by (simp add: Ehdr_bytes_def SIZEOF_EHDR_def EI_NIDENT_def)

lemma Phdr_of_bytes [simp]: "Phdr_of (Phdr_bytes p) = p"
  by (simp add: Phdr_of_def Phdr_bytes_def fld_def)

lemma Ehdr_of_bytes: "length (e_ident e) = EI_NIDENT \<Longrightarrow> Ehdr_of (Ehdr_bytes e) = e"
  by (simp add: Ehdr_of_def Ehdr_bytes_def fld_def EI_NIDENT_def)

lemma load_phdr_arr: "arr h p (Phdr_bytes ph) \<Longrightarrow> load_phdr h p = Some ph"
  using load_bytes_arr [of h p SIZEOF_PHDR "Phdr_bytes ph"] by (simp add: load_phdr_def)

lemma load_ehdr_arr: "length (e_ident e) = EI_NIDENT \<Longrightarrow> arr h p (Ehdr_bytes e) \<Longrightarrow> load_ehdr h p = Some e"
  using load_bytes_arr [of h p SIZEOF_EHDR "Ehdr_bytes e"] by (simp add: load_ehdr_def length_Ehdr_bytes Ehdr_of_bytes)

end
