(* ===== verification/Libc_Str.thy ===== *)
theory Libc_Str
  imports Libc_Mem "HOL-Library.Sublist"
begin

text \<open>
  The character and string functions of the boot firmware's C library
  (\<^verbatim>\<open>litedram/gen-src/sdram_init/libc/src/is*.c\<close>, \<^verbatim>\<open>to*.c\<close> and \<^verbatim>\<open>str*.c\<close>, but for
  \<open>strtol\<close> and \<open>strtoul\<close>). \<open>char\<close> is unsigned on the target, so a character read as an
  \<open>int\<close> is \<open>uint\<close> of its byte. Loops that run to a NUL have no bound of their own: they
  are \<^theory_text>\<open>partial_function\<close>s, and the lemmas show that they return on C strings.
\<close>

section \<open>Character classes\<close>

definition isdigit :: "int \<Rightarrow> int" where
  "isdigit ch = (if ch \<in> {48, 49, 50, 51, 52, 53, 54, 55, 56, 57} then 1 else 0)"

definition isprint :: "int \<Rightarrow> int" where
  "isprint ch = (if 32 \<le> ch \<and> ch < 127 then 1 else 0)"

definition isspace :: "int \<Rightarrow> int" where
  "isspace ch = (if ch \<in> {32, 12, 10, 13, 9, 11} then 1 else 0)"

definition isxdigit :: "int \<Rightarrow> int" where
  "isxdigit ch = (if 48 \<le> ch \<and> ch \<le> 57 then 1 else 0) OR
     (if 65 \<le> ch \<and> ch \<le> 70 then 1 else 0) OR (if 97 \<le> ch \<and> ch \<le> 102 then 1 else 0)"

definition tolower :: "int \<Rightarrow> int" where
  "tolower c = (if 65 \<le> c \<and> c \<le> 90 then c - 65 + 97 else c)"

definition toupper :: "int \<Rightarrow> int" where
  "toupper cha = (if 97 \<le> cha \<and> cha \<le> 122 then cha - 97 + 65 else cha)"

section \<open>Lengths\<close>

partial_function (option) strlen_loop :: "heap \<Rightarrow> ptr \<Rightarrow> u64 \<Rightarrow> u64 option" where
  "strlen_loop h s len = do {
     c \<leftarrow> h s;
     if c \<noteq> 0 then strlen_loop h (s + 1) (len + 1) else Some len
   }"

definition strlen :: "heap \<Rightarrow> ptr \<Rightarrow> u64 option" where
  "strlen h s = strlen_loop h s 0"

text \<open>\<open>strnlen\<close> reads the character before it tests the count.\<close>

function strnlen_loop :: "heap \<Rightarrow> ptr \<Rightarrow> u64 \<Rightarrow> u64 \<Rightarrow> u64 option" where
  "strnlen_loop h s n len = do {
     c \<leftarrow> h s;
     if c \<noteq> 0 \<and> n \<noteq> 0 then strnlen_loop h (s + 1) (n - 1) (len + 1) else Some len
   }"
  by pat_completeness auto
termination
  by (relation "measure (\<lambda>(h, s, n, len). unat n)") (auto simp: unat_dec word_neq_0_conv)

definition strnlen :: "heap \<Rightarrow> ptr \<Rightarrow> u64 \<Rightarrow> u64 option" where
  "strnlen h s n = strnlen_loop h s n 0"

section \<open>Comparison\<close>

partial_function (option) strcmp :: "heap \<Rightarrow> ptr \<Rightarrow> ptr \<Rightarrow> int option" where
  "strcmp h s1 s2 = do {
     a \<leftarrow> h s1;
     b \<leftarrow> h s2;
     if a \<noteq> 0 \<and> b \<noteq> 0 \<and> a = b then strcmp h (s1 + 1) (s2 + 1)
     else Some (uint a - uint b)
   }"

text \<open>
  In the counted comparisons the loop condition decrements \<open>n\<close>, and only when both
  characters are nonzero.
\<close>

partial_function (option) strncmp_loop :: "heap \<Rightarrow> ptr \<Rightarrow> ptr \<Rightarrow> u64 \<Rightarrow> int option" where
  "strncmp_loop h s1 s2 n = do {
     a \<leftarrow> h s1;
     b \<leftarrow> h s2;
     if a \<noteq> 0 \<and> b \<noteq> 0 \<and> 0 < n - 1 \<and> a = b then strncmp_loop h (s1 + 1) (s2 + 1) (n - 1)
     else Some (uint a - uint b)
   }"

definition strncmp :: "heap \<Rightarrow> ptr \<Rightarrow> ptr \<Rightarrow> u64 \<Rightarrow> int option" where
  "strncmp h s1 s2 n = (if n < 1 then Some 0 else strncmp_loop h s1 s2 n)"

partial_function (option) strcasecmp :: "heap \<Rightarrow> ptr \<Rightarrow> ptr \<Rightarrow> int option" where
  "strcasecmp h s1 s2 = do {
     a \<leftarrow> h s1;
     b \<leftarrow> h s2;
     if a \<noteq> 0 \<and> b \<noteq> 0 \<and> toupper (uint a) = toupper (uint b) then strcasecmp h (s1 + 1) (s2 + 1)
     else Some (uint a - uint b)
   }"

partial_function (option) strncasecmp_loop :: "heap \<Rightarrow> ptr \<Rightarrow> ptr \<Rightarrow> u64 \<Rightarrow> int option" where
  "strncasecmp_loop h s1 s2 n = do {
     a \<leftarrow> h s1;
     b \<leftarrow> h s2;
     if a \<noteq> 0 \<and> b \<noteq> 0 \<and> 0 < n - 1 \<and> toupper (uint a) = toupper (uint b)
     then strncasecmp_loop h (s1 + 1) (s2 + 1) (n - 1)
     else Some (toupper (uint a) - toupper (uint b))
   }"

definition strncasecmp :: "heap \<Rightarrow> ptr \<Rightarrow> ptr \<Rightarrow> u64 \<Rightarrow> int option" where
  "strncasecmp h s1 s2 n = (if n < 1 then Some 0 else strncasecmp_loop h s1 s2 n)"

section \<open>Searching\<close>

partial_function (option) strchr_loop :: "heap \<Rightarrow> ptr \<Rightarrow> u8 \<Rightarrow> ptr option" where
  "strchr_loop h s cb = do {
     c \<leftarrow> h s;
     if c \<noteq> 0 then (if c = cb then Some s else strchr_loop h (s + 1) cb) else Some 0
   }"

definition strchr :: "heap \<Rightarrow> ptr \<Rightarrow> u32 \<Rightarrow> ptr option" where
  "strchr h s c = strchr_loop h s (ucast c)"

partial_function (option) strrchr_loop :: "heap \<Rightarrow> ptr \<Rightarrow> u8 \<Rightarrow> ptr \<Rightarrow> ptr option" where
  "strrchr_loop h s cb lst = do {
     c \<leftarrow> h s;
     if c \<noteq> 0 then strrchr_loop h (s + 1) cb (if c = cb then s else lst) else Some lst
   }"

definition strrchr :: "heap \<Rightarrow> ptr \<Rightarrow> u32 \<Rightarrow> ptr option" where
  "strrchr h s c = strrchr_loop h s (ucast c) 0"

partial_function (option) strstr_loop :: "heap \<Rightarrow> ptr \<Rightarrow> ptr \<Rightarrow> u64 \<Rightarrow> ptr \<Rightarrow> ptr option" where
  "strstr_loop h pos needle nlen lim =
     (if pos < lim then do {
        r \<leftarrow> strncmp h pos needle nlen;
        if r = 0 then Some pos else strstr_loop h (pos + 1) needle nlen lim
      } else Some 0)"

definition strstr :: "heap \<Rightarrow> ptr \<Rightarrow> ptr \<Rightarrow> ptr option" where
  "strstr h hay needle =
     (if hay = 0 \<or> needle = 0 then Some 0
      else do {
        hlen \<leftarrow> strlen h hay;
        nlen \<leftarrow> strlen h needle;
        if nlen < 1 then Some hay else strstr_loop h hay needle nlen (hay + hlen)
      })"

section \<open>Copying\<close>

text \<open>\<open>strcpy\<close> reads the character again, after the store, to decide whether to go on.\<close>

partial_function (option) strcpy_loop :: "heap \<Rightarrow> ptr \<Rightarrow> ptr \<Rightarrow> heap option" where
  "strcpy_loop h p src = do {
     c \<leftarrow> h src;
     h' \<leftarrow> store8 h p c;
     c' \<leftarrow> h' src;
     if c' \<noteq> 0 then strcpy_loop h' (p + 1) (src + 1) else Some h'
   }"

definition strcpy :: "heap \<Rightarrow> ptr \<Rightarrow> ptr \<Rightarrow> (ptr \<times> heap) option" where
  "strcpy h dst src = do { h' \<leftarrow> strcpy_loop h dst src; Some (dst, h') }"

definition strcat :: "heap \<Rightarrow> ptr \<Rightarrow> ptr \<Rightarrow> (ptr \<times> heap) option" where
  "strcat h dst src = do {
     p \<leftarrow> strlen h dst;
     (_, h') \<leftarrow> strcpy h (dst + p) src;
     Some (dst, h')
   }"

function strncpy_pad :: "heap \<Rightarrow> ptr \<Rightarrow> u64 \<Rightarrow> heap option" where
  "strncpy_pad h dst n =
     (if 0 < n then do { h' \<leftarrow> store8 h dst 0; strncpy_pad h' (dst + 1) (n - 1) } else Some h)"
  by pat_completeness auto
termination
  by (relation "measure (\<lambda>(h, dst, n). unat n)") (auto simp: unat_dec)

function strncpy_loop :: "heap \<Rightarrow> ptr \<Rightarrow> ptr \<Rightarrow> u64 \<Rightarrow> heap option" where
  "strncpy_loop h dst src n = do {
     c \<leftarrow> h src;
     if c \<noteq> 0 \<and> 0 < n then do {
       h' \<leftarrow> store8 h dst c;
       strncpy_loop h' (dst + 1) (src + 1) (n - 1)
     } else strncpy_pad h dst n
   }"
  by pat_completeness auto
termination
  by (relation "measure (\<lambda>(h, dst, src, n). unat n)") (auto simp: unat_dec)

definition strncpy :: "heap \<Rightarrow> ptr \<Rightarrow> ptr \<Rightarrow> u64 \<Rightarrow> (ptr \<times> heap) option" where
  "strncpy h dst src n = do { h' \<leftarrow> strncpy_loop h dst src n; Some (dst, h') }"

section \<open>Tokenising\<close>

text \<open>
  \<open>strtok\<close> keeps its position in the static variable \<open>nxtTok\<close>, which the model passes and
  returns. The inner loop looks the current character up in the pattern.
\<close>

partial_function (option) strtok_in :: "heap \<Rightarrow> ptr \<Rightarrow> u8 \<Rightarrow> bool option" where
  "strtok_in h pp c = do {
     x \<leftarrow> h pp;
     if x \<noteq> 0 then (if x = c then Some True else strtok_in h (pp + 1) c) else Some False
   }"

partial_function (option) strtok_loop :: "heap \<Rightarrow> ptr \<Rightarrow> ptr \<Rightarrow> ptr \<Rightarrow> (ptr \<times> ptr \<times> heap) option" where
  "strtok_loop h src pattern retVal = do {
     c \<leftarrow> h src;
     if c \<noteq> 0 then do {
       found \<leftarrow> strtok_in h pattern c;
       if \<not> found then
         (if retVal = 0 then strtok_loop h (src + 1) pattern src
          else do {
            prev \<leftarrow> h (src - 1);
            if prev = 0 then Some (retVal, src, h) else strtok_loop h (src + 1) pattern retVal
          })
       else do {
         h' \<leftarrow> store8 h src 0;
         strtok_loop h' (src + 1) pattern retVal
       }
     } else Some (retVal, src, h)
   }"

definition strtok :: "heap \<Rightarrow> ptr \<Rightarrow> ptr \<Rightarrow> ptr \<Rightarrow> (ptr \<times> ptr \<times> heap) option" where
  "strtok h nxtTok src pattern =
     (if src = 0 \<and> nxtTok = 0 then Some (0, nxtTok, h)
      else strtok_loop h (if src = 0 then nxtTok else src) pattern 0)"

declare strnlen_loop.simps [simp del] strncpy_pad.simps [simp del] strncpy_loop.simps [simp del]

section \<open>Lengths and comparison on lists\<close>

lemma strlen_loop_eq: "cstr h p s \<Longrightarrow> strlen_loop h p len = Some (len + of_nat (length s))"
  by (induction s arbitrary: p len) (simp_all add: strlen_loop.simps algebra_simps)

lemma strlen_eq: "cstr h p s \<Longrightarrow> strlen h p = Some (of_nat (length s))"
  by (simp add: strlen_def strlen_loop_eq)

lemma strnlen_loop_eq:
  "cstr h p s \<Longrightarrow> strnlen_loop h p n len = Some (len + of_nat (min (length s) (unat n)))"
proof (induction s arbitrary: p n len)
  case Nil
  then show ?case by (simp add: strnlen_loop.simps)
next
  case (Cons c s)
  show ?case
  proof (cases "n = 0")
    case True
    with Cons.prems show ?thesis by (simp add: strnlen_loop.simps)
  next
    case False
    then have "unat n = Suc (unat (n - 1))" by (simp add: unat_Suc_pred word_gt_0)
    with Cons False show ?thesis by (subst strnlen_loop.simps) (simp add: algebra_simps)
  qed
qed

fun str_diff :: "u8 list \<Rightarrow> u8 list \<Rightarrow> int" where
  "str_diff [] [] = 0"
| "str_diff [] (y # ys) = - uint y"
| "str_diff (x # xs) [] = uint x"
| "str_diff (x # xs) (y # ys) = (if x = y then str_diff xs ys else uint x - uint y)"

lemma str_diff_eq_0: "0 \<notin> set xs \<Longrightarrow> 0 \<notin> set ys \<Longrightarrow> str_diff xs ys = 0 \<longleftrightarrow> xs = ys"
  by (induction xs ys rule: str_diff.induct) (auto simp: word_uint_eq_iff)

lemma str_diff_less_0:
  "0 \<notin> set xs \<Longrightarrow> 0 \<notin> set ys \<Longrightarrow> str_diff xs ys < 0 \<longleftrightarrow> ord_class.lexordp xs ys"
proof (induction xs ys rule: str_diff.induct)
  case (2 y ys)
  then have "y \<noteq> 0" by auto
  then show ?case by (simp add: word_uint_eq_iff order.strict_iff_order)
qed (auto simp: word_uint_eq_iff word_less_def)

lemma strcmp_eq: "cstr h p xs \<Longrightarrow> cstr h q ys \<Longrightarrow> strcmp h p q = Some (str_diff xs ys)"
  by (induction xs ys arbitrary: p q rule: str_diff.induct) (simp_all add: strcmp.simps)

lemma strncmp_loop_eq:
  "cstr h p xs \<Longrightarrow> cstr h q ys \<Longrightarrow> 0 < n \<Longrightarrow>
   strncmp_loop h p q n = Some (str_diff (take (unat n) xs) (take (unat n) ys))"
proof (induction xs ys arbitrary: p q n rule: str_diff.induct)
  case (2 y ys)
  then show ?case by (simp add: strncmp_loop.simps unat_Suc_pred)
next
  case (3 x xs)
  then show ?case by (simp add: strncmp_loop.simps unat_Suc_pred)
next
  case (4 x xs y ys)
  then have n: "unat n = Suc (unat (n - 1))" by (intro unat_Suc_pred)
  show ?case
  proof (cases "0 < n - 1 \<and> x = y")
    case True
    with 4 n show ?thesis by (subst strncmp_loop.simps) simp
  next
    case False
    then have "x \<noteq> y \<or> unat (n - 1) = 0" by (auto simp: word_gt_0)
    with 4 n False show ?thesis by (subst strncmp_loop.simps) auto
  qed
qed (simp add: strncmp_loop.simps)

lemma strncmp_eq:
  "cstr h p xs \<Longrightarrow> cstr h q ys \<Longrightarrow>
   strncmp h p q n = Some (str_diff (take (unat n) xs) (take (unat n) ys))"
  by (simp add: strncmp_def strncmp_loop_eq word_less_1 word_neq_0_conv)

lemma toupper_eq_nonzero: "toupper (uint a) = toupper (uint b) \<Longrightarrow> a = (0 :: u8) \<longleftrightarrow> b = 0"
  by (auto simp: toupper_def word_uint_eq_iff split: if_splits)

lemma strcasecmp_ex:
  "cstr h p xs \<Longrightarrow> cstr h q ys \<Longrightarrow>
   \<exists>r. strcasecmp h p q = Some r \<and>
     (r = 0 \<longleftrightarrow> map (toupper \<circ> uint) xs = map (toupper \<circ> uint) ys)"
proof (induction xs ys arbitrary: p q rule: list_induct2')
  case (4 x xs y ys)
  show ?case
  proof (cases "toupper (uint x) = toupper (uint y)")
    case True
    with 4 obtain r where "strcasecmp h (p + 1) (q + 1) = Some r"
      "r = 0 \<longleftrightarrow> map (toupper \<circ> uint) xs = map (toupper \<circ> uint) ys" by fastforce
    with True 4 show ?thesis by (subst strcasecmp.simps) simp
  next
    case False
    with 4 show ?thesis by (subst strcasecmp.simps) auto
  qed
qed (simp_all add: strcasecmp.simps word_uint_eq_iff)

section \<open>Searching on lists\<close>

lemma strchr_loop_eq:
  "cstr h p s \<Longrightarrow> strchr_loop h p cb =
     Some (if cb \<in> set s then p + of_nat (length (takeWhile (\<lambda>c. c \<noteq> cb) s)) else 0)"
  by (induction s arbitrary: p) (auto simp: strchr_loop.simps algebra_simps)

lemma strrchr_loop_none: "cstr h p s \<Longrightarrow> cb \<notin> set s \<Longrightarrow> strrchr_loop h p cb lst = Some lst"
  by (induction s arbitrary: p) (auto simp: strrchr_loop.simps)

lemma strrchr_loop_last:
  "cstr h p (pre @ cb # post) \<Longrightarrow> cb \<notin> set post \<Longrightarrow>
   strrchr_loop h p cb lst = Some (p + of_nat (length pre))"
proof (induction pre arbitrary: p lst)
  case Nil
  then show ?case by (subst strrchr_loop.simps) (simp add: strrchr_loop_none [of h "p + 1" post])
next
  case (Cons c pre)
  then show ?case by (subst strrchr_loop.simps) (simp add: algebra_simps)
qed

fun find_str :: "u8 list \<Rightarrow> u8 list \<Rightarrow> nat option" where
  "find_str needle [] = None"
| "find_str needle (x # xs) =
     (if prefix needle (x # xs) then Some 0 else map_option Suc (find_str needle xs))"

lemma prefix_take: "prefix needle xs \<longleftrightarrow> take (length needle) xs = needle"
  by (metis append_eq_conv_conj prefix_def take_is_prefix)

lemma strstr_loop_eq:
  "cstr h p xs \<Longrightarrow> cstr h q needle \<Longrightarrow> length needle < addr_max \<Longrightarrow> unat p + length xs < addr_max \<Longrightarrow>
   strstr_loop h p q (of_nat (length needle)) (p + of_nat (length xs)) =
     Some (case find_str needle xs of None \<Rightarrow> 0 | Some i \<Rightarrow> p + of_nat i)"
proof (induction xs arbitrary: p)
  case Nil
  then show ?case by (simp add: strstr_loop.simps)
next
  case (Cons x xs)
  have lt: "p < p + of_nat (length (x # xs))"
    using Cons.prems(4) unat_add_of_nat [of p "length (x # xs)"]
    by (simp add: word_less_nat_alt del: of_nat_Suc)
  have nz: "0 \<notin> set (x # xs)" "0 \<notin> set needle"
    using Cons.prems(1,2) by (blast dest: cstr_nonzero)+
  have "strncmp h p q (of_nat (length needle)) = Some (str_diff (take (length needle) (x # xs)) needle)"
    using Cons.prems strncmp_eq [of h p "x # xs" q needle] by (simp add: unat_of_nat_addr)
  moreover have "str_diff (take (length needle) (x # xs)) needle = 0 \<longleftrightarrow> prefix needle (x # xs)"
    using nz by (subst str_diff_eq_0) (auto simp: prefix_take dest: in_set_takeD)
  moreover have "strstr_loop h (p + 1) q (of_nat (length needle)) (p + 1 + of_nat (length xs)) =
     Some (case find_str needle xs of None \<Rightarrow> 0 | Some i \<Rightarrow> p + 1 + of_nat i)"
    using Cons.prems unat_add_of_nat [of p 1] by (intro Cons.IH) simp_all
  ultimately show ?case
    using lt by (subst strstr_loop.simps) (auto simp: algebra_simps split: option.split)
qed

lemma find_str_Some:
  "find_str needle xs = Some i \<Longrightarrow>
   i < length xs \<and> prefix needle (drop i xs) \<and> (\<forall>j<i. \<not> prefix needle (drop j xs))"
proof (induction xs arbitrary: i)
  case (Cons x xs)
  then show ?case by (auto split: if_splits simp: less_Suc_eq_0_disj)
qed simp

lemma find_str_None: "find_str needle xs = None \<Longrightarrow> j < length xs \<Longrightarrow> \<not> prefix needle (drop j xs)"
proof (induction xs arbitrary: j)
  case (Cons x xs)
  then show ?case by (cases j) (auto split: if_splits)
qed simp

lemma strstr_eq:
  "cstr h p xs \<Longrightarrow> cstr h q needle \<Longrightarrow> needle \<noteq> [] \<Longrightarrow> p \<noteq> 0 \<Longrightarrow> q \<noteq> 0 \<Longrightarrow>
   length needle < addr_max \<Longrightarrow> unat p + length xs < addr_max \<Longrightarrow>
   strstr h p q = Some (case find_str needle xs of None \<Rightarrow> 0 | Some i \<Rightarrow> p + of_nat i)"
  using of_nat_gt_0 [of "length needle"]
  by (simp add: strstr_def strlen_eq strstr_loop_eq word_less_1 word_gt_0)

section \<open>Copying on lists\<close>

lemma strcpy_loop_eq:
  "cstr h src s \<Longrightarrow> mapped h dst (Suc (length s)) \<Longrightarrow> Suc (length s) < addr_max \<Longrightarrow>
   region dst (Suc (length s)) \<inter> region src (Suc (length s)) = {} \<Longrightarrow>
   strcpy_loop h dst src = Some (upd_bytes h dst (s @ [0]))"
proof (induction s arbitrary: h dst src)
  case Nil
  then have "dst \<noteq> src" by auto
  with Nil show ?case
    by (subst strcpy_loop.simps) (auto simp: store8_dom upd_bytes_Cons addr_max_def)
next
  case (Cons c s)
  let ?h = "h(dst \<mapsto> c)"
  have "cstr ?h (src + 1) s"
    using Cons.prems by (subst cstr_fun_upd) auto
  moreover have "mapped ?h (dst + 1) (Suc (length s))"
    using Cons.prems(2) by (intro mapped_fun_upd) simp
  ultimately have "strcpy_loop ?h (dst + 1) (src + 1) = Some (upd_bytes ?h (dst + 1) (s @ [0]))"
    using Cons.prems(3,4) by (intro Cons.IH) (assumption | simp)+
  moreover have "dst \<noteq> src" using Cons.prems(4) by auto
  ultimately show ?case
    using Cons.prems by (subst strcpy_loop.simps) (simp add: store8_dom upd_bytes_Cons)
qed

lemma strncpy_pad_eq:
  "mapped h dst n \<Longrightarrow> n < addr_max \<Longrightarrow> strncpy_pad h dst (of_nat n) = Some (upd_bytes h dst (replicate n 0))"
proof (induction n arbitrary: h dst)
  case 0
  then show ?case by (simp add: strncpy_pad.simps)
next
  case (Suc n)
  let ?h = "h(dst \<mapsto> 0)"
  have "0 < (of_nat (Suc n) :: u64)" using Suc.prems by (intro of_nat_gt_0) simp_all
  moreover have "mapped ?h (dst + 1) n" using Suc.prems by (simp add: mapped_fun_upd)
  then have "strncpy_pad ?h (dst + 1) (of_nat n) = Some (upd_bytes ?h (dst + 1) (replicate n 0))"
    using Suc.prems(2) by (intro Suc.IH) (assumption | simp)+
  ultimately show ?case
    using Suc.prems by (subst strncpy_pad.simps) (simp add: store8_dom upd_bytes_Cons)
qed

lemma strncpy_loop_eq:
  "cstr h src s \<Longrightarrow> mapped h dst n \<Longrightarrow> n < addr_max \<Longrightarrow>
   region dst n \<inter> region src (Suc (length s)) = {} \<Longrightarrow>
   strncpy_loop h dst src (of_nat n) = Some (upd_bytes h dst (take n s @ replicate (n - length s) 0))"
proof (induction s arbitrary: h dst src n)
  case Nil
  then show ?case by (subst strncpy_loop.simps) (simp add: strncpy_pad_eq)
next
  case (Cons c s)
  show ?case
  proof (cases n)
    case 0
    with Cons.prems show ?thesis by (subst strncpy_loop.simps) (simp add: strncpy_pad.simps)
  next
    case (Suc m)
    let ?h = "h(dst \<mapsto> c)"
    have "0 < (of_nat n :: u64)" using Cons.prems Suc by (intro of_nat_gt_0) simp_all
    moreover have "cstr ?h (src + 1) s"
      using Cons.prems by (subst cstr_fun_upd) (auto simp: Suc)
    moreover have "mapped ?h (dst + 1) m"
      using Cons.prems(2) by (intro mapped_fun_upd) (simp add: Suc)
    ultimately have "strncpy_loop ?h (dst + 1) (src + 1) (of_nat m) =
        Some (upd_bytes ?h (dst + 1) (take m s @ replicate (m - length s) 0))"
      using Cons.prems(3,4) by (intro Cons.IH) (assumption | simp add: Suc)+
    with \<open>0 < of_nat n\<close> show ?thesis
      using Cons.prems by (subst strncpy_loop.simps) (simp add: Suc store8_dom upd_bytes_Cons)
  qed
qed

section \<open>Tokenising on lists\<close>

lemma strtok_in_eq: "cstr h q pat \<Longrightarrow> strtok_in h q c = Some (c \<in> set pat)"
  by (induction pat arbitrary: q) (auto simp: strtok_in.simps)

text \<open>Delimiters are overwritten by NULs, before a token and after it alike.\<close>

lemma strtok_skip:
  "cstr h p (ds @ r) \<Longrightarrow> set ds \<subseteq> set pat \<Longrightarrow> cstr h q pat \<Longrightarrow>
   region p (length ds) \<inter> region q (Suc (length pat)) = {} \<Longrightarrow> length ds + length r < addr_max \<Longrightarrow>
   strtok_loop h p q rv =
     strtok_loop (upd_bytes h p (replicate (length ds) 0)) (p + of_nat (length ds)) q rv"
proof (induction ds arbitrary: h p)
  case Nil
  then show ?case by simp
next
  case (Cons d ds)
  let ?h = "h(p \<mapsto> 0)"
  have "cstr ?h (p + 1) (ds @ r)"
    using Cons.prems(1,5) head_notin_tail [of "Suc (length (ds @ r))" p] by (subst cstr_fun_upd) auto
  moreover have "cstr ?h q pat"
    using Cons.prems(3,4) by (subst cstr_fun_upd) auto
  ultimately have "strtok_loop ?h (p + 1) q rv =
      strtok_loop (upd_bytes ?h (p + 1) (replicate (length ds) 0)) (p + 1 + of_nat (length ds)) q rv"
    using Cons.prems(2,4,5) by (intro Cons.IH) (assumption | simp)+
  moreover have "strtok_loop h p q rv = strtok_loop ?h (p + 1) q rv"
    using Cons.prems(1-3) by (subst strtok_loop.simps) (simp add: strtok_in_eq)
  ultimately show ?case
    using Cons.prems(5) by (simp add: upd_bytes_Cons algebra_simps)
qed

text \<open>Inside a token nothing is written.\<close>

lemma strtok_token:
  "cstr h p (t @ r) \<Longrightarrow> set t \<inter> set pat = {} \<Longrightarrow> cstr h q pat \<Longrightarrow> h (p - 1) = Some c \<Longrightarrow> c \<noteq> 0 \<Longrightarrow> rv \<noteq> 0 \<Longrightarrow>
   strtok_loop h p q rv = strtok_loop h (p + of_nat (length t)) q rv"
proof (induction t arbitrary: p c)
  case Nil
  then show ?case by simp
next
  case (Cons x t)
  then have "strtok_loop h p q rv = strtok_loop h (p + 1) q rv"
    by (subst strtok_loop.simps) (simp add: strtok_in_eq)
  also have "\<dots> = strtok_loop h (p + 1 + of_nat (length t)) q rv"
    using Cons.prems by (intro Cons.IH [of "p + 1" x]) auto
  finally show ?case by (simp add: algebra_simps)
qed

lemma strtok_stop:
  assumes "cstr h p r" "cstr h q pat" "r = [] \<or> hd r \<notin> set pat \<and> h (p - 1) = Some 0" "rv \<noteq> 0"
  shows "strtok_loop h p q rv = Some (rv, p, h)"
  using assms by (cases r) (simp_all add: strtok_loop.simps strtok_in_eq)

lemma strtok_to_token_end:
  fixes h p q ds t r pat
  defines "rv \<equiv> p + of_nat (length ds)" and "h1 \<equiv> upd_bytes h p (replicate (length ds) 0)"
  assumes str: "cstr h p (ds @ t @ r)" and pat: "cstr h q pat"
    and split: "set ds \<subseteq> set pat" "t \<noteq> []" "set t \<inter> set pat = {}"
    and apart: "region p (length ds) \<inter> region q (Suc (length pat)) = {}"
    and fit: "Suc (length (ds @ t @ r)) \<le> addr_max" and nz: "rv \<noteq> 0"
  shows "strtok_loop h p q 0 = strtok_loop h1 (rv + of_nat (length t)) q rv"
    and "cstr h1 rv (t @ r)" and "cstr h1 q pat"
proof -
  obtain c t' where t: "t = c # t'" using split(2) by (cases t) auto
  show s1: "cstr h1 rv (t @ r)"
    using str fit region_split_disjoint [of "length ds" "Suc (length (t @ r))" p]
    unfolding h1_def rv_def by (subst cstr_upd_disjoint) (auto simp: cstr_append)
  show q1: "cstr h1 q pat"
    using pat apart fit unfolding h1_def by (subst cstr_upd_disjoint) simp_all
  have "strtok_loop h p q 0 = strtok_loop h1 rv q 0"
    using str split(1) pat apart fit unfolding h1_def rv_def
    by (intro strtok_skip [where r = "t @ r"]) (assumption | simp)+
  also have "\<dots> = strtok_loop h1 (rv + 1) q rv"
    using s1 q1 split(3) by (subst strtok_loop.simps) (simp add: t strtok_in_eq)
  also have "\<dots> = strtok_loop h1 (rv + 1 + of_nat (length t')) q rv"
    using s1 q1 split(3) nz by (intro strtok_token [where c = c and r = r]) (auto simp: t)
  finally show "strtok_loop h p q 0 = strtok_loop h1 (rv + of_nat (length t)) q rv"
    by (simp add: t algebra_simps)
qed

lemma strtok_after_token:
  fixes h e q es rest pat
  defines "nxt \<equiv> e + of_nat (length es)" and "h2 \<equiv> upd_bytes h e (replicate (length es) 0)"
  assumes str: "cstr h e (es @ rest)" and pat: "cstr h q pat"
    and split: "set es \<subseteq> set pat" "rest = [] \<or> es \<noteq> [] \<and> hd rest \<notin> set pat"
    and apart: "region e (length es) \<inter> region q (Suc (length pat)) = {}"
    and fit: "Suc (length (es @ rest)) \<le> addr_max" and nz: "rv \<noteq> 0"
  shows "strtok_loop h e q rv = Some (rv, nxt, h2)"
    and "h2 e = Some 0" and "cstr h2 nxt rest" and "cstr h2 q pat"
proof -
  show q2: "cstr h2 q pat"
    using pat apart fit unfolding h2_def by (subst cstr_upd_disjoint) simp_all
  show s2: "cstr h2 nxt rest"
    using str fit region_split_disjoint [of "length es" "Suc (length rest)" e]
    unfolding h2_def nxt_def by (subst cstr_upd_disjoint) (auto simp: cstr_append)
  have zeros: "h2 (e + of_nat i) = Some 0" if "i < length es" for i
    using that fit arr_nthD [OF arr_upd_bytes [of "replicate (length es) 0" h e], of i]
    by (simp add: h2_def)
  show "h2 e = Some 0"
    using zeros [of 0] s2 split(2) by (cases es) (auto simp: nxt_def)
  have "h2 (nxt - 1) = Some 0" if "es \<noteq> []"
    using zeros [of "length es - 1"] that by (cases es) (simp_all add: nxt_def algebra_simps)
  then have "strtok_loop h2 nxt q rv = Some (rv, nxt, h2)"
    using s2 q2 split(2) nz by (intro strtok_stop) auto
  moreover have "strtok_loop h e q rv = strtok_loop h2 nxt q rv"
    using str split(1) pat apart fit unfolding h2_def nxt_def
    by (intro strtok_skip [where r = rest]) (assumption | simp)+
  ultimately show "strtok_loop h e q rv = Some (rv, nxt, h2)" by simp
qed

lemma strtok_found:
  fixes h p q ds t es rest pat
  defines "rv \<equiv> p + of_nat (length ds)" and "e \<equiv> p + of_nat (length ds + length t)"
    and "nxt \<equiv> p + of_nat (length ds + length t + length es)"
  defines "h1 \<equiv> upd_bytes h p (replicate (length ds) 0)"
  defines "h2 \<equiv> upd_bytes h1 e (replicate (length es) 0)"
  assumes str: "cstr h p (ds @ t @ es @ rest)" and pat: "cstr h q pat"
    and split: "set ds \<subseteq> set pat" "t \<noteq> []" "set t \<inter> set pat = {}" "set es \<subseteq> set pat"
      "rest = [] \<or> es \<noteq> [] \<and> hd rest \<notin> set pat"
    and apart: "region p (Suc (length (ds @ t @ es @ rest))) \<inter> region q (Suc (length pat)) = {}"
    and fit: "Suc (length (ds @ t @ es @ rest)) \<le> addr_max" and nz: "rv \<noteq> 0"
  shows "strtok_loop h p q 0 = Some (rv, nxt, h2)" "cstr h2 rv t" "cstr h2 nxt rest" "cstr h2 q pat"
proof -
  let ?n = "Suc (length (ds @ t @ es @ rest))"
  have "region p (length ds) \<inter> region q (Suc (length pat)) = {}"
    using apart region_mono [of "length ds" ?n p] by auto
  note 1 = strtok_to_token_end [where ds = ds and t = t and r = "es @ rest", OF str pat split(1-3) this fit
    nz [unfolded rv_def], folded h1_def rv_def]
  have e: "e = rv + of_nat (length t)" and nxt: "nxt = e + of_nat (length es)"
    by (simp_all add: e_def rv_def nxt_def add.assoc)
  have "cstr h1 e (es @ rest)" using 1(2) by (simp add: e cstr_append)
  moreover have "region e (length es) \<inter> region q (Suc (length pat)) = {}"
    using apart region_add [of p "length ds + length t" "length es"]
      region_mono [of "length ds + length t + length es" ?n p] by (auto simp: e_def)
  moreover have "Suc (length (es @ rest)) \<le> addr_max" using fit by simp
  ultimately have 2: "strtok_loop h1 e q rv = Some (rv, nxt, h2)" "h2 e = Some 0" "cstr h2 nxt rest"
    "cstr h2 q pat"
    using strtok_after_token [of h1 e es rest q pat rv] 1(3) split(4,5) nz by (simp_all add: h2_def nxt)
  have "arr h2 rv t"
    using 1(2) fit region_split_disjoint [of "length t" "length es" rv]
    unfolding h2_def e by (subst arr_upd_disjoint) (auto simp: cstr_append)
  with 1(2) 2(2) show "cstr h2 rv t" by (simp add: cstr_arr arr_append e)
  show "strtok_loop h p q 0 = Some (rv, nxt, h2)" "cstr h2 nxt rest" "cstr h2 q pat"
    using 1(1) 2 by (simp_all add: e)
qed

section \<open>Correctness\<close>

lemma split_token:
  fixes s pat :: "u8 list"
  defines "ds \<equiv> takeWhile (\<lambda>c. c \<in> set pat) s" and "r1 \<equiv> dropWhile (\<lambda>c. c \<in> set pat) s"
  defines "t \<equiv> takeWhile (\<lambda>c. c \<notin> set pat) r1" and "r2 \<equiv> dropWhile (\<lambda>c. c \<notin> set pat) r1"
  defines "es \<equiv> takeWhile (\<lambda>c. c \<in> set pat) r2" and "rest \<equiv> dropWhile (\<lambda>c. c \<in> set pat) r2"
  assumes "r1 \<noteq> []"
  shows "s = ds @ t @ es @ rest" "set ds \<subseteq> set pat" "t \<noteq> []" "set t \<inter> set pat = {}" "set es \<subseteq> set pat"
    "rest = [] \<or> es \<noteq> [] \<and> hd rest \<notin> set pat"
proof -
  show "s = ds @ t @ es @ rest"
    by (simp add: ds_def t_def es_def rest_def r1_def r2_def)
  show "set ds \<subseteq> set pat" "set t \<inter> set pat = {}" "set es \<subseteq> set pat"
    by (auto simp: ds_def t_def es_def dest: set_takeWhileD)
  have "hd r1 \<notin> set pat"
    using assms(7) hd_dropWhile [of "\<lambda>c. c \<in> set pat" s] by (simp add: r1_def)
  then show "t \<noteq> []"
    using assms(7) by (cases r1) (simp_all add: t_def)
  show "rest = [] \<or> es \<noteq> [] \<and> hd rest \<notin> set pat"
  proof (cases "rest = []")
    case False
    then have "hd rest \<notin> set pat" "r2 \<noteq> []"
      using hd_dropWhile [of "\<lambda>c. c \<in> set pat" r2] by (auto simp: rest_def)
    moreover have "hd r2 \<in> set pat"
      using hd_dropWhile [of "\<lambda>c. c \<notin> set pat" r1] \<open>r2 \<noteq> []\<close> by (simp add: r2_def)
    ultimately show ?thesis by (cases r2) (simp_all add: es_def)
  qed simp
qed

text \<open>
  C36. \<open>strtok\<close>, called with a string or, with a null argument, where the previous call
  stopped: when the string holds a token, the call returns a pointer at which the first
  token now stands as a C string of its own, and leaves the saved position at the rest of
  the text after the delimiters that follow; the delimiter string is intact.
\<close>

theorem strtok_correct:
  assumes "cstr h p s" "cstr h q pat" "p = (if src = 0 then nxtTok else src)" "p \<noteq> 0"
    and "dropWhile (\<lambda>c. c \<in> set pat) s \<noteq> []"
    and "region p (Suc (length s)) \<inter> region q (Suc (length pat)) = {}" "unat p + length s < addr_max"
  shows "\<exists>rv nxtTok' h'. strtok h nxtTok src q = Some (rv, nxtTok', h') \<and>
    cstr h' rv (takeWhile (\<lambda>c. c \<notin> set pat) (dropWhile (\<lambda>c. c \<in> set pat) s)) \<and>
    cstr h' nxtTok' (dropWhile (\<lambda>c. c \<in> set pat)
      (dropWhile (\<lambda>c. c \<notin> set pat) (dropWhile (\<lambda>c. c \<in> set pat) s))) \<and>
    cstr h' q pat"
proof -
  note sp = split_token [OF assms(5)]
  let ?ds = "takeWhile (\<lambda>c. c \<in> set pat) s" and ?r1 = "dropWhile (\<lambda>c. c \<in> set pat) s"
  let ?t = "takeWhile (\<lambda>c. c \<notin> set pat) ?r1" and ?r2 = "dropWhile (\<lambda>c. c \<notin> set pat) ?r1"
  let ?es = "takeWhile (\<lambda>c. c \<in> set pat) ?r2" and ?rest = "dropWhile (\<lambda>c. c \<in> set pat) ?r2"
  have "length ?ds \<le> length s" by (rule length_takeWhile_le)
  then have "unat (p + of_nat (length ?ds)) = unat p + length ?ds"
    using assms(7) by (intro unat_add_of_nat) simp
  then have nz: "p + of_nat (length ?ds) \<noteq> 0"
    using assms(4) by (metis add_is_0 unat_eq_zero unsigned_0)
  have fit: "Suc (length s) \<le> addr_max" using assms(7) by simp
  have str: "cstr h p (?ds @ ?t @ ?es @ ?rest)"
    and apart: "region p (Suc (length (?ds @ ?t @ ?es @ ?rest))) \<inter> region q (Suc (length pat)) = {}"
    and fits: "Suc (length (?ds @ ?t @ ?es @ ?rest)) \<le> addr_max"
    using assms(1,6) fit by (simp_all only: sp(1) [symmetric])
  note found = strtok_found [OF str assms(2) sp(2-6) apart fits nz]
  have "strtok h nxtTok src q = strtok_loop h p q 0"
    using assms(3,4) by (auto simp: strtok_def)
  with found show ?thesis by auto
qed

theorem strtok_correct_witness:
  "\<exists>rv nxtTok' h'. strtok (blk [1, 44, 97, 98, 44, 44, 99, 0, 44, 0]) 0 1 8 = Some (rv, nxtTok', h') \<and>
     cstr h' rv [97, 98] \<and> cstr h' nxtTok' [99] \<and> cstr h' 8 [44]"
  using strtok_correct [of "blk [1, 44, 97, 98, 44, 44, 99, 0, 44, 0]" 1 "[44, 97, 98, 44, 44, 99]" 8 "[44]" 1 0]
  by (simp add: blk_def addr_max_def)

lemma strstr_empty: "cstr h p xs \<Longrightarrow> cstr h q [] \<Longrightarrow> p \<noteq> 0 \<Longrightarrow> q \<noteq> 0 \<Longrightarrow> strstr h p q = Some p"
  using strlen_eq [of h p xs] strlen_eq [of h q "[]"] by (simp add: strstr_def)

lemma find_str_None_sublist:
  assumes "find_str needle xs = None" "needle \<noteq> []"
  shows "\<not> sublist needle xs"
proof
  assume "sublist needle xs"
  then obtain ps ss where xs: "xs = ps @ needle @ ss" by (auto simp: sublist_def)
  with assms(2) have "length ps < length xs" "prefix needle (drop (length ps) xs)" by simp_all
  with find_str_None [OF assms(1)] show False by blast
qed

text \<open>
  C37. \<open>strstr\<close> returns null for a null argument. Otherwise it returns null exactly when the needle does not occur in the haystack, and
  else a pointer to its first occurrence, which for an empty needle is the haystack itself. (The haystack does not reach the last byte of the address
  space, where the limit of the loop would wrap around.)
\<close>

theorem strstr_correct:
  assumes "cstr h p xs" "cstr h q needle" "length needle < addr_max" "unat p + length xs < addr_max"
  shows "\<exists>r. strstr h p q = Some r \<and>
    (if p = 0 \<or> q = 0 then r = 0
     else if sublist needle xs
     then \<exists>i. r = p + of_nat i \<and> prefix needle (drop i xs) \<and> (\<forall>j<i. \<not> prefix needle (drop j xs))
     else r = 0)"
proof (cases "p = 0 \<or> q = 0 \<or> needle = []")
  case True
  then show ?thesis
    using strstr_empty [OF assms(1)] assms(2) by (auto simp: strstr_def intro!: exI [of _ "0 :: nat"])
next
  case False
  then have eq: "strstr h p q = Some (case find_str needle xs of None \<Rightarrow> 0 | Some i \<Rightarrow> p + of_nat i)"
    using assms by (intro strstr_eq) auto
  show ?thesis
  proof (cases "find_str needle xs")
    case None
    with find_str_None_sublist [OF None] show ?thesis using eq False by simp
  next
    case (Some i)
    from find_str_Some [OF this] have i: "prefix needle (drop i xs)" "\<forall>j<i. \<not> prefix needle (drop j xs)"
      by simp_all
    then have "sublist needle xs" by (metis append_take_drop_id prefix_def sublist_appendI)
    with Some i show ?thesis using eq False by auto
  qed
qed

theorem strstr_correct_witness:
  "\<exists>r i. strstr (blk [9, 97, 97, 98, 0, 97, 98, 0]) 1 5 = Some r \<and> r = 1 + of_nat i \<and>
     prefix [97, 98] (drop i [97, 97, 98 :: u8])"
  using strstr_correct [of "blk [9, 97, 97, 98, 0, 97, 98, 0]" 1 "[97, 97, 98]" 5 "[97, 98]"]
  by (auto simp: blk_def addr_max_def sublist_Cons_right)

text \<open>
  \<open>strcmp\<close> is zero exactly on equal strings and negative exactly when the first comes
  before the second in the lexicographic order of unsigned characters.
\<close>

theorem strcmp_correct:
  assumes "cstr h p xs" "cstr h q ys"
  shows "\<exists>r. strcmp h p q = Some r \<and> (r = 0 \<longleftrightarrow> xs = ys) \<and> (r < 0 \<longleftrightarrow> ord_class.lexordp xs ys)"
  using strcmp_eq [OF assms] assms by (simp add: str_diff_eq_0 str_diff_less_0 cstr_nonzero)

theorem strcmp_correct_witness:
  "\<exists>r. strcmp (blk [97, 0, 97, 98, 0]) 0 2 = Some r \<and> r < 0"
  using strcmp_correct [of "blk [97, 0, 97, 98, 0]" 0 "[97]" 2 "[97, 98]"]
  by (auto simp: blk_def)

text \<open>
  \<open>strncpy\<close> fills exactly the first \<open>n\<close> bytes of the destination: with the characters
  of the source that fit, then zeros.
\<close>

theorem strncpy_correct:
  assumes "cstr h src s" "mapped h dst n" "n < addr_max" "region dst n \<inter> region src (Suc (length s)) = {}"
  shows "\<exists>h'. strncpy h dst src (of_nat n) = Some (dst, h') \<and>
    arr h' dst (take n s @ replicate (n - length s) 0) \<and> (\<forall>a. a \<notin> region dst n \<longrightarrow> h' a = h a)"
proof -
  let ?bs = "take n s @ replicate (n - length s) 0"
  have "length ?bs = n" by simp
  with strncpy_loop_eq [OF assms] assms(3) arr_upd_bytes [of ?bs h dst] upd_bytes_outside [of ?bs _ dst h]
  show ?thesis by (auto simp: strncpy_def)
qed

theorem strncpy_correct_witness:
  "\<exists>h'. strncpy (blk [97, 98, 0, 7, 7, 7, 7, 7]) 3 0 4 = Some (3, h') \<and> arr h' 3 [97, 98, 0, 0] \<and> h' 7 = Some 7"
  using strncpy_correct [of "blk [97, 98, 0, 7, 7, 7, 7, 7]" 0 "[97, 98]" 3 "Suc (Suc (Suc (Suc 0)))"]
  by (force simp: blk_def addr_max_def)

end
