(* ===== verification/Libc_Strto.thy ===== *)
theory Libc_Strto
  imports Libc_Str
begin

text \<open>
  Number parsing in the boot firmware's C library: \<open>strtoul\<close> and \<open>strtol\<close>
  (\<^verbatim>\<open>litedram/gen-src/sdram_init/libc/src/strtoul.c\<close>, \<^verbatim>\<open>strtol.c\<close>). The source advances
  \<open>*PTR\<close> through the string and leaves it at the first character it did not consume; the
  model returns that pointer with the value. \<open>strtoul\<close> wraps modulo \<open>2^64\<close>; in \<open>strtol\<close> a
  signed overflow is undefined and faults. The reference is \<open>numval\<close>, the value of a
  digit string as a natural number.
\<close>

section \<open>Definitions\<close>

partial_function (option) strto_ws :: "heap \<Rightarrow> ptr \<Rightarrow> ptr option" where
  "strto_ws h p = do {
     c \<leftarrow> h p;
     if c = 32 \<or> c = 9 \<or> c = 10 \<or> c = 13 then strto_ws h (p + 1) else Some p
   }"

definition strto_0x :: "heap \<Rightarrow> ptr \<Rightarrow> bool option" where
  "strto_0x h p = do {
     c \<leftarrow> h p;
     if c = 48 then do { x \<leftarrow> h (p + 1); Some (x = 120) } else Some False
   }"

definition strto_base :: "heap \<Rightarrow> ptr \<Rightarrow> int \<Rightarrow> int option" where
  "strto_base h p BASE =
     (if BASE = 0 then do { x \<leftarrow> strto_0x h p; Some (if x then 16 else 10) } else Some BASE)"

definition strto_prefix :: "heap \<Rightarrow> ptr \<Rightarrow> int \<Rightarrow> ptr option" where
  "strto_prefix h p BASE =
     (if BASE = 16 then do { x \<leftarrow> strto_0x h p; Some (if x then p + 2 else p) } else Some p)"

definition strto_digit :: "u8 \<Rightarrow> int option" where
  "strto_digit c =
     (if 48 \<le> c \<and> c \<le> 57 then Some (uint c - 48)
      else if 97 \<le> c \<and> c \<le> 122 then Some (uint c - 97 + 10)
      else if 65 \<le> c \<and> c \<le> 90 then Some (uint c - 65 + 10)
      else None)"

partial_function (option) strtoul_loop :: "heap \<Rightarrow> ptr \<Rightarrow> int \<Rightarrow> u64 \<Rightarrow> (u64 \<times> ptr) option" where
  "strtoul_loop h p BASE rval = do {
     c \<leftarrow> h p;
     if c \<noteq> 0 then
       (case strto_digit c of
          None \<Rightarrow> Some (rval, p)
        | Some digit \<Rightarrow>
            if digit < BASE then strtoul_loop h (p + 1) BASE (rval * word_of_int BASE + word_of_int digit)
            else Some (rval, p))
     else Some (rval, p)
   }"

definition strtoul :: "heap \<Rightarrow> ptr \<Rightarrow> int \<Rightarrow> (u64 \<times> ptr) option" where
  "strtoul h S BASE =
     (if BASE < 0 \<or> 36 < BASE then Some (0, S)
      else do {
        p \<leftarrow> strto_ws h S;
        b \<leftarrow> strto_base h p BASE;
        p' \<leftarrow> strto_prefix h p b;
        strtoul_loop h p' b 0
      })"

definition in_long :: "int \<Rightarrow> bool" where
  "in_long x \<longleftrightarrow> - (2 ^ 63) \<le> x \<and> x < 2 ^ 63"

partial_function (option) strtol_loop :: "heap \<Rightarrow> ptr \<Rightarrow> int \<Rightarrow> int \<Rightarrow> (int \<times> ptr) option" where
  "strtol_loop h p BASE rval = do {
     c \<leftarrow> h p;
     if c \<noteq> 0 then
       (case strto_digit c of
          None \<Rightarrow> Some (rval, p)
        | Some digit \<Rightarrow>
            if digit < BASE then
              (if in_long (rval * BASE) \<and> in_long (rval * BASE + digit)
               then strtol_loop h (p + 1) BASE (rval * BASE + digit) else None)
            else Some (rval, p))
     else Some (rval, p)
   }"

definition strtol :: "heap \<Rightarrow> ptr \<Rightarrow> int \<Rightarrow> (int \<times> ptr) option" where
  "strtol h S BASE =
     (if BASE < 0 \<or> 36 < BASE then Some (0, S)
      else do {
        p \<leftarrow> strto_ws h S;
        c \<leftarrow> h p;
        let negative = (c = 45);
        let p1 = (if negative then p + 1 else p);
        b \<leftarrow> strto_base h p1 BASE;
        p2 \<leftarrow> strto_prefix h p1 b;
        (rval, e) \<leftarrow> strtol_loop h p2 b 0;
        if negative then (if in_long (rval * -1) then Some (rval * -1, e) else None) else Some (rval, e)
      })"

section \<open>Digit strings\<close>

definition digit_in :: "int \<Rightarrow> u8 \<Rightarrow> bool" where
  "digit_in b c \<longleftrightarrow> (\<exists>d. strto_digit c = Some d \<and> d < b)"

definition digit_of :: "u8 \<Rightarrow> nat" where
  "digit_of c = nat (the (strto_digit c))"

definition numval :: "nat \<Rightarrow> u8 list \<Rightarrow> nat" where
  "numval b ds = foldl (\<lambda>a c. a * b + digit_of c) 0 ds"

lemma strto_digit_nonneg: "strto_digit c = Some d \<Longrightarrow> 0 \<le> d \<and> d < 36"
  by (auto simp: strto_digit_def word_le_def split: if_splits)

lemma strto_digit_of: "strto_digit c = Some d \<Longrightarrow> d = int (digit_of c)"
  using strto_digit_nonneg [of c d] by (simp add: digit_of_def)

lemma strto_digit_0: "strto_digit 0 = None"
  by (simp add: strto_digit_def)

lemma digit_in_less: "digit_in b c \<Longrightarrow> int (digit_of c) < b"
  by (auto simp: digit_in_def dest: strto_digit_of)

lemma digit_inE:
  assumes "digit_in b c"
  obtains d where "strto_digit c = Some d" "d < b" "d = int (digit_of c)"
proof -
  from assms obtain d where "strto_digit c = Some d" "d < b" by (auto simp: digit_in_def)
  then show ?thesis using that strto_digit_of [of c d] by blast
qed

lemma numval_Nil [simp]: "numval b [] = 0"
  by (simp add: numval_def)

lemma foldl_numval: "foldl (\<lambda>a c. a * b + digit_of c) a ds = a * b ^ length ds + numval b ds"
proof (induction ds arbitrary: a)
  case Nil
  then show ?case by (simp add: numval_def)
next
  case (Cons c ds)
  show ?case
    using Cons [of "a * b + digit_of c"] Cons [of "digit_of c"]
    by (simp add: numval_def algebra_simps)
qed

lemma numval_Cons: "numval b (c # ds) = digit_of c * b ^ length ds + numval b ds"
  using foldl_numval [of b "digit_of c" ds] by (simp add: numval_def)

lemma numval_snoc: "numval b (ds @ [c]) = numval b ds * b + digit_of c"
  by (simp add: numval_def)

section \<open>Meaning\<close>

lemma strto_ws_eq:
  "cstr h p (ws @ s) \<Longrightarrow> set ws \<subseteq> {32, 9, 10, 13} \<Longrightarrow> s = [] \<or> hd s \<notin> {32, 9, 10, 13} \<Longrightarrow>
   strto_ws h p = Some (p + of_nat (length ws))"
proof (induction ws arbitrary: p)
  case Nil
  then show ?case by (cases s) (simp_all add: strto_ws.simps)
next
  case (Cons w ws)
  then show ?case by (subst strto_ws.simps) (auto simp: algebra_simps)
qed

lemma strtoul_loop_eq:
  "cstr h p (ds @ r) \<Longrightarrow> \<forall>c\<in>set ds. digit_in (int b) c \<Longrightarrow> r = [] \<or> \<not> digit_in (int b) (hd r) \<Longrightarrow>
   strtoul_loop h p (int b) rv =
     Some (rv * of_nat (b ^ length ds) + of_nat (numval b ds), p + of_nat (length ds))"
proof (induction ds arbitrary: p rv)
  case Nil
  then show ?case
    by (cases r; subst strtoul_loop.simps) (auto simp: digit_in_def split: option.split)
next
  case (Cons c ds)
  then have "digit_in (int b) c" by simp
  then obtain d where d: "strto_digit c = Some d" "d < int b" "d = int (digit_of c)"
    by (rule digit_inE)
  have "strtoul_loop h p (int b) rv =
      strtoul_loop h (p + 1) (int b) (rv * of_nat b + of_nat (digit_of c))"
    using Cons.prems d by (subst strtoul_loop.simps) simp
  also have "\<dots> = Some ((rv * of_nat b + of_nat (digit_of c)) * of_nat (b ^ length ds) +
      of_nat (numval b ds), p + 1 + of_nat (length ds))"
    using Cons.prems by (intro Cons.IH) simp_all
  finally show ?case by (simp add: numval_Cons distrib_right mult.assoc add.assoc)
qed

lemma strtoul_loop_numval:
  "cstr h p (ds @ r) \<Longrightarrow> \<forall>c\<in>set ds. digit_in (int b) c \<Longrightarrow> r = [] \<or> \<not> digit_in (int b) (hd r) \<Longrightarrow>
   strtoul_loop h p (int b) 0 = Some (of_nat (numval b ds), p + of_nat (length ds))"
  by (simp add: strtoul_loop_eq)

text \<open>A number in a base other than 0 and 16, for which no prefix is looked for.\<close>

lemma strtoul_eq:
  assumes "cstr h p (ws @ ds @ r)" "set ws \<subseteq> {32, 9, 10, 13}"
    and "ds @ r = [] \<or> hd (ds @ r) \<notin> {32, 9, 10, 13}"
    and "\<forall>c\<in>set ds. digit_in (int b) c" "r = [] \<or> \<not> digit_in (int b) (hd r)"
    and b: "b \<le> 36" "b \<noteq> 0" "b \<noteq> 16"
  shows "strtoul h p (int b) = Some (of_nat (numval b ds), p + of_nat (length ws + length ds))"
proof -
  have "strto_ws h p = Some (p + of_nat (length ws))"
    using assms(1-3) by (rule strto_ws_eq)
  moreover have "cstr h (p + of_nat (length ws)) (ds @ r)"
    using assms(1) by (simp add: cstr_append)
  ultimately show ?thesis
    using assms(4,5) b
    by (simp add: strtoul_def strto_base_def strto_prefix_def strtoul_loop_numval add.assoc)
qed

lemma strtol_loop_eq:
  "cstr h p (ds @ r) \<Longrightarrow> \<forall>c\<in>set ds. digit_in (int b) c \<Longrightarrow> r = [] \<or> \<not> digit_in (int b) (hd r) \<Longrightarrow>
   rv * b ^ length ds + numval b ds < 2 ^ 63 \<Longrightarrow> 0 < b \<Longrightarrow>
   strtol_loop h p (int b) (int rv) =
     Some (int (rv * b ^ length ds + numval b ds), p + of_nat (length ds))"
proof (induction ds arbitrary: p rv)
  case Nil
  then show ?case
    by (cases r; subst strtol_loop.simps) (auto simp: digit_in_def split: option.split)
next
  case (Cons c ds)
  let ?rv = "rv * b + digit_of c"
  from Cons.prems(2) have "digit_in (int b) c" by simp
  then obtain d where d: "strto_digit c = Some d" "d < int b" "d = int (digit_of c)"
    by (rule digit_inE)
  have total: "rv * b ^ length (c # ds) + numval b (c # ds) = ?rv * b ^ length ds + numval b ds"
    by (simp add: numval_Cons algebra_simps)
  have "?rv * 1 \<le> ?rv * b ^ length ds" using Cons.prems(5) by (intro mult_le_mono2) simp
  then have "?rv \<le> ?rv * b ^ length ds + numval b ds" by (simp only: mult_1_right trans_le_add1)
  then have "?rv < 2 ^ 63" using Cons.prems(4) unfolding total by (rule le_less_trans)
  then have "int ?rv < 2 ^ 63" using of_nat_less_iff [of ?rv "2 ^ 63", where ?'a = int] by simp
  then have rng: "in_long (int rv * int b) \<and> in_long (int rv * int b + int (digit_of c))"
  proof -
    have "0 \<le> int rv * int b" by simp
    with \<open>int ?rv < 2 ^ 63\<close> show ?thesis unfolding in_long_def of_nat_add of_nat_mult by linarith
  qed
  then have "strtol_loop h p (int b) (int rv) = strtol_loop h (p + 1) (int b) (int ?rv)"
    using Cons.prems d by (subst strtol_loop.simps) simp
  also have "\<dots> = Some (int (?rv * b ^ length ds + numval b ds), p + 1 + of_nat (length ds))"
    using Cons.prems(1-3,5) Cons.prems(4) [unfolded total] by (intro Cons.IH) simp_all
  finally show ?case unfolding total by (simp add: add.assoc)
qed

text \<open>Digits that do not fit: the value grows with every digit, so some step overflows.\<close>

lemma strtol_loop_overflow:
  "cstr h p (ds @ r) \<Longrightarrow> \<forall>c\<in>set ds. digit_in (int b) c \<Longrightarrow> rv < 2 ^ 63 \<Longrightarrow>
   2 ^ 63 \<le> rv * b ^ length ds + numval b ds \<Longrightarrow> strtol_loop h p (int b) (int rv) = None"
proof (induction ds arbitrary: p rv)
  case (Cons c ds)
  let ?rv = "rv * b + digit_of c"
  from Cons.prems(2) have "digit_in (int b) c" by simp
  then obtain d where d: "strto_digit c = Some d" "d < int b" "d = int (digit_of c)"
    by (rule digit_inE)
  have total: "rv * b ^ length (c # ds) + numval b (c # ds) = ?rv * b ^ length ds + numval b ds"
    by (simp add: numval_Cons algebra_simps)
  show ?case
  proof (cases "?rv < 2 ^ 63")
    case True
    then have "strtol_loop h (p + 1) (int b) (int ?rv) = None"
      using Cons.prems(1,2) Cons.prems(4) [unfolded total] by (intro Cons.IH) simp_all
    then show ?thesis using Cons.prems(1) d by (subst strtol_loop.simps) simp
  next
    case False
    then have "(2 :: int) ^ 63 \<le> int ?rv" by (simp flip: of_nat_add of_nat_mult)
    then have "\<not> in_long (int rv * int b + int (digit_of c))" by (simp add: in_long_def)
    then show ?thesis using Cons.prems(1) d by (subst strtol_loop.simps) simp
  qed
qed simp

section \<open>Correctness\<close>

text \<open>
  What the functions read of a string: the white space before the number, the base, the prefix \<open>0x\<close>
  where the base is 16, and the digits.
\<close>

definition is_ws :: "u8 \<Rightarrow> bool" where
  "is_ws c \<longleftrightarrow> c \<in> {32, 9, 10, 13}"

definition has_0x :: "u8 list \<Rightarrow> bool" where
  "has_0x s \<longleftrightarrow> take 2 s = [48, 120]"

definition num_base :: "nat \<Rightarrow> u8 list \<Rightarrow> nat" where
  "num_base B s = (if B = 0 then (if has_0x s then 16 else 10) else B)"

definition num_prefix :: "nat \<Rightarrow> u8 list \<Rightarrow> nat" where
  "num_prefix B s = (if num_base B s = 16 \<and> has_0x s then 2 else 0)"

definition num_digits :: "nat \<Rightarrow> u8 list \<Rightarrow> u8 list" where
  "num_digits B s = takeWhile (digit_in (int (num_base B s))) (drop (num_prefix B s) s)"

definition num_value :: "nat \<Rightarrow> u8 list \<Rightarrow> nat" where
  "num_value B s = numval (num_base B s) (num_digits B s)"

definition num_length :: "nat \<Rightarrow> u8 list \<Rightarrow> nat" where
  "num_length B s = num_prefix B s + length (num_digits B s)"

lemma strto_ws_string:
  assumes "cstr h p s"
  shows "strto_ws h p = Some (p + of_nat (length (takeWhile is_ws s)))"
    "cstr h (p + of_nat (length (takeWhile is_ws s))) (dropWhile is_ws s)"
proof -
  have "dropWhile is_ws s = [] \<or> hd (dropWhile is_ws s) \<notin> {32, 9, 10, 13}"
    using hd_dropWhile [of is_ws s] by (auto simp: is_ws_def)
  moreover have "set (takeWhile is_ws s) \<subseteq> {32, 9, 10, 13}" by (auto dest: set_takeWhileD simp: is_ws_def)
  moreover have "cstr h p (takeWhile is_ws s @ dropWhile is_ws s)" using assms by simp
  ultimately show "strto_ws h p = Some (p + of_nat (length (takeWhile is_ws s)))"
    "cstr h (p + of_nat (length (takeWhile is_ws s))) (dropWhile is_ws s)"
    by (auto intro: strto_ws_eq simp only: cstr_append)
qed

lemma strto_0x_string: "cstr h p s \<Longrightarrow> strto_0x h p = Some (has_0x s)"
proof -
  assume s: "cstr h p s"
  consider "s = []" | c where "s = [c]" | c d t where "s = c # d # t" by (metis list.exhaust)
  then show ?thesis using s by cases (auto simp: strto_0x_def has_0x_def)
qed

lemma strto_base_string: "cstr h p s \<Longrightarrow> strto_base h p (int B) = Some (int (num_base B s))"
  by (simp add: strto_base_def num_base_def strto_0x_string)

lemma strto_prefix_string:
  assumes "cstr h p s"
  shows "strto_prefix h p (int (num_base B s)) = Some (p + of_nat (num_prefix B s))"
    "cstr h (p + of_nat (num_prefix B s)) (num_digits B s @ dropWhile (digit_in (int (num_base B s))) (drop (num_prefix B s) s))"
proof -
  have "int (num_base B s) = 16 \<longleftrightarrow> num_base B s = 16" by linarith
  then show "strto_prefix h p (int (num_base B s)) = Some (p + of_nat (num_prefix B s))"
    using strto_0x_string [OF assms] by (auto simp: strto_prefix_def num_prefix_def)
  have "num_prefix B s \<le> length s"
  proof (cases "has_0x s")
    case True
    then have "length (take 2 s) = 2" by (simp add: has_0x_def)
    then show ?thesis by (auto simp: num_prefix_def)
  qed (simp add: num_prefix_def)
  then show "cstr h (p + of_nat (num_prefix B s)) (num_digits B s @ dropWhile (digit_in (int (num_base B s))) (drop (num_prefix B s) s))"
    using cstr_drop [OF assms] by (simp add: num_digits_def)
qed

lemma num_digits_ok:
  "\<forall>c\<in>set (num_digits B s). digit_in (int (num_base B s)) c"
  "dropWhile (digit_in (int (num_base B s))) t = [] \<or> \<not> digit_in (int (num_base B s)) (hd (dropWhile (digit_in (int (num_base B s))) t))"
  using hd_dropWhile [of "digit_in (int (num_base B s))" t] by (auto simp only: num_digits_def dest: set_takeWhileD)

lemma strtoul_string:
  assumes "cstr h p s"
  shows "strtoul h p B =
    (if B < 0 \<or> 36 < B then Some (0, p)
     else let n = dropWhile is_ws s
          in Some (of_nat (num_value (nat B) n), p + of_nat (length (takeWhile is_ws s) + num_length (nat B) n)))"
proof -
  let ?n = "dropWhile is_ws s" and ?q = "p + of_nat (length (takeWhile is_ws s))"
  note ws = strto_ws_string [OF assms]
  have "strtoul_loop h (?q + of_nat (num_prefix (nat B) ?n)) (int (num_base (nat B) ?n)) 0 =
      Some (of_nat (num_value (nat B) ?n), ?q + of_nat (num_prefix (nat B) ?n) + of_nat (length (num_digits (nat B) ?n)))"
    unfolding num_value_def by (rule strtoul_loop_numval [OF strto_prefix_string(2) [OF ws(2)] num_digits_ok])
  then show ?thesis
    using strto_base_string [OF ws(2), of "nat B"]
    by (auto simp: strtoul_def ws strto_prefix_string(1) [OF ws(2)] Let_def num_length_def add.assoc)
qed





end
