(* ===== verification/Libc_Printf.thy ===== *)
theory Libc_Printf
  imports Libc_Strto
begin

text \<open>
  Formatted output of the boot firmware, \<^verbatim>\<open>litedram/gen-src/sdram_init/libc/src/vsnprintf.c\<close>.
  The writing functions take \<open>h\<close>, the memory that holds the output buffer, and \<open>ro\<close>, the
  memory that holds the format and the strings a \<open>%s\<close> prints; the two do not overlap, as
  the \<open>restrict\<close> of the standard prototype demands. The \<open>char **buffer\<close> of the source is a
  pointer passed and returned. The local arrays \<open>formstr[20]\<close> and \<open>sizec[32]\<close> are lists of
  the bytes written so far; a write past their declared size faults. Variable arguments
  are a list of 64-bit words, from which \<open>va_arg\<close> takes the first.
\<close>

section \<open>Definitions\<close>

definition convert :: "u64 list" where
  "convert = [0x0, 0xFF, 0xFFFF, 0xFFFFFF, 0xFFFFFFFF,
     0xFFFFFFFFFF, 0xFFFFFFFFFFFF, 0xFFFFFFFFFFFFFF, 0xFFFFFFFFFFFFFFFF]"

text \<open>The loop that writes \<open>lim - i\<close> fill characters while there is room.\<close>

function fill_loop :: "heap \<Rightarrow> ptr \<Rightarrow> ptr \<Rightarrow> u64 \<Rightarrow> u8 \<Rightarrow> int \<Rightarrow> int \<Rightarrow> (heap \<times> ptr) option" where
  "fill_loop h b bstart bufsize c i lim =
     (if i < lim \<and> b - bstart < bufsize then do {
        h' \<leftarrow> store8 h b c;
        fill_loop h' (b + 1) bstart bufsize c (i + 1) lim
      } else Some (h, b))"
  by pat_completeness auto
termination
  by (relation "measure (\<lambda>(h, b, bstart, bufsize, c, i, lim). nat (lim - i))") auto

definition print_str_fill ::
  "heap \<Rightarrow> heap \<Rightarrow> ptr \<Rightarrow> u64 \<Rightarrow> u8 list \<Rightarrow> ptr \<Rightarrow> u8 \<Rightarrow> (heap \<times> ptr) option" where
  "print_str_fill ro h b bufsize sizec str c = do {
     (sizei, _) \<leftarrow> strtoul (blk sizec) 0 10;
     len \<leftarrow> strlen ro str;
     if len < sizei then fill_loop h b b bufsize c 0 (uint (sizei - len)) else Some (h, b)
   }"

partial_function (option) print_str_loop ::
  "heap \<Rightarrow> heap \<Rightarrow> ptr \<Rightarrow> ptr \<Rightarrow> u64 \<Rightarrow> ptr \<Rightarrow> u64 \<Rightarrow> (heap \<times> ptr) option" where
  "print_str_loop ro h b bstart bufsize str i = do {
     len \<leftarrow> strlen ro str;
     if i < len \<and> b - bstart < bufsize then do {
       c \<leftarrow> ro (str + i);
       h' \<leftarrow> store8 h b c;
       print_str_loop ro h' (b + 1) bstart bufsize str (i + 1)
     } else Some (h, b)
   }"

definition print_str :: "heap \<Rightarrow> heap \<Rightarrow> ptr \<Rightarrow> u64 \<Rightarrow> ptr \<Rightarrow> (heap \<times> ptr) option" where
  "print_str ro h b bufsize str = print_str_loop ro h b b bufsize str 0"

text \<open>Dividing by a zero base faults.\<close>

partial_function (option) print_intlen_loop :: "u64 \<Rightarrow> u16 \<Rightarrow> int \<Rightarrow> int option" where
  "print_intlen_loop value base i =
     (if 0 < value then
        (if base = 16 then print_intlen_loop (drop_bit 4 value) base (i + 1)
         else if base = 0 then None
         else print_intlen_loop (value div ucast base) base (i + 1))
      else Some i)"

definition print_intlen :: "u64 \<Rightarrow> u16 \<Rightarrow> int option" where
  "print_intlen value base = do {
     i \<leftarrow> print_intlen_loop value base 0;
     Some (if i = 0 then 1 else i)
   }"

definition zeichen :: "u8 list" where
  "zeichen = [48, 49, 50, 51, 52, 53, 54, 55, 56, 57, 97, 98, 99, 100, 101, 102]"

partial_function (option) print_itoa_loop :: "heap \<Rightarrow> ptr \<Rightarrow> u64 \<Rightarrow> bool \<Rightarrow> int \<Rightarrow> u64 \<Rightarrow> heap option" where
  "print_itoa_loop h b base upper i value =
     (let c = zeichen ! unat (value mod base);
          c' = (if upper then word_of_int (toupper (uint c)) else c)
      in do {
        h' \<leftarrow> store8 h (b + word_of_int (i - 1)) c';
        if value div base \<noteq> 0 then print_itoa_loop h' b base upper (i - 1) (value div base)
        else Some h'
      })"

definition print_itoa :: "heap \<Rightarrow> ptr \<Rightarrow> u64 \<Rightarrow> u64 \<Rightarrow> u16 \<Rightarrow> bool \<Rightarrow> (heap \<times> ptr) option" where
  "print_itoa h b bufsize value base upper =
     (if base \<le> 2 \<or> 16 < base then Some (h, b)
      else do {
        len \<leftarrow> print_intlen value base;
        if bufsize < word_of_int len then Some (h, b)
        else do {
          h' \<leftarrow> print_itoa_loop h b (ucast base) upper len value;
          Some (h', b + word_of_int len)
        }
      })"

text \<open>In \<open>print_fill\<close> the width is an \<open>int\<close>: the low 32 bits of what \<open>strtoul\<close> returns.\<close>

definition print_fill ::
  "heap \<Rightarrow> ptr \<Rightarrow> u64 \<Rightarrow> u8 list \<Rightarrow> u64 \<Rightarrow> u16 \<Rightarrow> u8 \<Rightarrow> int \<Rightarrow> (heap \<times> ptr) option" where
  "print_fill h b bufsize sizec sz base c optlen = do {
     (w, _) \<leftarrow> strtoul (blk sizec) 0 10;
     let sizei = sint (ucast w :: u32);
     il \<leftarrow> print_intlen sz base;
     let len = il + optlen;
     if len < sizei then fill_loop h b b bufsize c 0 (sizei - len) else Some (h, b)
   }"

definition sizec_push :: "u8 list \<Rightarrow> u8 \<Rightarrow> u8 list option" where
  "sizec_push sizec c = (if length sizec < 32 then Some (sizec @ [c]) else None)"

definition print_signed ::
  "heap \<Rightarrow> ptr \<Rightarrow> ptr \<Rightarrow> u64 \<Rightarrow> u8 list \<Rightarrow> nat \<Rightarrow> u8 \<Rightarrow> u8 \<Rightarrow> bool \<Rightarrow> u64 \<Rightarrow> (heap \<times> ptr) option" where
  "print_signed h b start bufsize sizec length_mod sign conv upper var = do {
     sizec' \<leftarrow> sizec_push sizec 0;
     let signBit = push_bit (length_mod * 8 - 1) (1 :: u64);
     (h1, b1, value) \<leftarrow>
       (if conv \<noteq> 117 \<and> signBit AND var \<noteq> 0 then do {
          h' \<leftarrow> store8 h b 45;
          Some (h', b + 1, (- var) AND convert ! length_mod)
        } else Some (h, b, var));
     (h2, b2) \<leftarrow> print_fill h1 b1 (bufsize - (b1 - start)) sizec' value 10 sign 0;
     print_itoa h2 b2 (bufsize - (b2 - start)) value 10 upper
   }"

definition print_unsigned ::
  "heap \<Rightarrow> ptr \<Rightarrow> ptr \<Rightarrow> u64 \<Rightarrow> u8 list \<Rightarrow> nat \<Rightarrow> u8 \<Rightarrow> u16 \<Rightarrow> bool \<Rightarrow> u64 \<Rightarrow> (heap \<times> ptr) option" where
  "print_unsigned h b start bufsize sizec length_mod sign base upper var = do {
     sizec' \<leftarrow> sizec_push sizec 0;
     let value = var AND convert ! length_mod;
     (h2, b2) \<leftarrow> print_fill h b (bufsize - (b - start)) sizec' value base sign 0;
     print_itoa h2 b2 (bufsize - (b2 - start)) value base upper
   }"

definition print_pointer ::
  "heap \<Rightarrow> ptr \<Rightarrow> ptr \<Rightarrow> u64 \<Rightarrow> u8 list \<Rightarrow> bool \<Rightarrow> u64 \<Rightarrow> (heap \<times> ptr) option" where
  "print_pointer h b start bufsize sizec upper var = do {
     sizec' \<leftarrow> sizec_push sizec 0;
     (h1, b1) \<leftarrow> print_fill h b (bufsize - (b - start)) sizec' var 16 32 2;
     (h2, b2) \<leftarrow> print_str (blk [48, 120, 0]) h1 b1 (bufsize - (b1 - start)) 0;
     print_itoa h2 b2 (bufsize - (b2 - start)) var 16 upper
   }"

definition print_char ::
  "heap \<Rightarrow> ptr \<Rightarrow> ptr \<Rightarrow> u64 \<Rightarrow> u8 list \<Rightarrow> u64 \<Rightarrow> (heap \<times> ptr) option" where
  "print_char h b start bufsize sizec var = do {
     sizec' \<leftarrow> sizec_push sizec 0;
     (h1, b1) \<leftarrow> print_fill h b (bufsize - (b - start)) sizec' 1 10 32 0;
     h2 \<leftarrow> store8 h1 b1 (ucast var);
     Some (h2, b1 + 1)
   }"

definition print_string ::
  "heap \<Rightarrow> heap \<Rightarrow> ptr \<Rightarrow> ptr \<Rightarrow> u64 \<Rightarrow> u8 list \<Rightarrow> u64 \<Rightarrow> (heap \<times> ptr) option" where
  "print_string ro h b start bufsize sizec var = do {
     sizec' \<leftarrow> sizec_push sizec 0;
     (h1, b1) \<leftarrow> print_str_fill ro h b (bufsize - (b - start)) sizec' var 32;
     print_str ro h1 b1 (bufsize - (b1 - start)) var
   }"

text \<open>
  The local variables of \<open>print_format\<close> that its loop changes. \<open>pf_form\<close> points into
  \<open>formstr\<close>, \<open>pf_sizec\<close> holds the \<open>i\<close> digits stored in \<open>sizec\<close> so far.
\<close>

record pf =
  pf_h :: heap
  pf_b :: ptr
  pf_form :: ptr
  pf_sizec :: "u8 list"
  pf_mod :: nat
  pf_upper :: bool

text \<open>The \<open>switch\<close>, in the order of its cases; \<open>fs\<close> is the memory of \<open>formstr\<close>.\<close>

definition print_format_switch :: "heap \<Rightarrow> heap \<Rightarrow> ptr \<Rightarrow> u64 \<Rightarrow> u8 \<Rightarrow> u64 \<Rightarrow> u8 \<Rightarrow> pf \<Rightarrow> pf option" where
  "print_format_switch ro fs start bufsize sign var c s =
     (if c = 117 \<or> c = 100 \<or> c = 105 then do {
        (h, b) \<leftarrow> print_signed (pf_h s) (pf_b s) start bufsize (pf_sizec s) (pf_mod s) sign c (pf_upper s) var;
        Some (s\<lparr>pf_h := h, pf_b := b\<rparr>) }
      else if c = 88 \<or> c = 120 then do {
        let upper = (pf_upper s \<or> c = 88);
        (h, b) \<leftarrow> print_unsigned (pf_h s) (pf_b s) start bufsize (pf_sizec s) (pf_mod s) sign 16 upper var;
        Some (s\<lparr>pf_h := h, pf_b := b, pf_upper := upper\<rparr>) }
      else if c = 79 \<or> c = 111 then do {
        (h, b) \<leftarrow> print_unsigned (pf_h s) (pf_b s) start bufsize (pf_sizec s) (pf_mod s) sign 8 (pf_upper s) var;
        Some (s\<lparr>pf_h := h, pf_b := b\<rparr>) }
      else if c = 112 then do {
        (h, b) \<leftarrow> print_pointer (pf_h s) (pf_b s) start bufsize (pf_sizec s) (pf_upper s) var;
        Some (s\<lparr>pf_h := h, pf_b := b\<rparr>) }
      else if c = 99 then do {
        (h, b) \<leftarrow> print_char (pf_h s) (pf_b s) start bufsize (pf_sizec s) var;
        Some (s\<lparr>pf_h := h, pf_b := b\<rparr>) }
      else if c = 115 then do {
        (h, b) \<leftarrow> print_string ro (pf_h s) (pf_b s) start bufsize (pf_sizec s) var;
        Some (s\<lparr>pf_h := h, pf_b := b\<rparr>) }
      else if c = 108 then do {
        c' \<leftarrow> fs (pf_form s + 1);
        Some (if c' = 108 then s\<lparr>pf_form := pf_form s + 1, pf_mod := 8\<rparr> else s\<lparr>pf_mod := 8\<rparr>) }
      else if c = 104 then do {
        c' \<leftarrow> fs (pf_form s + 1);
        Some (if c' = 104 then s\<lparr>pf_form := pf_form s + 1, pf_mod := 1\<rparr> else s\<lparr>pf_mod := 2\<rparr>) }
      else if c = 122 then Some (s\<lparr>pf_mod := 8\<rparr>)
      else if 48 \<le> c \<and> c \<le> 57 then do {
        sizec' \<leftarrow> sizec_push (pf_sizec s) c;
        Some (s\<lparr>pf_sizec := sizec'\<rparr>) }
      else Some s)"

partial_function (option) print_format_loop ::
  "heap \<Rightarrow> heap \<Rightarrow> ptr \<Rightarrow> u64 \<Rightarrow> u8 \<Rightarrow> u64 \<Rightarrow> pf \<Rightarrow> (heap \<times> ptr) option" where
  "print_format_loop ro fs start bufsize sign var s = do {
     c \<leftarrow> fs (pf_form s);
     if c \<noteq> 0 \<and> pf_b s - start < bufsize then do {
       s' \<leftarrow> print_format_switch ro fs start bufsize sign var c s;
       print_format_loop ro fs start bufsize sign var (s'\<lparr>pf_form := pf_form s' + 1\<rparr>)
     } else Some (pf_h s, pf_b s)
   }"

definition print_format :: "heap \<Rightarrow> heap \<Rightarrow> ptr \<Rightarrow> u64 \<Rightarrow> u8 list \<Rightarrow> u64 \<Rightarrow> (heap \<times> ptr) option" where
  "print_format ro h b bufsize formstr var = do {
     c \<leftarrow> blk formstr 1;
     let zero = (c = 48 \<or> c = 46);
     print_format_loop ro (blk formstr) b bufsize (if zero then 48 else 32) var
       \<lparr>pf_h = h, pf_b = b, pf_form = (if zero then 2 else 1), pf_sizec = [], pf_mod = 4, pf_upper = False\<rparr>
   }"

definition is_conv :: "u8 \<Rightarrow> bool" where
  "is_conv c \<longleftrightarrow> c = 100 \<or> c = 105 \<or> c = 117 \<or> c = 120 \<or> c = 88 \<or> c = 112 \<or> c = 99 \<or> c = 115
     \<or> c = 37 \<or> c = 79 \<or> c = 111"

definition formstr_push :: "u8 list \<Rightarrow> u8 \<Rightarrow> u8 list option" where
  "formstr_push formstr c = (if length formstr < 20 then Some (formstr @ [c]) else None)"

partial_function (option) collect_spec :: "heap \<Rightarrow> ptr \<Rightarrow> u8 list \<Rightarrow> (u8 list \<times> ptr) option" where
  "collect_spec ro p formstr = do {
     c \<leftarrow> ro p;
     f \<leftarrow> formstr_push formstr c;
     c' \<leftarrow> ro (p + 1);
     if is_conv c' then Some (f, p + 1) else collect_spec ro (p + 1) f
   }"

definition vsnprintf_spec ::
  "heap \<Rightarrow> heap \<Rightarrow> ptr \<Rightarrow> ptr \<Rightarrow> u64 \<Rightarrow> ptr \<Rightarrow> u64 list \<Rightarrow> (heap \<times> ptr \<times> ptr \<times> u64 list) option" where
  "vsnprintf_spec ro h b bstart bufsize p arg = do {
     (f, p') \<leftarrow> collect_spec ro p [];
     c \<leftarrow> ro p';
     f1 \<leftarrow> formstr_push f c;
     f2 \<leftarrow> formstr_push f1 0;
     if c = 37 then do { h' \<leftarrow> store8 h b 37; Some (h', b + 1, p' + 1, arg) }
     else (case arg of
         [] \<Rightarrow> None
       | v # arg' \<Rightarrow> do {
           (h', b') \<leftarrow> print_format ro h b (bufsize - (b - bstart)) f2 v;
           Some (h', b', p' + 1, arg') })
   }"

partial_function (option) vsnprintf_loop ::
  "heap \<Rightarrow> heap \<Rightarrow> ptr \<Rightarrow> ptr \<Rightarrow> u64 \<Rightarrow> ptr \<Rightarrow> u64 list \<Rightarrow> (heap \<times> ptr) option" where
  "vsnprintf_loop ro h b bstart bufsize p arg = do {
     c \<leftarrow> ro p;
     if c \<noteq> 0 \<and> b - bstart < bufsize then
       (if c = 37 then do {
          s \<leftarrow> vsnprintf_spec ro h b bstart bufsize p arg;
          vsnprintf_loop ro (fst s) (fst (snd s)) bstart bufsize (fst (snd (snd s))) (snd (snd (snd s)))
        } else do {
          h' \<leftarrow> store8 h b c;
          vsnprintf_loop ro h' (b + 1) bstart bufsize (p + 1) arg
        })
     else Some (h, b)
   }"

text \<open>The result is \<open>buffer - bstart\<close>, converted to \<open>int\<close>.\<close>

definition vsnprintf :: "heap \<Rightarrow> heap \<Rightarrow> ptr \<Rightarrow> u64 \<Rightarrow> ptr \<Rightarrow> u64 list \<Rightarrow> (int \<times> heap) option" where
  "vsnprintf ro h buffer bufsize format arg =
     (if buffer = 0 \<or> bufsize = 0 then Some (0, h)
      else do {
        (h1, b) \<leftarrow> vsnprintf_loop ro h buffer buffer (bufsize - 1) format arg;
        h2 \<leftarrow> store8 h1 b 0;
        Some (sint (ucast (b - buffer) :: u32), h2)
      })"

declare fill_loop.simps [simp del]

section \<open>Appending to the buffer\<close>

text \<open>
  Every writer appends a list of bytes at the buffer pointer and advances it. \<open>emit\<close> names
  that result; writers compose by appending their outputs.
\<close>

definition emit :: "heap \<Rightarrow> ptr \<Rightarrow> u8 list \<Rightarrow> (heap \<times> ptr) option" where
  "emit h b out = Some (upd_bytes h b out, b + of_nat (length out))"

lemma emit_Nil [simp]: "emit h b [] = Some (h, b)"
  by (simp add: emit_def)

lemma emit_bind [simp]: "Option.bind (emit h b out) f = f (upd_bytes h b out, b + of_nat (length out))"
  by (simp add: emit_def)

lemma emit_append:
  "length xs + length ys \<le> addr_max \<Longrightarrow>
   emit (upd_bytes h b xs) (b + of_nat (length xs)) ys = emit h b (xs @ ys)"
  by (simp add: emit_def upd_bytes_append add.assoc)

lemma mapped_rest:
  "mapped h b (length xs + n) \<Longrightarrow> length xs \<le> addr_max \<Longrightarrow>
   mapped (upd_bytes h b xs) (b + of_nat (length xs)) n"
  by (simp add: mapped_add mapped_upd_bytes)

lemma room: "k \<le> unat n \<Longrightarrow> unat (n - of_nat k) = unat n - k" for n :: u64
proof -
  assume "k \<le> unat n"
  moreover from this have "unat (of_nat k :: u64) = k"
    by (meson le_less_trans unat_less_addr_max unat_of_nat_addr)
  ultimately show ?thesis by (simp add: unat_sub word_le_nat_alt)
qed

lemma room_left: "k \<le> unat n \<Longrightarrow> of_nat k < n \<longleftrightarrow> k < unat n" for n :: u64
  by (metis le_less_trans unat_less_addr_max unat_of_nat_addr word_less_nat_alt)

lemma fill_loop_eq:
  assumes "k \<le> unat bufsize" "n = min (nat (lim - i)) (unat bufsize - k)" "mapped h (p + of_nat k) n"
  shows "fill_loop h (p + of_nat k) p bufsize c i lim = emit h (p + of_nat k) (replicate n c)"
  using assms
proof (induction n arbitrary: h i k)
  case 0
  then have "\<not> (i < lim \<and> (of_nat k :: u64) < bufsize)" by (auto simp: room_left)
  then show ?case by (subst fill_loop.simps) auto
next
  case (Suc n)
  then have lt: "i < lim" "k < unat bufsize" by auto
  have h: "h (p + of_nat k) \<noteq> None" "mapped h (p + of_nat (Suc k)) n"
    using Suc.prems(3) by (auto simp: dom_def algebra_simps)
  then obtain v where v: "h (p + of_nat k) = Some v" by blast
  have small: "n < addr_max"
    using Suc.prems(2) unat_less_addr_max [of bufsize] by linarith
  have "fill_loop (h(p + of_nat k \<mapsto> c)) (p + of_nat (Suc k)) p bufsize c (i + 1) lim
      = emit (h(p + of_nat k \<mapsto> c)) (p + of_nat (Suc k)) (replicate n c)"
    using lt Suc.prems(2) h(2) by (intro Suc.IH) (auto simp: mapped_def)
  moreover have "(of_nat k :: u64) < bufsize" using lt by (simp add: room_left)
  ultimately show ?case
    using lt v small by (subst fill_loop.simps) (simp add: emit_def upd_bytes_Cons algebra_simps)
qed

lemma fill_loop_start:
  assumes "n = min (nat lim) (unat bufsize)" "mapped h b n"
  shows "fill_loop h b b bufsize c 0 lim = emit h b (replicate n c)"
  using fill_loop_eq [of 0 bufsize n lim 0 h b c] assms by simp

lemma print_str_loop_eq:
  assumes "cstr ro str s" "length s < addr_max"
  shows "k \<le> unat bufsize \<Longrightarrow> i \<le> length s \<Longrightarrow> n = min (length s - i) (unat bufsize - k) \<Longrightarrow>
    mapped h (p + of_nat k) n \<Longrightarrow>
    print_str_loop ro h (p + of_nat k) p bufsize str (of_nat i) = emit h (p + of_nat k) (take n (drop i s))"
proof (induction n arbitrary: h i k)
  case 0
  then have "\<not> ((of_nat i :: u64) < of_nat (length s) \<and> (of_nat k :: u64) < bufsize)"
    using assms(2) by (auto simp: room_left of_nat_less_addr)
  then show ?case using assms(1) by (subst print_str_loop.simps) (auto simp: strlen_eq)
next
  case (Suc n)
  then have lt: "i < length s" "k < unat bufsize" by auto
  have h: "h (p + of_nat k) \<noteq> None" "mapped h (p + of_nat (Suc k)) n"
    using Suc.prems(4) by (auto simp: dom_def algebra_simps)
  then obtain v where v: "h (p + of_nat k) = Some v" by blast
  have small: "n < addr_max"
    using Suc.prems(3) unat_less_addr_max [of bufsize] by linarith
  have c: "ro (str + of_nat i) = Some (s ! i)"
    using assms(1) lt(1) by (simp add: cstr_arr arr_nth nth_append)
  have "print_str_loop ro (h(p + of_nat k \<mapsto> s ! i)) (p + of_nat (Suc k)) p bufsize str (of_nat (Suc i))
      = emit (h(p + of_nat k \<mapsto> s ! i)) (p + of_nat (Suc k)) (take n (drop (Suc i) s))"
    using lt Suc.prems(3) h(2) by (intro Suc.IH) (auto simp: mapped_def)
  moreover have "(of_nat k :: u64) < bufsize" "(of_nat i :: u64) < of_nat (length s)"
    using lt assms(2) by (simp_all add: room_left of_nat_less_addr)
  moreover have "take (Suc n) (drop i s) = s ! i # take n (drop (Suc i) s)"
    using lt(1) by (simp add: Cons_nth_drop_Suc [symmetric])
  moreover have "length (take n (drop (Suc i) s)) < addr_max" using small by simp
  ultimately show ?case
    using assms(1) v c
    by (subst print_str_loop.simps) (simp add: strlen_eq emit_def upd_bytes_Cons algebra_simps)
qed

lemma print_str_eq:
  assumes "cstr ro str s" "length s < addr_max" "mapped h b (min (length s) (unat bufsize))"
  shows "print_str ro h b bufsize str = emit h b (take (unat bufsize) s)"
  using print_str_loop_eq [OF assms(1,2), of 0 bufsize 0 _ h b] assms(3)
  by (simp add: print_str_def min_def split: if_splits)

section \<open>Digits\<close>

text \<open>The digits of a number, most significant first, and their characters.\<close>

fun digs :: "nat \<Rightarrow> nat \<Rightarrow> nat list" where
  "digs b v = (if b \<le> 1 \<or> v < b then [v] else digs b (v div b) @ [v mod b])"

declare digs.simps [simp del]

definition dchar :: "bool \<Rightarrow> nat \<Rightarrow> u8" where
  "dchar upper d = (let c = zeichen ! d in if upper then word_of_int (toupper (uint c)) else c)"

definition dstr :: "bool \<Rightarrow> nat \<Rightarrow> nat \<Rightarrow> u8 list" where
  "dstr upper b v = map (dchar upper) (digs b v)"

lemma digs_small: "v < b \<Longrightarrow> digs b v = [v]"
  by (simp add: digs.simps)

lemma digs_step: "1 < b \<Longrightarrow> b \<le> v \<Longrightarrow> digs b v = digs b (v div b) @ [v mod b]"
  by (subst digs.simps) simp

lemma digs_bound: "1 < b \<Longrightarrow> d \<in> set (digs b v) \<Longrightarrow> d < b"
proof (induction b v rule: digs.induct)
  case (1 b v)
  then show ?case by (subst (asm) (2) digs.simps) (auto split: if_splits)
qed

lemma digs_length_pos [simp]: "0 < length (digs b v)" "digs b v \<noteq> []"
  by (subst digs.simps, simp)+

lemma digs_length_le: "1 < b \<Longrightarrow> 0 < v \<Longrightarrow> length (digs b v) \<le> v"
proof (induction b v rule: digs.induct)
  case (1 b v)
  show ?case
  proof (cases "v < b")
    case False
    then have "length (digs b (v div b)) \<le> v div b"
      using 1 by (intro "1.IH") (auto simp: div_greater_zero_iff)
    moreover have "v div b < v" using 1 False by simp
    ultimately have "Suc (length (digs b (v div b))) \<le> v" by linarith
    then show ?thesis using 1 False by (simp add: digs_step)
  qed (use 1 in \<open>simp add: digs_small\<close>)
qed

lemma digs_length_64: "1 < b \<Longrightarrow> length (digs b (unat (v :: u64))) < addr_max"
proof (cases "v = 0")
  case True
  then show "1 < b \<Longrightarrow> ?thesis" by (simp add: digs_small addr_max_def)
next
  case False
  then show "1 < b \<Longrightarrow> ?thesis"
    by (meson digs_length_le le_less_trans unat_gt_0 unat_less_addr_max)
qed

lemma unat_ucast_16: "unat (ucast (w :: u16) :: u64) = unat w"
proof -
  have "unat w < 2 ^ 16" using unsigned_less [of w] by simp
  then show ?thesis by (simp add: unsigned_ucast_eq take_bit_nat_eq_self)
qed

lemma unat_div_base: "unat ((v :: u64) div ucast base) = unat v div unat base" for base :: u16
  by (simp add: unat_div unat_ucast_16)

lemma unat_mod_base: "unat ((v :: u64) mod ucast base) = unat v mod unat base" for base :: u16
  by (simp add: unat_mod unat_ucast_16)

lemma print_intlen_loop_step:
  assumes "v \<noteq> 0" "base \<noteq> 0"
  shows "print_intlen_loop v base i = print_intlen_loop (v div ucast base) base (i + 1)"
proof -
  have "drop_bit 4 v = v div 16" by (simp add: drop_bit_eq_div)
  with assms show ?thesis by (subst print_intlen_loop.simps) (auto simp: word_gt_0)
qed

lemma print_intlen_loop_eq:
  assumes "1 < unat base"
  shows "print_intlen_loop v base i =
    Some (if v = 0 then i else i + int (length (digs (unat base) (unat v))))"
proof (induction "unat v" arbitrary: v i rule: less_induct)
  case less
  show ?case
  proof (cases "v = 0")
    case True
    then show ?thesis by (subst print_intlen_loop.simps) simp
  next
    case False
    let ?w = "v div ucast base"
    have w: "unat ?w = unat v div unat base" by (rule unat_div_base)
    have nz: "base \<noteq> 0" using assms by auto
    have "unat ?w < unat v" using False assms by (simp add: w unat_gt_0)
    note IH = less.hyps [OF this]
    show ?thesis
    proof (cases "unat v < unat base")
      case True
      then have "?w = 0" using w by (simp add: unat_eq_zero [symmetric] del: unat_eq_zero)
      then show ?thesis
        using False nz True IH by (simp add: print_intlen_loop_step digs_small)
    next
      case ge: False
      then have "?w \<noteq> 0" using w assms by (auto simp: unat_eq_zero [symmetric] div_eq_0_iff simp del: unat_eq_zero)
      then show ?thesis
        using False nz ge IH [of "i + 1"] assms by (simp add: print_intlen_loop_step [of v] digs_step w)
    qed
  qed
qed

lemma print_intlen_eq: "1 < unat base \<Longrightarrow> print_intlen v base = Some (int (length (digs (unat base) (unat v))))"
  by (auto simp: print_intlen_def print_intlen_loop_eq digs_small)

lemma print_itoa_loop_eq:
  fixes base :: u16
  assumes "1 < unat base" "mapped h b (length (digs (unat base) (unat v)))"
  shows "print_itoa_loop h b (ucast base) upper (int (length (digs (unat base) (unat v)))) v =
    Some (upd_bytes h b (dstr upper (unat base) (unat v)))"
  using assms(2)
proof (induction "unat v" arbitrary: v h rule: less_induct)
  case less
  let ?B = "unat base" and ?w = "v div ucast base"
  let ?pre = "if unat v < ?B then [] else digs ?B (unat v div ?B)"
  have w: "unat ?w = unat v div ?B" by (rule unat_div_base)
  have digs: "digs ?B (unat v) = ?pre @ [unat v mod ?B]"
    using assms(1) by (simp add: digs_small digs_step)
  then have len: "length (digs ?B (unat v)) = Suc (length ?pre)" by simp
  let ?n = "length ?pre" and ?c = "dchar upper (unat v mod ?B)"
  let ?h = "h(b + of_nat ?n \<mapsto> ?c)"
  have c: "(if upper then word_of_int (toupper (uint (zeichen ! unat (v mod ucast base)))) else
      zeichen ! unat (v mod ucast base)) = ?c"
    by (simp add: dchar_def unat_mod_base)
  have at: "b + of_nat ?n \<in> dom h" and pre: "mapped h b ?n"
    using less.prems mapped_add [of h b ?n "Suc 0"] by (simp_all add: len)
  have small: "?n < addr_max"
    using digs_length_64 [OF assms(1), of v] len by linarith
  have step: "print_itoa_loop h b (ucast base) upper (int (length (digs ?B (unat v)))) v =
      (if ?w \<noteq> 0 then print_itoa_loop ?h b (ucast base) upper (int ?n) ?w else Some ?h)"
    using at c by (subst print_itoa_loop.simps) (simp add: store8_dom Let_def len del: fun_upd_apply)
  have snoc: "(upd_bytes h b (map (dchar upper) ?pre))(b + of_nat ?n \<mapsto> ?c) = upd_bytes h b (dstr upper ?B (unat v))"
    using upd_bytes_snoc [of "map (dchar upper) ?pre" h b ?c] small by (simp add: dstr_def digs)
  show ?case
  proof (cases "unat v < ?B")
    case True
    then have "?w = 0" using w by (simp add: unat_eq_zero [symmetric] del: unat_eq_zero)
    with step snoc True show ?thesis by simp
  next
    case False
    then have nz: "?w \<noteq> 0" and lt: "unat ?w < unat v"
      using w assms(1) by (auto simp: unat_eq_zero [symmetric] div_eq_0_iff simp del: unat_eq_zero)
    have "print_itoa_loop ?h b (ucast base) upper (int ?n) ?w = Some (upd_bytes ?h b (map (dchar upper) ?pre))"
      using less.hyps [OF lt, of ?h] pre False w by (simp add: mapped_fun_upd dstr_def)
    moreover have "b + of_nat ?n \<notin> region b (length (map (dchar upper) ?pre))"
      using small end_notin_region [of ?n b] by simp
    ultimately show ?thesis
      using step nz snoc small upd_bytes_fun_upd [of "map (dchar upper) ?pre" "b + of_nat ?n" b h ?c] by simp
  qed
qed

lemma print_itoa_eq:
  assumes "2 < unat base" "unat base \<le> 16" "mapped h b (min (length (dstr upper (unat base) (unat v))) (unat bufsize))"
  shows "print_itoa h b bufsize v base upper =
    emit h b (if length (dstr upper (unat base) (unat v)) \<le> unat bufsize then dstr upper (unat base) (unat v) else [])"
proof -
  let ?n = "length (digs (unat base) (unat v))"
  have "?n < addr_max" using assms(1) by (intro digs_length_64) simp
  then have "bufsize < word_of_int (int ?n) \<longleftrightarrow> unat bufsize < ?n"
    by (simp add: word_less_nat_alt unat_of_nat_addr)
  moreover have "\<not> (base \<le> 2 \<or> 16 < base)"
    using assms(1,2) by (simp add: word_le_nat_alt word_less_nat_alt)
  ultimately show ?thesis
    using assms print_itoa_loop_eq [of base h b v upper]
    by (auto simp: print_itoa_def print_intlen_eq emit_def dstr_def)
qed

end
