(* ===== verification/Libc_Format.thy ===== *)
theory Libc_Format
  imports Libc_Printf
begin

text \<open>
  What \<open>vsnprintf\<close> prints. A format is a list of items (literal characters, \<open>%%\<close>, and
  conversions with a flag, a width and a length modifier); \<open>conv_text\<close> is the text of one
  conversion, \<open>conv_out\<close> what the code appends for it when only \<open>R\<close> bytes are left, and
  \<open>render\<close> and \<open>bounded\<close> are the corresponding texts of a whole format. The code refines
  \<open>bounded\<close>, which is \<open>render\<close> whenever the text fits.
\<close>

section \<open>Items\<close>

datatype flag = No_Flag | Zero_Flag | Dot_Flag

datatype lmod = M_int | M_l | M_ll | M_h | M_hh | M_z

datatype fitem = Lit u8 | Percent | Conv flag "u8 list" lmod u8

primrec flag_bytes :: "flag \<Rightarrow> u8 list" where
  "flag_bytes No_Flag = []"
| "flag_bytes Zero_Flag = [48]"
| "flag_bytes Dot_Flag = [46]"

primrec lmod_bytes :: "lmod \<Rightarrow> u8 list" where
  "lmod_bytes M_int = []"
| "lmod_bytes M_l = [108]"
| "lmod_bytes M_ll = [108, 108]"
| "lmod_bytes M_h = [104]"
| "lmod_bytes M_hh = [104, 104]"
| "lmod_bytes M_z = [122]"

primrec lmod_size :: "lmod \<Rightarrow> nat" where
  "lmod_size M_int = 4"
| "lmod_size M_l = 8"
| "lmod_size M_ll = 8"
| "lmod_size M_h = 2"
| "lmod_size M_hh = 1"
| "lmod_size M_z = 8"

definition flag_char :: "flag \<Rightarrow> u8" where
  "flag_char f = (if f = No_Flag then 32 else 48)"

primrec item_bytes :: "fitem \<Rightarrow> u8 list" where
  "item_bytes (Lit c) = [c]"
| "item_bytes Percent = [37, 37]"
| "item_bytes (Conv f ds m c) = 37 # flag_bytes f @ ds @ lmod_bytes m @ [c]"

definition is_dig :: "u8 \<Rightarrow> bool" where
  "is_dig c \<longleftrightarrow> 48 \<le> c \<and> c \<le> 57"

text \<open>
  A conversion is well formed when its width is a decimal number without a leading zero
  (which would be the flag) and at most nine digits, so that its text fits \<open>formstr\<close>.
\<close>

primrec item_ok :: "fitem \<Rightarrow> bool" where
  "item_ok (Lit c) \<longleftrightarrow> c \<noteq> 0 \<and> c \<noteq> 37"
| "item_ok Percent \<longleftrightarrow> True"
| "item_ok (Conv f ds m c) \<longleftrightarrow> list_all is_dig ds \<and> length ds \<le> 9 \<and>
     (f = No_Flag \<longrightarrow> ds = [] \<or> hd ds \<noteq> 48) \<and> is_conv c \<and> c \<noteq> 37"

section \<open>Texts\<close>

definition negative :: "u8 \<Rightarrow> nat \<Rightarrow> u64 \<Rightarrow> bool" where
  "negative c m v \<longleftrightarrow> c \<noteq> 117 \<and> bit v (m * 8 - 1)"

definition magnitude :: "u8 \<Rightarrow> nat \<Rightarrow> u64 \<Rightarrow> nat" where
  "magnitude c m v = unat (if negative c m v then take_bit (m * 8) (- v) else v)"

definition pad_text :: "u8 \<Rightarrow> nat \<Rightarrow> u8 list \<Rightarrow> u8 list" where
  "pad_text fill w s = replicate (w - length s) fill @ s"

definition conv_text :: "u8 \<Rightarrow> nat \<Rightarrow> nat \<Rightarrow> u8 \<Rightarrow> u64 \<Rightarrow> u8 list \<Rightarrow> u8 list" where
  "conv_text fill w m c v s =
     (if c = 117 \<or> c = 100 \<or> c = 105
      then (if negative c m v then [45] else []) @ pad_text fill w (dstr False 10 (magnitude c m v))
      else if c = 88 \<or> c = 120 then pad_text fill w (dstr (c = 88) 16 (unat (take_bit (m * 8) v)))
      else if c = 79 \<or> c = 111 then pad_text fill w (dstr False 8 (unat (take_bit (m * 8) v)))
      else if c = 112 then pad_text 32 w ([48, 120] @ dstr False 16 (unat v))
      else if c = 99 then pad_text 32 w [ucast v]
      else pad_text 32 w s)"

definition fill_out :: "nat \<Rightarrow> nat \<Rightarrow> nat \<Rightarrow> u8 \<Rightarrow> u8 list" where
  "fill_out R w len c = replicate (min (w - len) R) c"

definition fits :: "nat \<Rightarrow> u8 list \<Rightarrow> u8 list" where
  "fits R s = (if length s \<le> R then s else [])"

definition num_out :: "nat \<Rightarrow> u8 \<Rightarrow> nat \<Rightarrow> u8 list \<Rightarrow> u8 list" where
  "num_out R fill w s = (let f = fill_out R w (length s) fill in f @ fits (R - length f) s)"

definition ptr_out :: "nat \<Rightarrow> nat \<Rightarrow> u8 list \<Rightarrow> u8 list" where
  "ptr_out R w s =
     (let f = fill_out R w (length s + 2) 32;
          x = take (R - length f) [48, 120]
      in f @ x @ fits (R - length f - length x) s)"

definition str_out :: "nat \<Rightarrow> nat \<Rightarrow> u8 list \<Rightarrow> u8 list" where
  "str_out R w s = (let f = fill_out R w (length s) 32 in f @ take (R - length f) s)"

definition signed_out :: "nat \<Rightarrow> u8 \<Rightarrow> nat \<Rightarrow> bool \<Rightarrow> u8 list \<Rightarrow> u8 list" where
  "signed_out R fill w neg s = (if neg then 45 # num_out (R - 1) fill w s else num_out R fill w s)"

definition conv_out :: "nat \<Rightarrow> u8 \<Rightarrow> nat \<Rightarrow> nat \<Rightarrow> u8 \<Rightarrow> u64 \<Rightarrow> u8 list \<Rightarrow> u8 list" where
  "conv_out R fill w m c v s =
     (if c = 117 \<or> c = 100 \<or> c = 105
      then signed_out R fill w (negative c m v) (dstr False 10 (magnitude c m v))
      else if c = 88 \<or> c = 120 then num_out R fill w (dstr (c = 88) 16 (unat (take_bit (m * 8) v)))
      else if c = 79 \<or> c = 111 then num_out R fill w (dstr False 8 (unat (take_bit (m * 8) v)))
      else if c = 112 then ptr_out R w (dstr False 16 (unat v))
      else if c = 99 then fill_out R w 1 32 @ [ucast v]
      else str_out R w s)"

lemma length_fits: "length (fits R s) \<le> R"
  by (simp add: fits_def)

lemma length_fill_out: "length (fill_out R w len c) \<le> R"
  by (simp add: fill_out_def)

lemma length_rest: "length xs \<le> R \<Longrightarrow> length ys \<le> R - length xs \<Longrightarrow> length (xs @ ys) \<le> R"
  by simp

lemma length_num_out: "length (num_out R fill w s) \<le> R"
  unfolding num_out_def Let_def by (intro length_rest length_fits length_fill_out)

lemma length_signed_out: "0 < R \<Longrightarrow> length (signed_out R fill w neg s) \<le> R"
  using length_num_out [of "R - 1" fill w s] length_num_out [of R fill w s] by (auto simp: signed_out_def)

lemma length_ptr_out: "length (ptr_out R w s) \<le> R"
  unfolding ptr_out_def Let_def
  by (intro length_rest length_fits length_fill_out) (simp only: length_take min.cobounded2)

lemma length_str_out: "length (str_out R w s) \<le> R"
  by (simp add: str_out_def Let_def fill_out_def)

lemma length_conv_out:
  assumes "0 < R" "c = 99 \<Longrightarrow> w \<le> R"
  shows "length (conv_out R fill w m c v s) \<le> R"
proof -
  have "length (fill_out R w 1 32 @ [ucast v]) \<le> R" if "c = 99" using assms that by (auto simp: fill_out_def min_def)
  then show ?thesis
    using assms(1) by (simp add: conv_out_def length_num_out length_signed_out length_ptr_out length_str_out)
qed

lemma num_out_text: "length (pad_text fill w s) \<le> R \<Longrightarrow> num_out R fill w s = pad_text fill w s"
  by (auto simp: num_out_def pad_text_def Let_def fill_out_def fits_def)

lemma fill_out_fits: "w - len \<le> R \<Longrightarrow> fill_out R w len c = replicate (w - len) c"
  by (simp add: fill_out_def)

lemma ptr_out_text:
  assumes "length (pad_text 32 w ([48, 120] @ s)) \<le> R"
  shows "ptr_out R w s = pad_text 32 w ([48, 120] @ s)"
proof -
  let ?n = "w - (length s + 2)"
  have n: "?n + 2 + length s \<le> R" using assms by (simp add: pad_text_def)
  then have "2 \<le> R - ?n" "length s \<le> R - ?n - 2" by simp_all
  then show ?thesis
    using n fill_out_fits [of w "length s + 2" R 32]
    by (simp add: ptr_out_def pad_text_def Let_def fits_def numeral_2_eq_2)
qed

lemma str_out_text: "length (pad_text 32 w s) \<le> R \<Longrightarrow> str_out R w s = pad_text 32 w s"
  by (auto simp: str_out_def pad_text_def Let_def fill_out_def)

text \<open>With enough room the code prints the text of the conversion.\<close>

lemma conv_out_text:
  assumes "length (conv_text fill w m c v s) \<le> R"
  shows "conv_out R fill w m c v s = conv_text fill w m c v s"
proof -
  have "signed_out R fill w neg x = (if neg then [45] else []) @ pad_text fill w x"
    if "length ((if neg then [45] else []) @ pad_text fill w x) \<le> R" for neg x
    using that by (auto simp: signed_out_def num_out_text)
  moreover have "fill_out R w 1 32 @ [x] = pad_text 32 w [x]" if "length (pad_text 32 w [x]) \<le> R" for x
    using that by (simp add: fill_out_def pad_text_def)
  ultimately show ?thesis
    using assms unfolding conv_out_def conv_text_def
    by (simp only: num_out_text ptr_out_text str_out_text if_True if_False simp_thms split: if_split_asm)
qed

section \<open>Widths\<close>

lemma cstr_blk: "0 \<notin> set s \<Longrightarrow> length s < addr_max \<Longrightarrow> cstr (blk (s @ [0])) 0 s"
  by (simp add: cstr_arr arr_nth blk_def unat_of_nat_addr)

lemma is_dig_digit: "is_dig c \<Longrightarrow> digit_in 10 c" "is_dig c \<Longrightarrow> c \<noteq> 0"
  by (auto simp: is_dig_def digit_in_def strto_digit_def word_le_def)

lemma digs_nonzero: "list_all is_dig ds \<Longrightarrow> 0 \<notin> set ds"
  using is_dig_digit(2) by (auto simp: list_all_iff)

lemma strtoul_width:
  assumes "list_all is_dig ds" "length ds \<le> 9"
  shows "strtoul (blk (ds @ [0])) 0 10 = Some (of_nat (numval 10 ds), of_nat (length ds))"
proof -
  have "hd ds \<notin> {32, 9, 10, 13}" if "ds \<noteq> []"
    using that assms(1) by (cases ds) (auto simp: is_dig_def)
  then show ?thesis
    using strtoul_eq [of "blk (ds @ [0])" 0 "[]" ds "[]" 10] assms digs_nonzero cstr_blk [of ds]
    by (auto simp: list_all_iff is_dig_digit addr_max_def)
qed

lemma numval_less: "\<forall>c\<in>set ds. digit_in (int b) c \<Longrightarrow> numval b ds < b ^ length ds"
proof (induction ds rule: rev_induct)
  case (snoc c ds)
  then have "digit_of c < b" "numval b ds < b ^ length ds" using digit_in_less [of "int b" c] by auto
  then have "numval b ds * b + digit_of c < (numval b ds + 1) * b" by simp
  also have "\<dots> \<le> b ^ length ds * b" using \<open>numval b ds < _\<close> by (intro mult_right_mono) auto
  finally show ?case by (simp add: numval_snoc mult.commute)
qed simp

lemma width_bound:
  assumes "list_all is_dig ds" "length ds \<le> 9"
  shows "numval 10 ds < 2 ^ 31"
proof -
  have "numval 10 ds < 10 ^ length ds"
    using assms(1) by (intro numval_less) (auto simp: list_all_iff is_dig_digit)
  also have "\<dots> \<le> 10 ^ 9" using assms(2) by (intro power_increasing) auto
  finally show ?thesis by simp
qed

lemma sint_width: "n < 2 ^ 31 \<Longrightarrow> sint (ucast (of_nat n :: u64) :: u32) = int n"
proof -
  assume "n < 2 ^ 31"
  then have "uint (of_nat n :: u64) = int n" "signed_take_bit 31 (int n) = int n"
    by (simp_all add: unsigned_of_nat take_bit_nat_eq_self signed_take_bit_int_eq_self)
  then show ?thesis by (simp only: signed_ucast_eq) simp
qed

section \<open>The conversions\<close>

lemma fill_width:
  assumes "mapped h b (unat n)"
  shows "(if int l < int w then fill_loop h b b n c 0 (int w - int l) else Some (h, b)) = emit h b (fill_out (unat n) w l c)"
  using fill_loop_start [of "min (w - l) (unat n)" "int w - int l" n h b c]
    mapped_mono [OF assms, of "min (w - l) (unat n)"]
  by (auto simp: fill_out_def nat_diff_distrib')

lemma print_fill_eq:
  assumes "list_all is_dig ds" "length ds \<le> 9" "1 < unat base" "mapped h b (unat bufsize)"
  shows "print_fill h b bufsize (ds @ [0]) v base c (int k) =
    emit h b (fill_out (unat bufsize) (numval 10 ds) (length (digs (unat base) (unat v)) + k) c)"
proof -
  let ?w = "numval 10 ds" and ?l = "length (digs (unat base) (unat v)) + k"
  have "sint (ucast (of_nat ?w :: u64) :: u32) = int ?w"
    using assms(1,2) by (intro sint_width width_bound)
  then have "print_fill h b bufsize (ds @ [0]) v base c (int k) =
      (if int ?l < int ?w then fill_loop h b b bufsize c 0 (int ?w - int ?l) else Some (h, b))"
    using assms(1-3) by (simp add: print_fill_def strtoul_width print_intlen_eq)
  also have "\<dots> = emit h b (fill_out (unat bufsize) ?w ?l c)"
    by (rule fill_width [OF assms(4)])
  finally show ?thesis .
qed

lemma length_dstr [simp]: "length (dstr upper b v) = length (digs b v)"
  by (simp add: dstr_def)

lemma print_itoa_fits:
  assumes "2 < unat base" "unat base \<le> 16" "mapped h b (unat bufsize)"
  shows "print_itoa h b bufsize v base upper = emit h b (fits (unat bufsize) (dstr upper (unat base) (unat v)))"
  using print_itoa_eq [OF assms(1,2), of h b upper v bufsize] mapped_mono [OF assms(3)]
  by (simp add: fits_def)

lemma length_le_64: "length xs \<le> unat (n :: u64) \<Longrightarrow> length xs \<le> addr_max"
  by (meson le_trans nat_less_le unat_less_addr_max)

text \<open>A writer given the room that is left after \<open>xs\<close>.\<close>

lemma emit_room:
  fixes n :: u64
  assumes "length xs \<le> unat n" "length ys \<le> unat n - length xs"
  shows "emit (upd_bytes h p xs) (p + of_nat (length xs)) ys = emit h p (xs @ ys)"
  using assms length_le_64 [of "xs @ ys" n] by (intro emit_append) simp

lemma mapped_room:
  fixes n :: u64
  assumes "mapped h p (unat n)" "length xs \<le> unat n"
  shows "mapped (upd_bytes h p xs) (p + of_nat (length xs)) (unat (n - of_nat (length xs)))"
  using assms length_le_64 [of xs n] by (intro mapped_rest) (simp_all add: room)

lemma print_itoa_room:
  fixes base :: u16 and n :: u64
  assumes "2 < unat base" "unat base \<le> 16" "mapped h p (unat n)" "length xs \<le> unat n"
  shows "print_itoa (upd_bytes h p xs) (p + of_nat (length xs)) (n - of_nat (length xs)) v base upper =
    emit h p (xs @ fits (unat n - length xs) (dstr upper (unat base) (unat v)))"
  by (simp only: print_itoa_fits [OF assms(1,2) mapped_room [OF assms(3,4)]] room [OF assms(4)]
      emit_room [OF assms(4) length_fits])

lemma print_num_eq:
  fixes base :: u16
  assumes "list_all is_dig ds" "length ds \<le> 9" "2 < unat base" "unat base \<le> 16"
    and "mapped h p (unat n)" "length xs \<le> unat n"
  shows "Option.bind (print_fill (upd_bytes h p xs) (p + of_nat (length xs)) (n - of_nat (length xs)) (ds @ [0]) v base c 0)
      (\<lambda>(h2, b2). print_itoa h2 b2 (n - (b2 - p)) v base upper) =
    emit h p (xs @ num_out (unat n - length xs) c (numval 10 ds) (dstr upper (unat base) (unat v)))"
proof -
  let ?s = "dstr upper (unat base) (unat v)"
  let ?f = "fill_out (unat n - length xs) (numval 10 ds) (length ?s) c"
  have f: "length ?f \<le> unat n - length xs" by (rule length_fill_out)
  then have len: "length (xs @ ?f) \<le> unat n" using assms(6) by simp
  have "print_fill (upd_bytes h p xs) (p + of_nat (length xs)) (n - of_nat (length xs)) (ds @ [0]) v base c (int 0)
      = emit (upd_bytes h p xs) (p + of_nat (length xs)) ?f"
    using print_fill_eq [OF assms(1,2) _ mapped_room [OF assms(5,6)], of base v c 0] assms(3,6) by (simp add: room)
  also have "\<dots> = emit h p (xs @ ?f)" by (rule emit_room [OF assms(6) f])
  finally have fill: "print_fill (upd_bytes h p xs) (p + of_nat (length xs)) (n - of_nat (length xs)) (ds @ [0]) v base c 0
      = emit h p (xs @ ?f)" by simp
  have "print_itoa (upd_bytes h p (xs @ ?f)) (p + of_nat (length (xs @ ?f))) (n - of_nat (length (xs @ ?f))) v base upper
      = emit h p ((xs @ ?f) @ fits (unat n - length (xs @ ?f)) ?s)"
    by (rule print_itoa_room [OF assms(3-5) len])
  then show ?thesis by (simp add: fill num_out_def Let_def diff_diff_left)
qed

lemma print_num_start:
  fixes base :: u16
  assumes "list_all is_dig ds" "length ds \<le> 9" "2 < unat base" "unat base \<le> 16" "mapped h p (unat n)"
  shows "Option.bind (print_fill h p n (ds @ [0]) v base c 0) (\<lambda>(h2, b2). print_itoa h2 b2 (n - (b2 - p)) v base upper) =
    emit h p (num_out (unat n) c (numval 10 ds) (dstr upper (unat base) (unat v)))"
  using print_num_eq [OF assms, of "[]"] by simp

lemma print_str_room:
  assumes "cstr ro str s" "length s < addr_max" "mapped h p (unat n)" "length xs \<le> unat n"
  shows "print_str ro (upd_bytes h p xs) (p + of_nat (length xs)) (n - of_nat (length xs)) str =
    emit h p (xs @ take (unat n - length xs) s)"
proof -
  have "mapped (upd_bytes h p xs) (p + of_nat (length xs)) (min (length s) (unat (n - of_nat (length xs))))"
    using mapped_mono [OF mapped_room [OF assms(3,4)]] by simp
  from print_str_eq [OF assms(1,2) this]
  show ?thesis
    using emit_room [OF assms(4), of "take (unat n - length xs) s" h p] by (simp add: room [OF assms(4)])
qed

lemma convert_mask: "m \<in> {1, 2, 4, 8} \<Longrightarrow> v AND convert ! m = take_bit (m * 8) v"
  by (auto simp: take_bit_eq_mask convert_def mask_numeral)

lemma negative_iff: "c \<noteq> 117 \<and> push_bit (m * 8 - 1) 1 AND v \<noteq> 0 \<longleftrightarrow> negative c m v"
  by (simp add: negative_def bit_iff_and_push_bit_not_eq_0 and.commute)

lemma sizec_push_ok: "length ds \<le> 9 \<Longrightarrow> sizec_push ds c = Some (ds @ [c])"
  by (simp add: sizec_push_def)

lemma print_signed_eq:
  assumes "list_all is_dig ds" "length ds \<le> 9" "mapped h p (unat n)" "0 < unat n" "m \<in> {1, 2, 4, 8}"
  shows "print_signed h p p n ds m sign c False v =
    emit h p (signed_out (unat n) sign (numval 10 ds) (negative c m v) (dstr False 10 (magnitude c m v)))"
proof (cases "negative c m v")
  case True
  obtain b where b: "h p = Some b" using assms(3,4) by (cases "unat n") auto
  have 1: "length [45 :: u8] \<le> unat n" using assms(4) by simp
  have upd: "upd_bytes h p [45] = h(p \<mapsto> 45)" by (simp add: upd_bytes_Cons addr_max_def)
  from print_num_eq [OF assms(1,2) _ _ assms(3) 1, of 10 "take_bit (m * 8) (- v)" sign False]
  show ?thesis
    using True b assms(2) convert_mask [OF assms(5)]
    unfolding print_signed_def Let_def negative_iff
    by (simp add: magnitude_def sizec_push_ok signed_out_def upd)
next
  case False
  with print_num_start [OF assms(1,2) _ _ assms(3), of 10 v sign False] assms(2)
  show ?thesis
    unfolding print_signed_def Let_def negative_iff
    by (simp add: magnitude_def sizec_push_ok signed_out_def)
qed

lemma print_unsigned_eq:
  fixes base :: u16
  assumes "list_all is_dig ds" "length ds \<le> 9" "mapped h p (unat n)" "m \<in> {1, 2, 4, 8}"
    "2 < unat base" "unat base \<le> 16"
  shows "print_unsigned h p p n ds m sign base upper v =
    emit h p (num_out (unat n) sign (numval 10 ds) (dstr upper (unat base) (unat (take_bit (m * 8) v))))"
  using print_num_start [OF assms(1,2,5,6,3), of "take_bit (m * 8) v" sign upper] assms(2) convert_mask [OF assms(4)]
  by (simp add: print_unsigned_def sizec_push_ok)

lemma print_pointer_eq:
  assumes "list_all is_dig ds" "length ds \<le> 9" "mapped h p (unat n)"
  shows "print_pointer h p p n ds False v = emit h p (ptr_out (unat n) (numval 10 ds) (dstr False 16 (unat v)))"
proof -
  let ?s = "dstr False 16 (unat v)"
  let ?f = "fill_out (unat n) (numval 10 ds) (length ?s + 2) 32"
  let ?x = "?f @ take (unat n - length ?f) [48, 120]"
  have f: "length ?f \<le> unat n" by (rule length_fill_out)
  have x: "length ?x \<le> unat n" using f by simp
  have "cstr (blk [48, 120, 0]) 0 [48, 120]" by (simp add: blk_def)
  from print_str_room [OF this _ assms(3) f]
  have str: "print_str (blk [48, 120, 0]) (upd_bytes h p ?f) (p + of_nat (length ?f)) (n - of_nat (length ?f)) 0 = emit h p ?x"
    by (simp add: addr_max_def)
  have fill: "print_fill h p n (ds @ [0]) v 16 32 2 = emit h p ?f"
    using print_fill_eq [OF assms(1,2) _ assms(3), of 16 v 32 2] by simp
  have itoa: "print_itoa (upd_bytes h p ?x) (p + of_nat (length ?x)) (n - of_nat (length ?x)) v 16 False
      = emit h p (?x @ fits (unat n - length ?x) ?s)"
    using print_itoa_room [OF _ _ assms(3) x, of 16 v False] by (simp only: unsigned_numeral) simp
  have "print_pointer h p p n ds False v =
      Option.bind (print_str (blk [48, 120, 0]) (upd_bytes h p ?f) (p + of_nat (length ?f)) (n - of_nat (length ?f)) 0)
        (\<lambda>(h2, b2). print_itoa h2 b2 (n - (b2 - p)) v 16 False)"
    using fill assms(2) by (simp add: print_pointer_def sizec_push_ok)
  also have "\<dots> = print_itoa (upd_bytes h p ?x) (p + of_nat (length ?x)) (n - of_nat (length ?x)) v 16 False"
    unfolding str by (simp only: emit_bind prod.case add_diff_cancel_left')
  finally show ?thesis
    unfolding itoa by (simp only: ptr_out_def Let_def append_assoc length_append diff_diff_left)
qed

lemma print_string_eq:
  assumes "list_all is_dig ds" "length ds \<le> 9" "mapped h p (unat n)" "cstr ro v s" "length s < addr_max"
  shows "print_string ro h p p n ds v = emit h p (str_out (unat n) (numval 10 ds) s)"
proof -
  let ?w = "numval 10 ds"
  let ?f = "fill_out (unat n) ?w (length s) 32"
  have f: "length ?f \<le> unat n" by (rule length_fill_out)
  have w: "?w < addr_max" using width_bound [OF assms(1,2)] by (simp add: addr_max_def)
  have lt: "(of_nat (length s) :: u64) < of_nat ?w \<longleftrightarrow> int (length s) < int ?w"
    using assms(5) w by (simp add: of_nat_less_addr)
  have sub: "uint (of_nat ?w - of_nat (length s) :: u64) = int ?w - int (length s)" if "length s < ?w"
  proof -
    have "unat (of_nat ?w - of_nat (length s) :: u64) = ?w - length s"
      using that w room [of "length s" "of_nat ?w"] by (simp add: unat_of_nat_addr)
    then show ?thesis using that by (metis int_minus nat_less_le of_nat_diff uint_nat)
  qed
  have "print_str_fill ro h p n (ds @ [0]) v 32 =
      (if int (length s) < int ?w then fill_loop h p p n 32 0 (int ?w - int (length s)) else Some (h, p))"
    using lt sub strtoul_width [OF assms(1,2)] strlen_eq [OF assms(4)] by (simp add: print_str_fill_def)
  also have "\<dots> = emit h p ?f" by (rule fill_width [OF assms(3)])
  finally have "print_string ro h p p n ds v = print_str ro (upd_bytes h p ?f) (p + of_nat (length ?f)) (n - of_nat (length ?f)) v"
    using assms(2) by (simp add: print_string_def sizec_push_ok)
  then show ?thesis
    unfolding print_str_room [OF assms(4,5,3) f] by (simp only: str_out_def Let_def)
qed

lemma store_room:
  fixes n :: u64
  assumes "mapped h p (unat n)" "length xs < unat n"
  shows "store8 (upd_bytes h p xs) (p + of_nat (length xs)) c = Some (upd_bytes h p (xs @ [c]))"
proof -
  have "mapped (upd_bytes h p xs) (p + of_nat (length xs)) (unat (n - of_nat (length xs)))"
    using assms by (intro mapped_room) simp_all
  then have "p + of_nat (length xs) \<in> dom (upd_bytes h p xs)"
    using assms(2) by (cases "unat (n - of_nat (length xs))") (simp_all add: room)
  moreover have "length xs < addr_max" using assms(2) unat_less_addr_max [of n] by linarith
  ultimately show ?thesis by (simp only: store8_dom upd_bytes_snoc)
qed

lemma print_char_eq:
  assumes "list_all is_dig ds" "length ds \<le> 9" "mapped h p (unat n)" "0 < unat n" "numval 10 ds \<le> unat n"
  shows "print_char h p p n ds v = emit h p (fill_out (unat n) (numval 10 ds) 1 32 @ [ucast v])"
proof -
  let ?f = "fill_out (unat n) (numval 10 ds) 1 32"
  have "print_fill h p n (ds @ [0]) 1 10 32 0 = emit h p ?f"
    using print_fill_eq [of ds 10 h p n 1 32 0] assms(1-3) by (simp add: digs_small)
  moreover have "length ?f < unat n" using assms(4,5) by (simp add: fill_out_def)
  ultimately show ?thesis
    using assms(2) store_room [OF assms(3), of ?f "ucast v"]
    by (simp add: print_char_def sizec_push_def emit_def add.assoc)
qed

section \<open>One conversion\<close>

lemma print_format_step:
  assumes "fs (pf_form s) = Some c" "c \<noteq> 0" "pf_b s - start < n" "print_format_switch ro fs start n sign v c s = Some s'"
  shows "print_format_loop ro fs start n sign v s = print_format_loop ro fs start n sign v (s'\<lparr>pf_form := pf_form s' + 1\<rparr>)"
  using assms by (subst print_format_loop.simps) simp

lemma print_format_digits:
  "cstr fs (pf_form s) (ds @ r) \<Longrightarrow> list_all is_dig ds \<Longrightarrow> pf_b s - start < n \<Longrightarrow> length (pf_sizec s) + length ds \<le> 9 \<Longrightarrow>
   print_format_loop ro fs start n sign v s =
   print_format_loop ro fs start n sign v
     (s\<lparr>pf_sizec := pf_sizec s @ ds, pf_form := pf_form s + of_nat (length ds)\<rparr>)"
proof (induction ds arbitrary: s)
  case (Cons d ds)
  let ?s = "s\<lparr>pf_sizec := pf_sizec s @ [d], pf_form := pf_form s + 1\<rparr>"
  have d: "48 \<le> d" "d \<le> 57" using Cons.prems(2) by (simp_all add: is_dig_def)
  then have ne: "d \<noteq> 117" "d \<noteq> 100" "d \<noteq> 105" "d \<noteq> 88" "d \<noteq> 120" "d \<noteq> 79" "d \<noteq> 111" "d \<noteq> 112" "d \<noteq> 99" "d \<noteq> 115"
    "d \<noteq> 108" "d \<noteq> 104" "d \<noteq> 122"
    by auto
  have "print_format_switch ro fs start n sign v d s = Some (s\<lparr>pf_sizec := pf_sizec s @ [d]\<rparr>)"
    using Cons.prems(4) d ne by (simp add: print_format_switch_def sizec_push_def)
  then have "print_format_loop ro fs start n sign v s = print_format_loop ro fs start n sign v ?s"
    using Cons.prems print_format_step [of fs s d start n ro sign v] by simp
  also have "\<dots> = print_format_loop ro fs start n sign v
      (?s\<lparr>pf_sizec := pf_sizec ?s @ ds, pf_form := pf_form ?s + of_nat (length ds)\<rparr>)"
    using Cons.prems by (intro Cons.IH) auto
  finally show ?case by (simp add: add.assoc)
qed simp

lemma print_format_lmod:
  assumes "cstr fs (pf_form s) (lmod_bytes m @ [c])" "is_conv c" "pf_b s - start < n" "pf_mod s = 4"
  shows "print_format_loop ro fs start n sign v s =
    print_format_loop ro fs start n sign v
      (s\<lparr>pf_mod := lmod_size m, pf_form := pf_form s + of_nat (length (lmod_bytes m))\<rparr>)"
proof -
  have c: "c \<noteq> 108" "c \<noteq> 104" using assms(2) by (auto simp: is_conv_def)
  note step = print_format_step [where s = s and start = start and n = n and fs = fs and ro = ro and sign = sign and v = v]
  show ?thesis
  proof (cases m)
    case M_int
    then show ?thesis using assms(4) by (cases s) simp
  next
    case M_l
    then show ?thesis using assms(1,3) c step [of 108] by (simp add: print_format_switch_def)
  next
    case M_ll
    then show ?thesis using assms(1,3) step [of 108] by (simp add: print_format_switch_def add.assoc)
  next
    case M_h
    then show ?thesis using assms(1,3) c step [of 104] by (simp add: print_format_switch_def)
  next
    case M_hh
    then show ?thesis using assms(1,3) step [of 104] by (simp add: print_format_switch_def add.assoc)
  next
    case M_z
    then show ?thesis using assms(1,3) step [of 122] by (simp add: print_format_switch_def)
  qed
qed

lemma print_format_conv:
  assumes "cstr fs (pf_form s) [c]" "pf_b s - start < n"
    and "print_format_switch ro fs start n sign v c s = Some (s\<lparr>pf_h := h', pf_b := b', pf_upper := u\<rparr>)"
  shows "print_format_loop ro fs start n sign v s = Some (h', b')"
  using assms by (subst print_format_loop.simps, simp) (subst print_format_loop.simps, simp)

lemma print_format_switch_eq:
  fixes f :: ptr and sign :: u8
  assumes "list_all is_dig ds" "length ds \<le> 9" "mapped h p (unat n)" "0 < unat n" "m \<in> {1, 2, 4, 8}"
    and "is_conv c" "c \<noteq> 37" "c = 99 \<Longrightarrow> numval 10 ds \<le> unat n" "c = 115 \<Longrightarrow> cstr ro v str \<and> length str < addr_max"
  defines "s \<equiv> \<lparr>pf_h = h, pf_b = p, pf_form = f, pf_sizec = ds, pf_mod = m, pf_upper = False\<rparr>"
  defines "out \<equiv> conv_out (unat n) sign (numval 10 ds) m c v str"
  shows "print_format_switch ro fs p n sign v c s =
    Some (s\<lparr>pf_h := upd_bytes h p out, pf_b := p + of_nat (length out), pf_upper := (c = 88)\<rparr>)"
proof -
  note convs = print_signed_eq [OF assms(1-5)] print_unsigned_eq [OF assms(1,2,3,5)]
    print_pointer_eq [OF assms(1-3)] print_char_eq [OF assms(1-4)] print_string_eq [OF assms(1-3)]
  consider "c = 117 \<or> c = 100 \<or> c = 105" | "c = 88 \<or> c = 120" | "c = 79 \<or> c = 111" | "c = 112" | "c = 99" | "c = 115"
    using assms(6,7) by (auto simp: is_conv_def)
  then show ?thesis
  proof cases
    case 1
    then show ?thesis
      by (auto simp: print_format_switch_def s_def out_def conv_out_def convs)
  next
    case 2
    then show ?thesis by (auto simp: print_format_switch_def s_def out_def conv_out_def convs)
  next
    case 3
    then show ?thesis by (auto simp: print_format_switch_def s_def out_def conv_out_def convs)
  next
    case 4
    then show ?thesis by (simp add: print_format_switch_def s_def out_def conv_out_def convs)
  next
    case 5
    then show ?thesis using assms(8) by (simp add: print_format_switch_def s_def out_def conv_out_def convs)
  next
    case 6
    then show ?thesis
      using assms(9) convs(5) [of ro v str] by (simp add: print_format_switch_def s_def out_def conv_out_def)
  qed
qed

lemma flag_bytes_plain: "x \<in> set (flag_bytes f) \<Longrightarrow> x \<noteq> 0 \<and> \<not> is_conv x"
  by (cases f) (auto simp: is_conv_def)

lemma lmod_bytes_plain: "x \<in> set (lmod_bytes m) \<Longrightarrow> x \<noteq> 0 \<and> \<not> is_conv x"
  by (cases m) (auto simp: is_conv_def)

lemma is_dig_plain: "is_dig x \<Longrightarrow> x \<noteq> 0 \<and> \<not> is_conv x \<and> x \<noteq> 46"
  by (auto simp: is_conv_def is_dig_def)

lemma is_conv_plain: "is_conv x \<Longrightarrow> x \<noteq> 0 \<and> x \<noteq> 48 \<and> x \<noteq> 46"
  by (auto simp: is_conv_def)

lemma item_bytes_nonzero: "item_ok it \<Longrightarrow> 0 \<notin> set (item_bytes it)"
proof (cases it)
  case (Conv f ds m c)
  moreover have "0 \<notin> set (flag_bytes f)" "0 \<notin> set (lmod_bytes m)"
    using flag_bytes_plain lmod_bytes_plain by blast+
  ultimately show "item_ok it \<Longrightarrow> ?thesis" using digs_nonzero by (auto simp: is_conv_def)
qed auto

lemma hd_after_flag:
  assumes "item_ok (Conv No_Flag ds m c)" "x = hd (ds @ lmod_bytes m @ [c])"
  shows "x \<noteq> 48" "x \<noteq> 46"
proof -
  have "hd (lmod_bytes m @ [c]) \<noteq> 48" "hd (lmod_bytes m @ [c]) \<noteq> 46"
    using is_conv_plain [of c] assms(1) by (cases m; simp)+
  moreover have "ds \<noteq> [] \<Longrightarrow> is_dig (hd ds) \<and> hd ds \<noteq> 48"
    using assms(1) by (cases ds) auto
  ultimately show "x \<noteq> 48" "x \<noteq> 46"
    using assms(2) is_dig_plain by (cases ds; auto)+
qed

lemma print_format_eq:
  assumes ok: "item_ok (Conv f ds m c)" and room: "mapped h p (unat n)" "0 < unat n" "c = 99 \<Longrightarrow> numval 10 ds \<le> unat n"
    and str: "c = 115 \<Longrightarrow> cstr ro v s \<and> length s < addr_max"
  shows "print_format ro h p n (item_bytes (Conv f ds m c) @ [0]) v =
    emit h p (conv_out (unat n) (flag_char f) (numval 10 ds) (lmod_size m) c v s)"
proof -
  let ?bs = "item_bytes (Conv f ds m c)" and ?k = "length (flag_bytes f)"
  let ?fs = "blk (?bs @ [0])" and ?rest = "ds @ lmod_bytes m @ [c]"
  let ?loop = "\<lambda>frm sz md. print_format_loop ro ?fs p n (flag_char f) v
    \<lparr>pf_h = h, pf_b = p, pf_form = frm, pf_sizec = sz, pf_mod = md, pf_upper = False\<rparr>"
  have "length ?bs < addr_max" using ok by (cases f; cases m) (auto simp: addr_max_def)
  then have "cstr ?fs 0 ?bs" using item_bytes_nonzero [OF ok] by (rule cstr_blk [rotated])
  then have fl: "cstr ?fs 1 (flag_bytes f @ ?rest)" by simp
  then have rest: "cstr ?fs (1 + of_nat ?k) ?rest" by (simp add: cstr_append)
  have lt: "p - p < n" using room(2) by (simp add: word_gt_0 unat_gt_0)
  obtain x where x: "?fs 1 = Some x" "x = hd (flag_bytes f @ ?rest)"
    using fl by (cases "flag_bytes f @ ?rest") auto
  have "print_format ro h p n (?bs @ [0]) v = ?loop (1 + of_nat ?k) [] 4"
    using x hd_after_flag [of ds m c x] ok by (cases f) (simp_all add: print_format_def flag_char_def)
  also have "\<dots> = ?loop (1 + of_nat ?k + of_nat (length ds)) ds 4"
    using print_format_digits [of ?fs _ ds "lmod_bytes m @ [c]"] rest lt ok by simp
  also have "\<dots> = ?loop (1 + of_nat ?k + of_nat (length ds) + of_nat (length (lmod_bytes m))) ds (lmod_size m)"
    using print_format_lmod [of ?fs _ m c p n] rest lt ok by (simp add: cstr_append)
  also have "\<dots> = emit h p (conv_out (unat n) (flag_char f) (numval 10 ds) (lmod_size m) c v s)"
    unfolding emit_def
  proof (rule print_format_conv [OF _ _ print_format_switch_eq])
    show "lmod_size m \<in> {1, 2, 4, 8}" by (cases m) auto
  qed (use rest lt ok room str in \<open>auto simp: cstr_append add.assoc\<close>)
  finally show ?thesis .
qed

section \<open>Whole formats\<close>

text \<open>
  The arguments of a format: each conversion takes one word, and \<open>%s\<close> the string it points
  to, which \<open>strs\<close> gives.
\<close>

primrec render :: "(u64 \<Rightarrow> u8 list) \<Rightarrow> fitem list \<Rightarrow> u64 list \<Rightarrow> u8 list" where
  "render strs [] arg = []"
| "render strs (it # its) arg =
     (case it of
        Lit c \<Rightarrow> c # render strs its arg
      | Percent \<Rightarrow> 37 # render strs its arg
      | Conv f ds m c \<Rightarrow>
          conv_text (flag_char f) (numval 10 ds) (lmod_size m) c (hd arg) (strs (hd arg)) @ render strs its (tl arg))"

primrec bounded :: "nat \<Rightarrow> (u64 \<Rightarrow> u8 list) \<Rightarrow> fitem list \<Rightarrow> u64 list \<Rightarrow> u8 list" where
  "bounded R strs [] arg = []"
| "bounded R strs (it # its) arg =
     (if R = 0 then []
      else case it of
        Lit c \<Rightarrow> c # bounded (R - 1) strs its arg
      | Percent \<Rightarrow> 37 # bounded (R - 1) strs its arg
      | Conv f ds m c \<Rightarrow>
          (let out = conv_out R (flag_char f) (numval 10 ds) (lmod_size m) c (hd arg) (strs (hd arg))
           in out @ bounded (R - length out) strs its (tl arg)))"

definition fmt_bytes :: "fitem list \<Rightarrow> u8 list" where
  "fmt_bytes its = concat (map item_bytes its)"

text \<open>There is an argument for every conversion, a string for every \<open>%s\<close>.\<close>

primrec args_ok :: "heap \<Rightarrow> (u64 \<Rightarrow> u8 list) \<Rightarrow> fitem list \<Rightarrow> u64 list \<Rightarrow> bool" where
  "args_ok ro strs [] arg \<longleftrightarrow> True"
| "args_ok ro strs (it # its) arg \<longleftrightarrow>
     (case it of
        Conv f ds m c \<Rightarrow> arg \<noteq> [] \<and> (c = 115 \<longrightarrow> cstr ro (hd arg) (strs (hd arg)) \<and> length (strs (hd arg)) < addr_max) \<and>
          args_ok ro strs its (tl arg)
      | _ \<Rightarrow> args_ok ro strs its arg)"

text \<open>
  The width of a \<open>%c\<close> is not checked against the buffer: the character goes after the fill even if that
  takes all the room. \<open>char_room\<close> says that each \<open>%c\<close> that is reached has room for its width.
\<close>

primrec char_room :: "nat \<Rightarrow> (u64 \<Rightarrow> u8 list) \<Rightarrow> fitem list \<Rightarrow> u64 list \<Rightarrow> bool" where
  "char_room R strs [] arg \<longleftrightarrow> True"
| "char_room R strs (it # its) arg \<longleftrightarrow>
     R = 0 \<or>
     (case it of
        Conv f ds m c \<Rightarrow> (c = 99 \<longrightarrow> numval 10 ds \<le> R) \<and>
          char_room (R - length (conv_out R (flag_char f) (numval 10 ds) (lmod_size m) c (hd arg) (strs (hd arg)))) strs its (tl arg)
      | _ \<Rightarrow> char_room (R - 1) strs its arg)"

lemma length_bounded: "char_room R strs its arg \<Longrightarrow> length (bounded R strs its arg) \<le> R"
proof (induction its arbitrary: R arg)
  case (Cons it its)
  show ?case
  proof (cases "R = 0")
    case False
    show ?thesis
    proof (cases it)
      case (Conv f ds m c)
      let ?out = "conv_out R (flag_char f) (numval 10 ds) (lmod_size m) c (hd arg) (strs (hd arg))"
      have "length ?out \<le> R" using Cons.prems Conv False by (intro length_conv_out) auto
      moreover have "length (bounded (R - length ?out) strs its (tl arg)) \<le> R - length ?out"
        using Cons.prems Conv False by (intro Cons.IH) simp
      ultimately have "length (?out @ bounded (R - length ?out) strs its (tl arg)) \<le> R" by (rule length_rest)
      then show ?thesis using Conv False by (simp add: Let_def)
    qed (use Cons False in \<open>fastforce+\<close>)
  qed simp
qed simp

lemma pad_length: "length (pad_text fill w s) = max w (length s)"
  by (simp add: pad_text_def)

lemma char_room_render: "length (render strs its arg) \<le> R \<Longrightarrow> char_room R strs its arg"
proof (induction its arbitrary: R arg)
  case (Cons it its)
  show ?case
  proof (cases it)
    case (Conv f ds m c)
    let ?t = "conv_text (flag_char f) (numval 10 ds) (lmod_size m) c (hd arg) (strs (hd arg))"
    have le: "length ?t + length (render strs its (tl arg)) \<le> R" using Cons.prems Conv by simp
    then have "conv_out R (flag_char f) (numval 10 ds) (lmod_size m) c (hd arg) (strs (hd arg)) = ?t" by (intro conv_out_text) simp
    moreover have "numval 10 ds \<le> R" if "c = 99" using le that by (simp add: conv_text_def pad_length)
    ultimately show ?thesis using Conv le Cons.IH [of "tl arg" "R - length ?t"] by auto
  qed (use Cons in auto)
qed simp

lemma bounded_render:
  "length (render strs its arg) \<le> R \<Longrightarrow> bounded R strs its arg = render strs its arg"
proof (induction its arbitrary: R arg)
  case (Cons it its)
  show ?case
  proof (cases it)
    case (Conv f ds m c)
    let ?t = "conv_text (flag_char f) (numval 10 ds) (lmod_size m) c (hd arg) (strs (hd arg))"
    have le: "length ?t + length (render strs its (tl arg)) \<le> R" using Cons.prems Conv by simp
    moreover have "R = 0 \<Longrightarrow> ?t @ render strs its (tl arg) = []" using le by simp
    ultimately show ?thesis
      using Conv Cons.IH [of "tl arg" "R - length ?t"] conv_out_text [of _ _ _ c _ _ R]
      by (auto simp: Let_def)
  qed (use Cons in auto)
qed simp

lemma collect_spec_eq:
  "arr ro p (bs @ [c]) \<Longrightarrow> bs \<noteq> [] \<Longrightarrow> \<forall>x\<in>set (tl bs). \<not> is_conv x \<Longrightarrow> is_conv c \<Longrightarrow> length fm + length bs \<le> 20 \<Longrightarrow>
   collect_spec ro p fm = Some (fm @ bs, p + of_nat (length bs))"
proof (induction bs arbitrary: p fm)
  case (Cons b bs)
  show ?case
  proof (cases bs)
    case Nil
    then show ?thesis
      using Cons.prems by (subst collect_spec.simps) (simp add: formstr_push_def)
  next
    case (Cons b' bs')
    have "collect_spec ro (p + 1) (fm @ [b]) = Some ((fm @ [b]) @ bs, p + 1 + of_nat (length bs))"
      using Cons.prems Cons by (intro Cons.IH) auto
    then show ?thesis
      using Cons.prems Cons by (subst collect_spec.simps) (simp add: formstr_push_def add.assoc)
  qed
qed simp

lemma vsnprintf_spec_conv:
  fixes n :: u64
  assumes ok: "item_ok (Conv f ds m c)" and fmt: "cstr ro p (item_bytes (Conv f ds m c) @ r)"
    and avail: "mapped h bs (unat n)" "length xs < unat n" "c = 99 \<Longrightarrow> numval 10 ds \<le> unat n - length xs"
    and str: "c = 115 \<Longrightarrow> cstr ro v s \<and> length s < addr_max"
  defines "out \<equiv> conv_out (unat n - length xs) (flag_char f) (numval 10 ds) (lmod_size m) c v s"
  shows "vsnprintf_spec ro (upd_bytes h bs xs) (bs + of_nat (length xs)) bs n p (v # arg) =
    Some (upd_bytes h bs (xs @ out), bs + of_nat (length (xs @ out)), p + of_nat (length (item_bytes (Conv f ds m c))), arg)"
proof -
  let ?bs = "37 # flag_bytes f @ ds @ lmod_bytes m"
  have len: "length ?bs \<le> 14" using ok by (cases f; cases m) auto
  have arr: "arr ro p (?bs @ [c])" using fmt by (simp add: cstr_append arr_append)
  have "collect_spec ro p [] = Some ([] @ ?bs, p + of_nat (length ?bs))"
    using arr len ok flag_bytes_plain lmod_bytes_plain is_dig_plain
    by (intro collect_spec_eq) (auto simp: list_all_iff)
  then have coll: "collect_spec ro p [] = Some (?bs, p + of_nat (length ?bs))" by simp
  have c: "ro (p + of_nat (length ?bs)) = Some c" "c \<noteq> 37" using arr ok by (simp_all add: arr_append add.assoc)
  have le: "length xs \<le> unat n" using avail(2) by simp
  have "length out \<le> unat n - length xs"
    unfolding out_def using avail(2,3) by (intro length_conv_out) auto
  then have "print_format ro (upd_bytes h bs xs) (bs + of_nat (length xs)) (n - of_nat (length xs)) (?bs @ [c] @ [0]) v
      = emit h bs (xs @ out)"
    using print_format_eq [OF ok mapped_room [OF avail(1) le] _ _ str] avail(2,3) emit_room [OF le]
    by (simp add: room [OF le] out_def)
  moreover have "formstr_push ?bs c = Some (?bs @ [c])" "formstr_push (?bs @ [c]) 0 = Some (?bs @ [c] @ [0])"
    using len by (simp_all add: formstr_push_def)
  ultimately show ?thesis
    using c unfolding vsnprintf_spec_def coll by (simp add: emit_def algebra_simps)
qed

text \<open>One item of the format: the loop continues after it, with its output appended.\<close>

definition item_out :: "nat \<Rightarrow> (u64 \<Rightarrow> u8 list) \<Rightarrow> fitem \<Rightarrow> u64 list \<Rightarrow> u8 list" where
  "item_out R strs it arg =
     (case it of
        Lit c \<Rightarrow> [c]
      | Percent \<Rightarrow> [37]
      | Conv f ds m c \<Rightarrow> conv_out R (flag_char f) (numval 10 ds) (lmod_size m) c (hd arg) (strs (hd arg)))"

definition item_arg :: "fitem \<Rightarrow> u64 list \<Rightarrow> u64 list" where
  "item_arg it arg = (case it of Conv f ds m c \<Rightarrow> tl arg | _ \<Rightarrow> arg)"

lemma bounded_item:
  "0 < R \<Longrightarrow> bounded R strs (it # its) arg =
     item_out R strs it arg @ bounded (R - length (item_out R strs it arg)) strs its (item_arg it arg)"
  by (cases it) (simp_all add: item_out_def item_arg_def Let_def)

lemma length_item_out: "char_room R strs (it # its) arg \<Longrightarrow> 0 < R \<Longrightarrow> length (item_out R strs it arg) \<le> R"
proof (cases it)
  case (Conv f ds m c)
  then show "char_room R strs (it # its) arg \<Longrightarrow> 0 < R \<Longrightarrow> ?thesis"
    unfolding item_out_def by (auto intro: length_conv_out)
qed (simp_all add: item_out_def)

lemma char_room_item:
  "char_room R strs (it # its) arg \<Longrightarrow> 0 < R \<Longrightarrow> char_room (R - length (item_out R strs it arg)) strs its (item_arg it arg)"
  by (cases it) (simp_all add: item_out_def item_arg_def)

lemma vsnprintf_item:
  fixes n :: u64
  assumes avail: "mapped h bs (unat n)" "length xs < unat n"
    and it: "item_ok it" "args_ok ro strs [it] arg" "cstr ro p (item_bytes it @ r)" "char_room (unat n - length xs) strs (it # its) arg"
  defines "out \<equiv> item_out (unat n - length xs) strs it arg"
  shows "vsnprintf_loop ro (upd_bytes h bs xs) (bs + of_nat (length xs)) bs n p arg =
    vsnprintf_loop ro (upd_bytes h bs (xs @ out)) (bs + of_nat (length (xs @ out))) bs n
      (p + of_nat (length (item_bytes it))) (item_arg it arg)"
proof -
  have lt: "(of_nat (length xs) :: u64) < n" using avail(2) by (simp add: room_left)
  note st = store_room [OF avail]
  show ?thesis
  proof (cases it)
    case (Lit l)
    then show ?thesis
      using it lt st by (subst vsnprintf_loop.simps) (simp add: out_def item_out_def item_arg_def algebra_simps)
  next
    case Percent
    then have "collect_spec ro p [] = Some ([37], p + 1)"
      using it(3) collect_spec_eq [of ro p "[37]" 37 "[]"] by (simp add: is_conv_def)
    then show ?thesis
      using it lt st Percent
      by (subst vsnprintf_loop.simps)
        (simp add: vsnprintf_spec_def formstr_push_def out_def item_out_def item_arg_def algebra_simps)
  next
    case (Conv f ds m c)
    obtain v arg' where arg: "arg = v # arg'" using it(2) Conv by (cases arg) auto
    have str: "c = 115 \<Longrightarrow> cstr ro v (strs v) \<and> length (strs v) < addr_max" using it(2) Conv arg by simp
    have cr: "c = 99 \<Longrightarrow> numval 10 ds \<le> unat n - length xs" using it(4) Conv avail(2) by simp
    have "ro p = Some 37" using it(3) Conv by simp
    then show ?thesis
      using lt arg Conv vsnprintf_spec_conv [OF it(1) [unfolded Conv] it(3) [unfolded Conv] avail cr str, of arg']
      by (subst vsnprintf_loop.simps)
        (simp add: out_def item_out_def item_arg_def del: item_bytes.simps length_append)
  qed
qed

lemma vsnprintf_loop_eq:
  fixes n :: u64
  assumes avail: "mapped h bs (unat n)"
  shows "list_all item_ok its \<Longrightarrow> args_ok ro strs its arg \<Longrightarrow> cstr ro p (fmt_bytes its) \<Longrightarrow> length xs \<le> unat n \<Longrightarrow>
    char_room (unat n - length xs) strs its arg \<Longrightarrow>
    vsnprintf_loop ro (upd_bytes h bs xs) (bs + of_nat (length xs)) bs n p arg =
    emit h bs (xs @ bounded (unat n - length xs) strs its arg)"
proof (induction its arbitrary: p xs arg)
  case Nil
  then show ?case by (subst vsnprintf_loop.simps) (simp add: fmt_bytes_def emit_def)
next
  case (Cons it its)
  have fmt: "cstr ro p (item_bytes it @ fmt_bytes its)" using Cons.prems(3) by (simp add: fmt_bytes_def)
  obtain c where c: "ro p = Some c" using fmt by (cases it) auto
  show ?case
  proof (cases "length xs < unat n")
    case False
    then have "\<not> (of_nat (length xs) :: u64) < n" using Cons.prems(4) by (simp add: room_left)
    with c False show ?thesis by (subst vsnprintf_loop.simps) (simp add: emit_def)
  next
    case True
    let ?out = "item_out (unat n - length xs) strs it arg"
    have args: "args_ok ro strs [it] arg" "args_ok ro strs its (item_arg it arg)"
      using Cons.prems(2) by (cases it; simp add: item_arg_def)+
    have "item_ok it" using Cons.prems(1) by simp
    have le: "length (xs @ ?out) \<le> unat n"
      using True Cons.prems(5) by (intro length_rest length_item_out) simp_all
    have cr: "char_room (unat n - length (xs @ ?out)) strs its (item_arg it arg)"
      using char_room_item [OF Cons.prems(5)] True by (simp add: diff_diff_left)
    have "cstr ro (p + of_nat (length (item_bytes it))) (fmt_bytes its)"
      using fmt by (simp only: cstr_append)
    from Cons.IH [OF _ args(2) this le cr] vsnprintf_item [OF avail True \<open>item_ok it\<close> args(1) fmt Cons.prems(5)]
    show ?thesis
      using Cons.prems(1) True by (simp add: bounded_item diff_diff_left del: bounded.simps)
  qed
qed

lemma vsnprintf_eq:
  assumes "list_all item_ok its" "args_ok ro strs its arg" "cstr ro f (fmt_bytes its)"
    and "mapped h buf (unat n)" "buf \<noteq> 0" "0 < unat n" "unat n \<le> 2 ^ 31" "char_room (unat n - 1) strs its arg"
  defines "out \<equiv> bounded (unat n - 1) strs its arg"
  shows "vsnprintf ro h buf n f arg = Some (int (length out), upd_bytes h buf (out @ [0]))" "length out < unat n"
proof -
  have n: "unat (n - 1) = unat n - 1" using assms(6) room [of 1 n] by simp
  show len: "length out < unat n"
    using length_bounded [OF assms(8)] assms(6) by (simp add: out_def)
  have "mapped h buf (unat (n - 1))" using assms(4) by (rule mapped_mono) (simp add: n)
  from vsnprintf_loop_eq [OF this assms(1-3), of "[]"] assms(8)
  have "vsnprintf_loop ro h buf buf (n - 1) f arg = emit h buf out"
    by (simp add: n out_def)
  moreover have "store8 (upd_bytes h buf out) (buf + of_nat (length out)) 0 = Some (upd_bytes h buf (out @ [0]))"
    by (rule store_room [OF assms(4) len])
  moreover have "sint (ucast (of_nat (length out) :: u64) :: u32) = int (length out)"
    using len assms(7) by (intro sint_width) simp
  moreover have "n \<noteq> 0" using assms(6) by auto
  ultimately show "vsnprintf ro h buf n f arg = Some (int (length out), upd_bytes h buf (out @ [0]))"
    using assms(5) by (simp add: vsnprintf_def)
qed

section \<open>Correctness\<close>





lemma digit_dchar_all: "list_all (\<lambda>d. \<forall>u\<in>{True, False}. strto_digit (dchar u d) = Some (int d)) [0..<16]"
  by code_simp

lemma digit_dchar: "d < 16 \<Longrightarrow> strto_digit (dchar upper d) = Some (int d)"
  using digit_dchar_all by (cases upper) (simp_all add: list_all_iff del: upt_Suc)

lemma dstr_numval: "1 < b \<Longrightarrow> b \<le> 16 \<Longrightarrow> numval b (dstr upper b v) = v"
proof (induction b v rule: digs.induct)
  case (1 b v)
  have d: "digit_of (dchar upper d) = d" if "d < 16" for d
    using digit_dchar [OF that, of upper] by (simp add: digit_of_def)
  show ?case
  proof (cases "v < b")
    case True
    then show ?thesis using "1.prems" d [of v] by (simp add: dstr_def digs_small numval_def)
  next
    case False
    then have "numval b (dstr upper b (v div b)) = v div b" using 1 by auto
    moreover have "v mod b < 16" using "1.prems" by (meson less_le_trans less_trans mod_less_divisor zero_less_one)
    ultimately show ?thesis
      using False "1.prems" d [of "v mod b"] by (simp add: dstr_def digs_step numval_snoc)
  qed
qed

lemma dstr_digits: "1 < b \<Longrightarrow> b \<le> 16 \<Longrightarrow> c \<in> set (dstr upper b v) \<Longrightarrow> digit_in (int b) c"
  using digs_bound [of b _ v] digit_dchar
  by (fastforce simp: dstr_def digit_in_def)

lemma dstr_no_0x: "\<not> has_0x (dstr upper b v)" if "1 < b" "b \<le> 16"
proof
  assume "has_0x (dstr upper b v)"
  then have "120 \<in> set (dstr upper b v)" unfolding has_0x_def by (metis in_set_takeD list.set_intros(1,2))
  then have "digit_in (int b) 120" using that dstr_digits by blast
  then show False using that by (simp add: digit_in_def strto_digit_def)
qed

lemma dstr_read:
  assumes "1 < b" "b \<le> 16"
  shows "num_value b (dstr upper b v) = v" "num_length b (dstr upper b v) = length (dstr upper b v)"
    "takeWhile is_ws (dstr upper b v) = []" "dropWhile is_ws (dstr upper b v) = dstr upper b v"
proof -
  have dig: "\<forall>c\<in>set (dstr upper b v). digit_in (int b) c" using dstr_digits assms by blast
  have "num_base b (dstr upper b v) = b" using assms by (simp add: num_base_def)
  moreover have "num_prefix b (dstr upper b v) = 0" using dstr_no_0x [OF assms] by (simp add: num_prefix_def)
  moreover have "takeWhile (digit_in (int b)) (dstr upper b v) = dstr upper b v" using dig takeWhile_eq_all_conv by blast
  ultimately show "num_value b (dstr upper b v) = v" "num_length b (dstr upper b v) = length (dstr upper b v)"
    using assms by (simp_all add: num_value_def num_length_def num_digits_def dstr_numval del: takeWhile_eq_all_conv)
  have "\<not> is_ws (hd (dstr upper b v))" "dstr upper b v \<noteq> []"
    using dig hd_in_set [of "dstr upper b v"] by (auto simp: digit_in_def strto_digit_def dstr_def is_ws_def)
  then show "takeWhile is_ws (dstr upper b v) = []" "dropWhile is_ws (dstr upper b v) = dstr upper b v"
    by (cases "dstr upper b v"; simp)+
qed

text \<open>
  C10. Round trip: in every base that \<open>print_itoa\<close> accepts, 3 to 16, it writes the digits of any 64-bit value to a buffer with room for them and advances the
  buffer pointer past them. If a NUL follows them, \<open>strtoul\<close> in the same base reads the value back and stops at the NUL.
\<close>

theorem itoa_strtoul_roundtrip:
  fixes base :: u16
  assumes "2 < base" "base \<le> 16" "length (dstr upper (unat base) (unat v)) \<le> unat n" "mapped h b (unat n)"
    and "e = b + of_nat (length (dstr upper (unat base) (unat v)))" "h e = Some 0"
  shows "\<exists>h'. print_itoa h b n v base upper = Some (h', e) \<and> arr h' b (dstr upper (unat base) (unat v)) \<and>
    strtoul h' b (int (unat base)) = Some (v, e)"
proof -
  let ?B = "unat base" and ?s = "dstr upper (unat base) (unat v)"
  let ?h = "upd_bytes h b ?s"
  have B: "2 < ?B" "?B \<le> 16" using assms(1,2) by (simp_all add: word_less_nat_alt word_le_nat_alt)
  have le: "length ?s \<le> addr_max" "length ?s < addr_max" using assms(3) unat_less_addr_max [of n] by linarith+
  have "0 \<notin> set ?s"
    using B dstr_digits [of ?B _ upper "unat v"] by (fastforce simp: digit_in_def strto_digit_def)
  moreover have "?h e = Some 0"
    using upd_bytes_outside [OF le(1)] end_notin_region [OF le(2), of b] assms(5,6) by simp
  ultimately have "cstr ?h b ?s" using arr_upd_bytes [OF le(1), of h b] assms(5) by (simp add: cstr_arr arr_append)
  moreover have "\<not> (int ?B < 0 \<or> 36 < int ?B)" "1 < ?B" using B by linarith+
  ultimately have "strtoul ?h b (int ?B) = Some (of_nat (unat v), b + of_nat (length ([] :: u8 list) + length ?s))"
    using strtoul_string [of ?h b ?s "int ?B"] B(2)
    by (simp only: dstr_read Let_def nat_int if_False)
  then have "strtoul ?h b (int ?B) = Some (v, e)" using assms(5) by simp
  moreover have "print_itoa h b n v base upper = Some (?h, e)"
    using print_itoa_fits [of base h b n v upper] assms(3-5) B by (simp add: fits_def emit_def)
  ultimately show ?thesis using arr_upd_bytes [OF le(1), of h b] by blast
qed

theorem itoa_strtoul_roundtrip_witness:
  "\<exists>h'. print_itoa (blk [7, 7, 0]) 0 2 42 16 False = Some (h', 2) \<and> arr h' 0 [50, 97] \<and> strtoul h' 0 16 = Some (42, 2)"
proof -
  have d: "dstr False (unat (16 :: u16)) (unat (42 :: u64)) = [50, 97]" by code_simp
  have "\<exists>h'. print_itoa (blk [7, 7, 0]) 0 2 42 16 False = Some (h', 2) \<and> arr h' 0 (dstr False (unat (16 :: u16)) (unat (42 :: u64))) \<and>
      strtoul h' 0 (int (unat (16 :: u16))) = Some (42, 2)"
    by (rule itoa_strtoul_roundtrip; (unfold d)?) (simp_all add: blk_def dom_def)
  then show ?thesis unfolding d by simp
qed

section \<open>A width overruns the buffer\<close>

text \<open>
  The one conversion that does not respect the buffer size is \<open>%c\<close> with a width: the fill
  uses all the room that is left and the character goes one byte further, so that the NUL
  is written past the end of the buffer. On a buffer of four bytes, \<open>"%5c"\<close> faults.
\<close>

lemma percent_c_overrun:
  "vsnprintf (blk [37, 53, 99, 0]) (blk [0, 0, 0, 0, 0]) 1 4 0 [65] = None"
  by (simp add: vsnprintf_def vsnprintf_loop.simps vsnprintf_spec_def collect_spec.simps formstr_push_def is_conv_def
      print_format_def print_format_loop.simps print_format_switch_def sizec_push_def print_char_def print_fill_def
      strtoul_def strto_ws.simps strto_base_def strto_prefix_def strtoul_loop.simps strto_digit_def
      print_intlen_def print_intlen_loop.simps fill_loop.simps store8_def blk_def)

end
