(* ===== verification/Sim_Vhpi.thy ===== *)
theory Sim_Vhpi
  imports C_Prelude
begin

text \<open>
  \<^verbatim>\<open>sim_vhpi_c.c\<close> and \<^verbatim>\<open>sim_vhpi_c.h\<close>: how the C helpers of the simulation read and write the
  \<open>std_logic_vector\<close> arguments of the VHDL that calls them. A vector is an array with one
  byte per bit, the most significant bit first, \<open>vhpi0\<close> for '0' and \<open>vhpi1\<close> for '1'. The main
  result is that the two directions are inverse to each other, which the other
  simulation helpers build on.

  A helper ends in one of three ways: it returns, it ends the simulation with \<open>exit\<close>,
  or it faults; \<open>sim\<close> is the type of these outcomes.
\<close>

section \<open>Outcomes\<close>

type_synonym 'a sim = "(int + 'a) option"

definition ret :: "'a \<Rightarrow> 'a sim" where
  "ret v = Some (Inr v)"

definition sim_exit :: "int \<Rightarrow> 'a sim" where
  "sim_exit c = Some (Inl c)"

definition mem_op :: "'a option \<Rightarrow> 'a sim" where
  "mem_op m = map_option Inr m"

definition bindS :: "'a sim \<Rightarrow> ('a \<Rightarrow> 'b sim) \<Rightarrow> 'b sim" where
  "bindS m f = (case m of None \<Rightarrow> None | Some (Inl c) \<Rightarrow> Some (Inl c) | Some (Inr v) \<Rightarrow> f v)"

lemma bindS_simps [simp]:
  "bindS (ret v) f = f v"
  "bindS (sim_exit c) f = sim_exit c"
  "bindS None f = None"
  "mem_op (Some v) = ret v"
  "mem_op None = None"
  "ret v = ret w \<longleftrightarrow> v = w"
  "ret v \<noteq> sim_exit c"
  by (simp_all add: bindS_def ret_def sim_exit_def mem_op_def)

section \<open>Definitions\<close>

definition vhpi0 :: u8 where
  "vhpi0 = 2"

definition vhpi1 :: u8 where
  "vhpi1 = 3"

record int_bounds =
  ib_left :: int
  ib_right :: int
  ib_dir :: u8
  ib_len :: u32

record fat_pointer =
  fp_base :: ptr
  fp_bounds :: int_bounds

text \<open>
  \<open>from_string\<close> copies the characters of a VHDL string, which has no terminator, to a new
  object; the model returns its bytes. Running out of memory is not modelled.
\<close>

definition from_string :: "heap \<Rightarrow> fat_pointer \<Rightarrow> u8 list option" where
  "from_string h p = do {
     bs \<leftarrow> load_bytes h (fp_base p) (unat (ib_len (fp_bounds p)));
     Some (bs @ [0])
   }"

primrec from_slv_loop :: "heap \<Rightarrow> ptr \<Rightarrow> nat \<Rightarrow> u64 \<Rightarrow> u64 option" where
  "from_slv_loop h p 0 acc = Some acc"
| "from_slv_loop h p (Suc n) acc = do {
     b \<leftarrow> h p;
     let bt = (if b = vhpi0 then 0 else if b = vhpi1 then 1 else 0);
     from_slv_loop h (p + 1) n (push_bit 1 acc OR bt)
   }"

definition from_std_logic_vector :: "heap \<Rightarrow> ptr \<Rightarrow> u64 \<Rightarrow> u64 sim" where
  "from_std_logic_vector h p len =
     (if 64 < len then sim_exit 1 else mem_op (from_slv_loop h p (unat len) 0))"

text \<open>With \<open>n + 1\<close> bits left the source shifts by \<open>len - 1 - i = n\<close>.\<close>

primrec to_slv_loop :: "u64 \<Rightarrow> heap \<Rightarrow> ptr \<Rightarrow> nat \<Rightarrow> heap option" where
  "to_slv_loop v h p 0 = Some h"
| "to_slv_loop v h p (Suc n) = do {
     h' \<leftarrow> store8 h p (if drop_bit n v AND 1 \<noteq> 0 then vhpi1 else vhpi0);
     to_slv_loop v h' (p + 1) n
   }"

definition to_std_logic_vector :: "u64 \<Rightarrow> heap \<Rightarrow> ptr \<Rightarrow> u64 \<Rightarrow> heap sim" where
  "to_std_logic_vector v h p len =
     (if 64 < len then sim_exit 1 else mem_op (to_slv_loop v h p (unat len)))"

section \<open>Vectors\<close>

text \<open>The vector of the low \<open>n\<close> bits of a word.\<close>

definition slv_bit :: "bool \<Rightarrow> u8" where
  "slv_bit b = (if b then vhpi1 else vhpi0)"

primrec slv :: "nat \<Rightarrow> u64 \<Rightarrow> u8 list" where
  "slv 0 v = []"
| "slv (Suc n) v = slv_bit (bit v n) # slv n v"

lemma length_slv [simp]: "length (slv n v) = n"
  by (induction n) simp_all

lemma slv_cong: "take_bit n v = take_bit n w \<Longrightarrow> slv n v = slv n w"
proof (induction n)
  case (Suc n)
  have "bit v n = bit w n"
    using arg_cong [OF Suc.prems, of "\<lambda>x. bit x n"] by (simp add: bit_take_bit_iff)
  moreover have "take_bit n v = take_bit n w"
    using arg_cong [OF Suc.prems, of "take_bit n"] by (simp add: take_bit_take_bit)
  ultimately show ?case using Suc.IH by simp
qed simp

lemma slv_take_bit [simp]: "slv n (take_bit n v) = slv n v"
  by (rule slv_cong) (simp add: take_bit_take_bit)

lemma drop_bit_and_1: "drop_bit n v AND 1 \<noteq> 0 \<longleftrightarrow> bit v n" for v :: u64
  by (simp add: and_one_eq mod_2_eq_odd bit_iff_odd_drop_bit)

lemma to_slv_loop_eq:
  "mapped h p n \<Longrightarrow> n < addr_max \<Longrightarrow> to_slv_loop v h p n = Some (upd_bytes h p (slv n v))"
proof (induction n arbitrary: h p)
  case (Suc n)
  obtain b where b: "h p = Some b" using Suc.prems(1) by auto
  have "to_slv_loop v (h(p \<mapsto> slv_bit (bit v n))) (p + 1) n
      = Some (upd_bytes (h(p \<mapsto> slv_bit (bit v n))) (p + 1) (slv n v))"
    using Suc.prems by (intro Suc.IH) (auto simp: mapped_def)
  with Suc.prems b show ?case by (simp add: drop_bit_and_1 slv_bit_def upd_bytes_Cons)
qed simp

lemma push_take_Suc:
  "push_bit n (push_bit 1 acc OR of_bool (bit v n)) OR take_bit n v = push_bit (Suc n) acc OR take_bit (Suc n) v"
  for acc v :: u64
  by (rule bit_word_eqI) (auto simp: bit_simps less_Suc_eq)

lemma from_slv_loop_eq:
  "arr h p (slv n v) \<Longrightarrow> from_slv_loop h p n acc = Some (push_bit n acc OR take_bit n v)"
proof (induction n arbitrary: p acc)
  case (Suc n)
  have "from_slv_loop h p (Suc n) acc = from_slv_loop h (p + 1) n (push_bit 1 acc OR of_bool (bit v n))"
    using Suc.prems by (simp add: slv_bit_def vhpi0_def vhpi1_def)
  also have "\<dots> = Some (push_bit (Suc n) acc OR take_bit (Suc n) v)"
    using Suc.prems by (subst Suc.IH) (simp_all only: push_take_Suc slv.simps arr.simps)
  finally show ?case .
qed simp

lemma to_std_logic_vector_eq:
  assumes "mapped h p (unat len)" "len \<le> 64"
  shows "to_std_logic_vector v h p len = ret (upd_bytes h p (slv (unat len) v))"
  using assms to_slv_loop_eq [of h p "unat len" v] by (auto simp: to_std_logic_vector_def)

lemma from_std_logic_vector_eq:
  assumes "arr h p (slv (unat len) v)" "len \<le> 64"
  shows "from_std_logic_vector h p len = ret (take_bit (unat len) v)"
  using assms from_slv_loop_eq [of h p "unat len" v 0] by (auto simp: from_std_logic_vector_def)

lemma arr_slv_64: "arr (blk (slv 64 v)) 0 (slv 64 v)"
  by (simp add: arr_nth blk_def unat_of_nat_addr addr_max_def)

lemma from_slv_64 [simp]: "from_std_logic_vector (blk (slv 64 v)) 0 64 = ret v"
  using from_std_logic_vector_eq [of "blk (slv 64 v)" 0 64 v] arr_slv_64 by (simp add: take_bit_word_eq_self)

lemma slv_surj:
  "set ys \<subseteq> {vhpi0, vhpi1} \<Longrightarrow> length ys \<le> 64 \<Longrightarrow> \<exists>v. slv (length ys) v = ys"
proof (induction ys)
  case (Cons y ys)
  let ?n = "length ys"
  from Cons obtain v where v: "slv ?n v = ys" by auto
  let ?w = "if y = vhpi1 then set_bit ?n v else unset_bit ?n v"
  have "bit ?w ?n = (y = vhpi1)" using Cons.prems(2) by (simp add: bit_simps)
  moreover have "slv ?n ?w = ys"
    using slv_cong [of ?n ?w v] v by (simp add: take_bit_set_bit_eq take_bit_unset_bit_eq)
  ultimately show ?case
    using Cons.prems(1) by (intro exI [of _ ?w]) (auto simp: slv_bit_def)
qed simp

section \<open>Correctness\<close>

text \<open>
  C40. A word written to a vector of \<open>len \<le> 64\<close> bits by \<open>to_std_logic_vector\<close> is read back
  by \<open>from_std_logic_vector\<close> as its low \<open>len\<close> bits, and nothing outside the vector changes.
\<close>

theorem slv_roundtrip:
  assumes "mapped h p (unat len)" "len \<le> 64"
  shows "\<exists>h'. to_std_logic_vector v h p len = ret h' \<and> from_std_logic_vector h' p len = ret (take_bit (unat len) v) \<and>
    (\<forall>a. a \<notin> region p (unat len) \<longrightarrow> h' a = h a)"
proof -
  let ?h = "upd_bytes h p (slv (unat len) v)"
  have le: "length (slv (unat len) v) \<le> addr_max" by (simp add: less_imp_le)
  have "from_std_logic_vector ?h p len = ret (take_bit (unat len) v)"
    using assms(2) arr_upd_bytes [OF le] by (intro from_std_logic_vector_eq)
  with to_std_logic_vector_eq [OF assms] upd_bytes_outside [OF le] show ?thesis by fastforce
qed

theorem slv_roundtrip_witness:
  "\<exists>h'. to_std_logic_vector 5 (blk [0, 0, 0, 7]) 0 3 = ret h' \<and> from_std_logic_vector h' 0 3 = ret 5 \<and> h' 3 = Some 7"
proof -
  have "mapped (blk [0, 0, 0, 7]) 0 (unat (3 :: u64))" by (simp add: blk_def dom_def)
  from slv_roundtrip [OF this, of 5] obtain h' where
    "to_std_logic_vector 5 (blk [0, 0, 0, 7]) 0 3 = ret h'" "from_std_logic_vector h' 0 3 = ret 5"
    "\<forall>a. a \<notin> region 0 3 \<longrightarrow> h' a = blk [0, 0, 0, 7] a"
    by auto
  moreover have "(3 :: u64) \<notin> region 0 3" by (simp add: region_iff addr_max_def)
  ultimately show ?thesis by (auto simp: blk_def)
qed

text \<open>
  A vector without undefined bits survives the other direction: reading it as a word
  and writing the word back restores every bit.
\<close>

theorem slv_vector_roundtrip:
  assumes "arr h p xs" "set xs \<subseteq> {vhpi0, vhpi1}" "length xs \<le> 64"
  shows "\<exists>v. from_std_logic_vector h p (of_nat (length xs)) = ret v \<and> slv (length xs) v = xs"
proof -
  from slv_surj [OF assms(2,3)] obtain v where v: "slv (length xs) v = xs" by blast
  have n: "unat (of_nat (length xs) :: u64) = length xs"
    using assms(3) by (intro unat_of_nat_addr) (simp add: addr_max_def)
  have "(of_nat (length xs) :: u64) \<le> 64" using assms(3) n by (simp add: word_le_nat_alt)
  then have "from_std_logic_vector h p (of_nat (length xs)) = ret (take_bit (length xs) v)"
    using from_std_logic_vector_eq [of h p "of_nat (length xs)" v] assms(1) v n by simp
  then show ?thesis using v by (intro exI [of _ "take_bit (length xs) v"]) simp
qed

theorem slv_vector_roundtrip_witness:
  "\<exists>v. from_std_logic_vector (blk [3, 2, 3]) 0 3 = ret v \<and> slv 3 v = [3, 2, 3]"
  using slv_vector_roundtrip [of "blk [3, 2, 3]" 0 "[3, 2, 3]"]
  by (simp add: blk_def vhpi0_def vhpi1_def numeral_3_eq_3)

end
