(* ===== verification/Sim_Console.thy ===== *)
theory Sim_Console
  imports Sim_Vhpi
begin

text \<open>
  \<^verbatim>\<open>sim_console_c.c\<close>: the host side of the simulated console. \<open>host\<close> is the part of the host
  process these functions touch: what arrives on standard input, what has been printed,
  whether the terminal is in raw mode, and the static flag of \<open>enable_raw_mode\<close>. Every byte of input comes with the number of
  polls that find nothing before it arrives; a blocking \<open>read\<close> waits for the next byte,
  and returns 0 when there will be none.
\<close>

section \<open>Definitions\<close>

record host =
  h_in :: "(nat \<times> u8) list"
  h_out :: "u8 list"
  h_raw :: bool
  h_initialized :: bool

definition enable_raw_mode :: "host \<Rightarrow> host" where
  "enable_raw_mode s = (if \<not> h_initialized s then s\<lparr>h_raw := True, h_initialized := True\<rparr> else s)"

definition disable_raw_mode :: "host \<Rightarrow> host" where
  "disable_raw_mode s = s\<lparr>h_raw := False\<rparr>"

definition sim_console_read :: "heap \<Rightarrow> ptr \<Rightarrow> host \<Rightarrow> (heap \<times> host) sim" where
  "sim_console_read h rt s =
     (let s1 = enable_raw_mode s in
      case h_in s1 of
        [] \<Rightarrow> sim_exit 1
      | (_, c) # rest \<Rightarrow>
          bindS (to_std_logic_vector (ucast c) h rt 64) (\<lambda>h'. ret (h', s1\<lparr>h_in := rest\<rparr>)))"

text \<open>The result of \<open>poll\<close> with a zero timeout, and the input that is left.\<close>

definition host_poll :: "(nat \<times> u8) list \<Rightarrow> bool \<times> (nat \<times> u8) list" where
  "host_poll i =
     (case i of
        [] \<Rightarrow> (False, [])
      | (0, c) # rest \<Rightarrow> (True, i)
      | (Suc n, c) # rest \<Rightarrow> (False, (n, c) # rest))"

definition sim_console_poll :: "heap \<Rightarrow> ptr \<Rightarrow> host \<Rightarrow> (heap \<times> host) sim" where
  "sim_console_poll h rt s =
     (let s1 = enable_raw_mode s;
          (ready, i) = host_poll (h_in s1)
      in bindS (to_std_logic_vector (if ready then 1 else 0) h rt 64) (\<lambda>h'. ret (h', s1\<lparr>h_in := i\<rparr>)))"

definition sim_console_write :: "heap \<Rightarrow> ptr \<Rightarrow> host \<Rightarrow> host sim" where
  "sim_console_write h rs s =
     bindS (from_std_logic_vector h rs 64) (\<lambda>val. ret (s\<lparr>h_out := h_out s @ [ucast val]\<rparr>))"

lemma enable_raw_mode_simps [simp]:
  "h_in (enable_raw_mode s) = h_in s" "h_out (enable_raw_mode s) = h_out s"
  by (simp_all add: enable_raw_mode_def)

section \<open>Calls from the VHDL\<close>

text \<open>
  The simulator passes the address of a 64-element vector: for an \<open>out\<close> parameter a vector
  to fill, which the VHDL then uses as a number.
\<close>

definition vhdl_console_read :: "host \<Rightarrow> (u64 \<times> host) sim" where
  "vhdl_console_read s =
     bindS (sim_console_read (blk (replicate 64 0)) 0 s)
       (\<lambda>(h, s'). bindS (mem_op (from_slv_loop h 0 64 0)) (\<lambda>v. ret (v, s')))"

definition vhdl_console_poll :: "host \<Rightarrow> (u64 \<times> host) sim" where
  "vhdl_console_poll s =
     bindS (sim_console_poll (blk (replicate 64 0)) 0 s)
       (\<lambda>(h, s'). bindS (mem_op (from_slv_loop h 0 64 0)) (\<lambda>v. ret (v, s')))"

definition vhdl_console_write :: "u64 \<Rightarrow> host \<Rightarrow> host sim" where
  "vhdl_console_write v s = sim_console_write (blk (slv 64 v)) 0 s"

lemma mapped_vector: "mapped (blk (replicate 64 0)) 0 64"
  by (auto simp: mapped_def region_def blk_def unat_of_nat_addr addr_max_def)

lemma vhdl_vector:
  "bindS (to_std_logic_vector v (blk (replicate 64 0)) 0 64) (\<lambda>h. bindS (mem_op (from_slv_loop h 0 64 0)) f) = f v"
proof -
  let ?h = "upd_bytes (blk (replicate 64 0)) 0 (slv 64 v)"
  have "to_std_logic_vector v (blk (replicate 64 0)) 0 64 = ret ?h"
    using to_std_logic_vector_eq [of "blk (replicate 64 0)" 0 64 v] mapped_vector by simp
  moreover have "from_slv_loop ?h 0 64 0 = Some v"
    using from_slv_loop_eq [of ?h 0 64 v 0] arr_upd_bytes [of "slv 64 v"]
    by (simp add: addr_max_def take_bit_word_eq_self)
  ultimately show ?thesis by simp
qed

lemma bindS_assoc: "bindS (bindS m f) g = bindS m (\<lambda>x. bindS (f x) g)"
  by (simp add: bindS_def split: option.split sum.split)

lemma vhdl_console_read_eq:
  "vhdl_console_read s =
     (case h_in s of [] \<Rightarrow> sim_exit 1 | (_, c) # rest \<Rightarrow> ret (ucast c, (enable_raw_mode s)\<lparr>h_in := rest\<rparr>))"
  by (cases s)
    (auto simp: vhdl_console_read_def sim_console_read_def bindS_assoc vhdl_vector
      split: list.split)

lemma vhdl_console_poll_eq:
  "vhdl_console_poll s =
     ret (of_bool (fst (host_poll (h_in s))), (enable_raw_mode s)\<lparr>h_in := snd (host_poll (h_in s))\<rparr>)"
  by (cases s)
    (auto simp: vhdl_console_poll_def sim_console_poll_def bindS_assoc vhdl_vector
      split: prod.split)

lemma vhdl_console_write_eq: "vhdl_console_write v s = ret (s\<lparr>h_out := h_out s @ [ucast v]\<rparr>)"
  by (simp add: vhdl_console_write_def sim_console_write_def)

end
