(* ===== verification/Soc.thy ===== *)
theory Soc
  imports Sim_Console
begin

text \<open>
  What the firmware sees of the system on chip: the accessors of \<^verbatim>\<open>include/io.h\<close>, the addresses
  and register bits of \<^verbatim>\<open>include/microwatt_soc.h\<close> that it uses, and the devices behind them
  in the simulation: the system controller (\<^verbatim>\<open>syscon.vhdl\<close>) and the two consoles
  (\<^verbatim>\<open>sim_pp_uart.vhdl\<close>, \<^verbatim>\<open>sim_16550_uart.vhdl\<close>), which call \<^verbatim>\<open>sim_console_c.c\<close>.

  The firmware is modelled over an arbitrary bus. A device model is one access at a
  time: a read or a write of a register with its effects; \<open>None\<close> is an access that does
  not complete, because the simulation ends or because no device answers.
\<close>

section \<open>The bus\<close>

record 'd bus =
  bus_rd :: "nat \<Rightarrow> u64 \<Rightarrow> 'd \<Rightarrow> (u64 \<times> 'd) option"
  bus_wr :: "nat \<Rightarrow> u64 \<Rightarrow> u64 \<Rightarrow> 'd \<Rightarrow> 'd option"

definition readb :: "('d, 'e) bus_scheme \<Rightarrow> u64 \<Rightarrow> 'd \<Rightarrow> (u8 \<times> 'd) option" where
  "readb b addr d = map_option (\<lambda>(v, d'). (ucast v, d')) (bus_rd b 1 addr d)"

definition readw :: "('d, 'e) bus_scheme \<Rightarrow> u64 \<Rightarrow> 'd \<Rightarrow> (u16 \<times> 'd) option" where
  "readw b addr d = map_option (\<lambda>(v, d'). (ucast v, d')) (bus_rd b 2 addr d)"

definition readl :: "('d, 'e) bus_scheme \<Rightarrow> u64 \<Rightarrow> 'd \<Rightarrow> (u32 \<times> 'd) option" where
  "readl b addr d = map_option (\<lambda>(v, d'). (ucast v, d')) (bus_rd b 4 addr d)"

definition readq :: "('d, 'e) bus_scheme \<Rightarrow> u64 \<Rightarrow> 'd \<Rightarrow> (u64 \<times> 'd) option" where
  "readq b addr d = bus_rd b 8 addr d"

definition writeb :: "('d, 'e) bus_scheme \<Rightarrow> u8 \<Rightarrow> u64 \<Rightarrow> 'd \<Rightarrow> 'd option" where
  "writeb b val addr d = bus_wr b 1 addr (ucast val) d"

definition writew :: "('d, 'e) bus_scheme \<Rightarrow> u16 \<Rightarrow> u64 \<Rightarrow> 'd \<Rightarrow> 'd option" where
  "writew b val addr d = bus_wr b 2 addr (ucast val) d"

definition writel :: "('d, 'e) bus_scheme \<Rightarrow> u32 \<Rightarrow> u64 \<Rightarrow> 'd \<Rightarrow> 'd option" where
  "writel b val addr d = bus_wr b 4 addr (ucast val) d"

definition writeq :: "('d, 'e) bus_scheme \<Rightarrow> u64 \<Rightarrow> u64 \<Rightarrow> 'd \<Rightarrow> 'd option" where
  "writeq b val addr d = bus_wr b 8 addr val d"

section \<open>Memory map and registers\<close>

definition DRAM_BASE :: u64 where "DRAM_BASE = 0x40000000"
definition SYSCON_BASE :: u64 where "SYSCON_BASE = 0xc0000000"
definition UART_BASE :: u64 where "UART_BASE = 0xc0002000"
definition SPI_FCTRL_BASE :: u64 where "SPI_FCTRL_BASE = 0xc0006000"
definition SPI_FLASH_BASE :: u64 where "SPI_FLASH_BASE = 0xf0000000"
definition DRAM_INIT_BASE :: u64 where "DRAM_INIT_BASE = 0xff000000"

definition SYS_REG_SIGNATURE :: u64 where "SYS_REG_SIGNATURE = 0x00"
definition SYS_REG_INFO :: u64 where "SYS_REG_INFO = 0x08"
definition SYS_REG_INFO_HAS_UART :: u64 where "SYS_REG_INFO_HAS_UART = push_bit 0 1"
definition SYS_REG_INFO_HAS_DRAM :: u64 where "SYS_REG_INFO_HAS_DRAM = push_bit 1 1"
definition SYS_REG_INFO_HAS_BRAM :: u64 where "SYS_REG_INFO_HAS_BRAM = push_bit 2 1"
definition SYS_REG_INFO_HAS_SPI_FLASH :: u64 where "SYS_REG_INFO_HAS_SPI_FLASH = push_bit 3 1"
definition SYS_REG_INFO_HAS_LITEETH :: u64 where "SYS_REG_INFO_HAS_LITEETH = push_bit 4 1"
definition SYS_REG_INFO_HAS_LARGE_SYSCON :: u64 where "SYS_REG_INFO_HAS_LARGE_SYSCON = push_bit 5 1"
definition SYS_REG_INFO_HAS_LITESDCARD :: u64 where "SYS_REG_INFO_HAS_LITESDCARD = push_bit 8 1"
definition SYS_REG_BRAMINFO :: u64 where "SYS_REG_BRAMINFO = 0x10"
definition SYS_REG_BRAMINFO_SIZE_MASK :: u64 where "SYS_REG_BRAMINFO_SIZE_MASK = 0xfffffffffffff"
definition SYS_REG_DRAMINFO :: u64 where "SYS_REG_DRAMINFO = 0x18"
definition SYS_REG_DRAMINFO_SIZE_MASK :: u64 where "SYS_REG_DRAMINFO_SIZE_MASK = 0xfffffffffffff"
definition SYS_REG_CLKINFO :: u64 where "SYS_REG_CLKINFO = 0x20"
definition SYS_REG_CLKINFO_FREQ_MASK :: u64 where "SYS_REG_CLKINFO_FREQ_MASK = 0xffffffffff"
definition SYS_REG_CTRL :: u64 where "SYS_REG_CTRL = 0x28"
definition SYS_REG_CTRL_ALT_RESET :: u64 where "SYS_REG_CTRL_ALT_RESET = push_bit 3 1"
definition SYS_REG_DRAMINITINFO :: u64 where "SYS_REG_DRAMINITINFO = 0x30"
definition SYS_REG_SPI_INFO :: u64 where "SYS_REG_SPI_INFO = 0x38"
definition SYS_REG_SPI_INFO_FLASH_OFF_MASK :: u64 where "SYS_REG_SPI_INFO_FLASH_OFF_MASK = 0xffffffff"
definition SYS_REG_UART0_INFO :: u64 where "SYS_REG_UART0_INFO = 0x40"
definition SYS_REG_UART_IS_16550 :: u64 where "SYS_REG_UART_IS_16550 = push_bit 32 1"

definition SYS_REG_GIT_INFO :: u64 where "SYS_REG_GIT_INFO = 0x50"

definition POTATO_CONSOLE_TX :: u64 where "POTATO_CONSOLE_TX = 0x00"
definition POTATO_CONSOLE_RX :: u64 where "POTATO_CONSOLE_RX = 0x08"
definition POTATO_CONSOLE_STATUS :: u64 where "POTATO_CONSOLE_STATUS = 0x10"
definition POTATO_CONSOLE_STATUS_RX_EMPTY :: u64 where "POTATO_CONSOLE_STATUS_RX_EMPTY = 0x01"
definition POTATO_CONSOLE_STATUS_TX_FULL :: u64 where "POTATO_CONSOLE_STATUS_TX_FULL = 0x08"
definition POTATO_CONSOLE_CLOCK_DIV :: u64 where "POTATO_CONSOLE_CLOCK_DIV = 0x18"
definition POTATO_CONSOLE_IRQ_EN :: u64 where "POTATO_CONSOLE_IRQ_EN = 0x20"
definition POTATO_CONSOLE_IRQ_RX :: u64 where "POTATO_CONSOLE_IRQ_RX = 0x01"
definition POTATO_CONSOLE_IRQ_TX :: u64 where "POTATO_CONSOLE_IRQ_TX = 0x02"

definition UART_REG_RX :: u64 where "UART_REG_RX = 0x00"
definition UART_REG_TX :: u64 where "UART_REG_TX = 0x00"
definition UART_REG_DLL :: u64 where "UART_REG_DLL = 0x00"
definition UART_REG_IER :: u64 where "UART_REG_IER = 0x04"
definition UART_REG_IER_RDI :: u8 where "UART_REG_IER_RDI = 0x01"
definition UART_REG_IER_THRI :: u8 where "UART_REG_IER_THRI = 0x02"
definition UART_REG_DLM :: u64 where "UART_REG_DLM = 0x04"
definition UART_REG_FCR :: u64 where "UART_REG_FCR = 0x08"
definition UART_REG_FCR_EN_FIFO :: u8 where "UART_REG_FCR_EN_FIFO = 0x01"
definition UART_REG_FCR_CLR_RCVR :: u8 where "UART_REG_FCR_CLR_RCVR = 0x02"
definition UART_REG_FCR_CLR_XMIT :: u8 where "UART_REG_FCR_CLR_XMIT = 0x04"
definition UART_REG_LCR :: u64 where "UART_REG_LCR = 0x0c"
definition UART_REG_LCR_8BIT :: u8 where "UART_REG_LCR_8BIT = 0x03"
definition UART_REG_LCR_DLAB :: u8 where "UART_REG_LCR_DLAB = 0x80"
definition UART_REG_MCR :: u64 where "UART_REG_MCR = 0x10"
definition UART_REG_MCR_DTR :: u8 where "UART_REG_MCR_DTR = 0x01"
definition UART_REG_MCR_RTS :: u8 where "UART_REG_MCR_RTS = 0x02"
definition UART_REG_LSR :: u64 where "UART_REG_LSR = 0x14"
definition UART_REG_LSR_DR :: u8 where "UART_REG_LSR_DR = 0x01"
definition UART_REG_LSR_THRE :: u8 where "UART_REG_LSR_THRE = 0x20"

definition SPI_REG_DATA :: u64 where "SPI_REG_DATA = 0x00"
definition SPI_REG_CTRL :: u64 where "SPI_REG_CTRL = 0x04"
definition SPI_REG_CTRL_MANUAL_CS :: u8 where "SPI_REG_CTRL_MANUAL_CS = 0x02"
definition SPI_REG_AUTO_CFG :: u64 where "SPI_REG_AUTO_CFG = 0x08"
definition SPI_REG_AUTO_CFG_DUMMIES_SHIFT :: nat where "SPI_REG_AUTO_CFG_DUMMIES_SHIFT = 8"
definition SPI_REG_AUT_CFG_MODE_QUAD :: u32 where "SPI_REG_AUT_CFG_MODE_QUAD = push_bit 11 3"
definition SPI_REG_AUTO_CFG_ADDR4 :: u32 where "SPI_REG_AUTO_CFG_ADDR4 = push_bit 13 1"
definition SPI_REG_AUTO_CFG_CKDIV_SHIFT :: nat where "SPI_REG_AUTO_CFG_CKDIV_SHIFT = 16"
definition SPI_REG_AUTO_CFG_CKDIV_MASK :: u32 where
  "SPI_REG_AUTO_CFG_CKDIV_MASK = push_bit SPI_REG_AUTO_CFG_CKDIV_SHIFT 0xff"
definition SPI_REG_AUTO_CFG_CSTOUT_SHIFT :: nat where "SPI_REG_AUTO_CFG_CSTOUT_SHIFT = 24"

lemmas uart_regs = POTATO_CONSOLE_TX_def POTATO_CONSOLE_RX_def POTATO_CONSOLE_STATUS_def
  POTATO_CONSOLE_STATUS_RX_EMPTY_def POTATO_CONSOLE_STATUS_TX_FULL_def POTATO_CONSOLE_CLOCK_DIV_def
  POTATO_CONSOLE_IRQ_EN_def POTATO_CONSOLE_IRQ_RX_def POTATO_CONSOLE_IRQ_TX_def
  UART_REG_RX_def UART_REG_TX_def UART_REG_DLL_def UART_REG_IER_def UART_REG_IER_RDI_def UART_REG_IER_THRI_def
  UART_REG_DLM_def UART_REG_FCR_def UART_REG_FCR_EN_FIFO_def UART_REG_FCR_CLR_RCVR_def UART_REG_FCR_CLR_XMIT_def
  UART_REG_LCR_def UART_REG_LCR_8BIT_def UART_REG_LCR_DLAB_def UART_REG_MCR_def UART_REG_MCR_DTR_def
  UART_REG_MCR_RTS_def UART_REG_LSR_def UART_REG_LSR_DR_def UART_REG_LSR_THRE_def

lemmas bus_access = readb_def readw_def readl_def readq_def writeb_def writew_def writel_def writeq_def

end
