(* ===== verification/Soc_Devices.thy ===== *)
theory Soc_Devices
  imports Soc
begin

text \<open>
  The devices of the simulated system on chip that the console driver talks to, one
  register access at a time: the system controller, the simulated potato UART and the
  simulated 16550, both on top of the host console. \<open>pp_bus\<close> and \<open>std_bus\<close> are the buses of
  the two configurations, decoded as in \<^verbatim>\<open>soc.vhdl\<close>.
\<close>

section \<open>System controller\<close>

text \<open>The generics of the entity, and the registers that can be written.\<close>

record syscon =
  NCPUS :: nat
  SIG_VALUE :: u64
  CLK_FREQ :: nat
  HAS_UART :: bool
  HAS_DRAM :: bool
  BRAM_SIZE :: nat
  DRAM_SIZE :: nat
  DRAM_INIT_SIZE :: nat
  HAS_SPI_FLASH :: bool
  SPI_FLASH_OFFSET :: nat
  HAS_LITEETH :: bool
  HAS_SD_CARD :: bool
  HAS_SD_CARD2 :: bool
  UART0_IS_16550 :: bool
  HAS_UART1 :: bool
  GIT_HASH :: "56 word"
  GIT_DIRTY :: bool
  reg_ctrl :: u64
  cpu_enable :: u8
  tb_ctrl :: u64

definition reg_info :: "syscon \<Rightarrow> u64" where
  "reg_info s = of_bool (HAS_UART s) OR push_bit 1 (of_bool (HAS_DRAM s)) OR push_bit 2 (of_bool (BRAM_SIZE s \<noteq> 0)) OR
     push_bit 3 (of_bool (HAS_SPI_FLASH s)) OR push_bit 4 (of_bool (HAS_LITEETH s)) OR push_bit 5 1 OR
     push_bit 6 (of_bool (HAS_UART1 s)) OR push_bit 8 (of_bool (HAS_SD_CARD s)) OR push_bit 9 (of_bool (HAS_SD_CARD2 s))"

definition reg_uart0info :: "syscon \<Rightarrow> u64" where
  "reg_uart0info s = push_bit 32 (of_bool (UART0_IS_16550 s)) OR take_bit 32 (of_nat (CLK_FREQ s))"

definition reg_gitinfo :: "syscon \<Rightarrow> u64" where
  "reg_gitinfo s = push_bit 63 (of_bool (GIT_DIRTY s)) OR ucast (GIT_HASH s)"

definition syscon_read :: "syscon \<Rightarrow> u64 \<Rightarrow> u64" where
  "syscon_read s r =
     (if r = 0x00 then SIG_VALUE s
      else if r = 0x08 then reg_info s
      else if r = 0x10 then take_bit 52 (of_nat (BRAM_SIZE s))
      else if r = 0x18 then (if HAS_DRAM s then take_bit 52 (of_nat (DRAM_SIZE s)) else 0)
      else if r = 0x20 then take_bit 40 (of_nat (CLK_FREQ s))
      else if r = 0x28 then take_bit 4 (reg_ctrl s)
      else if r = 0x30 then (if HAS_DRAM s then take_bit 52 (of_nat (DRAM_INIT_SIZE s)) else 0)
      else if r = 0x38 then take_bit 32 (of_nat (SPI_FLASH_OFFSET s))
      else if r = 0x40 then reg_uart0info s
      else if r = 0x48 then push_bit 32 1 OR take_bit 32 (of_nat (CLK_FREQ s))
      else if r = 0x50 then reg_gitinfo s
      else if r = 0x58 then push_bit 8 (of_nat (NCPUS s)) OR ucast (cpu_enable s)
      else if r = 0x60 then take_bit 2 (tb_ctrl s)
      else 0)"

text \<open>The reset bits of the control register clear themselves; without BRAM, DRAM is at 0.\<close>

definition syscon_write :: "u64 \<Rightarrow> u64 \<Rightarrow> syscon \<Rightarrow> syscon" where
  "syscon_write r v s =
     (let s1 = (if r = 0x28 then s\<lparr>reg_ctrl := take_bit 4 v\<rparr>
                else if r = 0x58 then s\<lparr>cpu_enable := ucast v\<rparr>
                else if r = 0x60 then s\<lparr>tb_ctrl := take_bit 2 v\<rparr> else s);
          c = unset_bit 1 (unset_bit 2 (reg_ctrl s1))
      in s1\<lparr>reg_ctrl := (if BRAM_SIZE s1 = 0 then c OR 1 else c)\<rparr>)"

section \<open>Simulated potato UART\<close>

record pp_uart =
  pp_div :: u8
  pp_irq_recv :: bool
  pp_irq_tx :: bool
  pp_host :: host

definition pp_read :: "u64 \<Rightarrow> pp_uart \<Rightarrow> (u8 \<times> pp_uart) sim" where
  "pp_read adr u =
     (if adr = 0x008 then
        bindS (vhdl_console_read (pp_host u)) (\<lambda>(v, s). ret (ucast v, u\<lparr>pp_host := s\<rparr>))
      else if adr = 0x010 then
        bindS (vhdl_console_poll (pp_host u))
          (\<lambda>(v, s). ret (push_bit 2 (of_bool (bit v 0)) OR 2 OR of_bool (\<not> bit v 0), u\<lparr>pp_host := s\<rparr>))
      else if adr = 0x018 then ret (pp_div u, u)
      else if adr = 0x020 then ret (of_bool (pp_irq_recv u) OR push_bit 1 (of_bool (pp_irq_tx u)), u)
      else ret (0, u))"

definition pp_write :: "u64 \<Rightarrow> u8 \<Rightarrow> pp_uart \<Rightarrow> pp_uart sim" where
  "pp_write adr v u =
     (if adr = 0x000 then bindS (vhdl_console_write (ucast v) (pp_host u)) (\<lambda>s. ret (u\<lparr>pp_host := s\<rparr>))
      else if adr = 0x018 then ret (u\<lparr>pp_div := v\<rparr>)
      else if adr = 0x020 then ret (u\<lparr>pp_irq_recv := bit v 0, pp_irq_tx := bit v 1\<rparr>)
      else ret u)"

section \<open>Simulated 16550\<close>

text \<open>
  Every access takes two clocks, which lets the effects of one access reach the status
  registers before the next. Incoming data is polled on reads of the line status only:
  the poll counter of the source is not counted down outside the poll itself.
\<close>

record uart_top =
  u_ier :: u8
  u_fcr :: u8
  u_lcr :: u8
  u_mcr :: u8
  u_scr :: u8
  u_div :: u16
  u_data :: u8
  u_pending :: bool
  u_host :: host

definition u_dlab :: "uart_top \<Rightarrow> bool" where
  "u_dlab u = bit (u_lcr u) 7"

definition u_iir :: "uart_top \<Rightarrow> u8" where
  "u_iir u = (if u_pending u \<and> bit (u_ier u) 0 then 4 else if bit (u_ier u) 1 then 2 else 1)"

definition u_lsr :: "uart_top \<Rightarrow> u8" where
  "u_lsr u = 0x60 OR of_bool (u_pending u)"

definition u_poll :: "uart_top \<Rightarrow> uart_top sim" where
  "u_poll u =
     bindS (vhdl_console_poll (u_host u)) (\<lambda>(v, s).
       let u1 = u\<lparr>u_host := s\<rparr> in
       if \<not> u_pending u \<and> bit v 0 then
         bindS (vhdl_console_read s) (\<lambda>(c, s'). ret (u1\<lparr>u_pending := True, u_data := ucast c, u_host := s'\<rparr>))
       else ret u1)"

definition std_read :: "u64 \<Rightarrow> uart_top \<Rightarrow> (u8 \<times> uart_top) sim" where
  "std_read idx u =
     (if idx = 0 then
        (if u_dlab u then ret (ucast (u_div u), u) else ret (u_data u, u\<lparr>u_pending := False, u_data := 0\<rparr>))
      else if idx = 1 then ret (if u_dlab u then ucast (drop_bit 8 (u_div u)) else u_ier u, u)
      else if idx = 2 then ret (0xC0 OR u_iir u, u)
      else if idx = 3 then ret (u_lcr u, u)
      else if idx = 5 then bindS (u_poll u) (\<lambda>u'. ret (u_lsr u, u'))
      else if idx = 7 then ret (u_scr u, u)
      else ret (0, u))"

definition std_write :: "u64 \<Rightarrow> u8 \<Rightarrow> uart_top \<Rightarrow> uart_top sim" where
  "std_write idx v u =
     (if idx = 0 then
        (if u_dlab u then ret (u\<lparr>u_div := push_bit 8 (drop_bit 8 (u_div u)) OR ucast v\<rparr>)
         else bindS (vhdl_console_write (ucast v) (u_host u)) (\<lambda>s. ret (u\<lparr>u_host := s\<rparr>)))
      else if idx = 1 then
        (if u_dlab u then ret (u\<lparr>u_div := push_bit 8 (ucast v) OR take_bit 8 (u_div u)\<rparr>)
         else ret (u\<lparr>u_ier := take_bit 4 v\<rparr>))
      else if idx = 2 then ret (u\<lparr>u_fcr := drop_bit 6 v\<rparr>)
      else if idx = 3 then ret (u\<lparr>u_lcr := v\<rparr>)
      else if idx = 4 then ret (u\<lparr>u_mcr := take_bit 5 v\<rparr>)
      else if idx = 7 then ret (u\<lparr>u_scr := v\<rparr>)
      else ret u)"

section \<open>Buses\<close>

text \<open>
  The IO bus is 32 bits wide: a doubleword access is an access to the low word and then one
  to the high word, a narrower one selects its bytes of the word. A UART has one byte in the
  low lane of each word. Accesses that are not naturally aligned, or writes to the other
  lanes of a word, are not modelled and do not complete.
\<close>

record 'u soc =
  soc_sys :: syscon
  soc_uart :: 'u

definition sim_ok :: "'a sim \<Rightarrow> 'a option" where
  "sim_ok m = (case m of Some (Inr v) \<Rightarrow> Some v | _ \<Rightarrow> None)"

lemma sim_ok_simps [simp]: "sim_ok (ret v) = Some v" "sim_ok (sim_exit c) = None" "sim_ok None = None"
  by (simp_all add: sim_ok_def ret_def sim_exit_def)

definition in_window :: "u64 \<Rightarrow> u64 \<Rightarrow> bool" where
  "in_window base addr \<longleftrightarrow> addr AND NOT 0xfff = base"

definition sio_rd :: "(u64 \<Rightarrow> 'u \<Rightarrow> (u8 \<times> 'u) sim) \<Rightarrow> u64 \<Rightarrow> 'u soc \<Rightarrow> (u32 \<times> 'u soc) option" where
  "sio_rd uart_rd a d =
     (if in_window SYSCON_BASE a then
        (let r = syscon_read (soc_sys d) (a AND 0x1f8) in Some (ucast (if a AND 4 \<noteq> 0 then drop_bit 32 r else r), d))
      else if in_window UART_BASE a then
        map_option (\<lambda>(v, u). (ucast v, d\<lparr>soc_uart := u\<rparr>)) (sim_ok (uart_rd (a - UART_BASE) (soc_uart d)))
      else None)"

definition sio_wr :: "(u64 \<Rightarrow> u8 \<Rightarrow> 'u \<Rightarrow> 'u sim) \<Rightarrow> u64 \<Rightarrow> u32 \<Rightarrow> 'u soc \<Rightarrow> 'u soc option" where
  "sio_wr uart_wr a v d =
     (if in_window SYSCON_BASE a then Some (d\<lparr>soc_sys := syscon_write (a AND 0x1fc) (ucast v) (soc_sys d)\<rparr>)
      else if in_window UART_BASE a then
        map_option (\<lambda>u. d\<lparr>soc_uart := u\<rparr>) (sim_ok (uart_wr (a - UART_BASE) (ucast v) (soc_uart d)))
      else None)"

definition soc_rd :: "(u64 \<Rightarrow> 'u \<Rightarrow> (u8 \<times> 'u) sim) \<Rightarrow> nat \<Rightarrow> u64 \<Rightarrow> 'u soc \<Rightarrow> (u64 \<times> 'u soc) option" where
  "soc_rd uart_rd n addr d =
     (if unat addr mod n \<noteq> 0 then None
      else if n = 8 then do {
        (lo, d1) \<leftarrow> sio_rd uart_rd addr d;
        (hi, d2) \<leftarrow> sio_rd uart_rd (addr + 4) d1;
        Some (ucast lo OR push_bit 32 (ucast hi), d2)
      }
      else do {
        (w, d1) \<leftarrow> sio_rd uart_rd (addr AND NOT 3) d;
        Some (drop_bit (8 * (unat addr mod 4)) (ucast w), d1)
      })"

definition soc_wr :: "(u64 \<Rightarrow> u8 \<Rightarrow> 'u \<Rightarrow> 'u sim) \<Rightarrow> nat \<Rightarrow> u64 \<Rightarrow> u64 \<Rightarrow> 'u soc \<Rightarrow> 'u soc option" where
  "soc_wr uart_wr n addr v d =
     (if n = 8 then
        if addr AND 7 \<noteq> 0 then None
        else do { d1 \<leftarrow> sio_wr uart_wr addr (ucast v) d; sio_wr uart_wr (addr + 4) (ucast (drop_bit 32 v)) d1 }
      else if addr AND 3 \<noteq> 0 then None
      else sio_wr uart_wr addr (ucast v) d)"

definition pp_bus :: "pp_uart soc bus" where
  "pp_bus = \<lparr>bus_rd = soc_rd pp_read, bus_wr = soc_wr pp_write\<rparr>"

text \<open>The registers of the 16550 are four bytes apart.\<close>

definition std_bus :: "uart_top soc bus" where
  "std_bus = \<lparr>bus_rd = soc_rd (\<lambda>off. std_read (take_bit 3 (drop_bit 2 off))),
    bus_wr = soc_wr (\<lambda>off. std_write (take_bit 3 (drop_bit 2 off)))\<rparr>"

end
