(* ===== verification/Console.thy ===== *)
theory Console
  imports Soc_Devices Libc_Str
begin

text \<open>
  \<^verbatim>\<open>lib/console.c\<close>: the console driver the firmware uses, for the potato UART and for a 16550.
  Its two static variables are the record \<open>console\<close>; every function takes the bus, the
  state of the devices behind it and returns the new state. The polling loops may run
  forever, so they are \<^theory_text>\<open>partial_function\<close>s.

  The driver is verified against the interface \<open>serial\<close>, a port that transmits and receives
  bytes; both drivers together with the simulated hardware provide it, and \<open>putchar\<close>,
  \<open>puts\<close> and \<open>getchar\<close> follow once for all.
\<close>

section \<open>Definitions\<close>

record console =
  uart_is_std :: bool
  uart_base :: u64

definition UART_BAUDS :: u64 where
  "UART_BAUDS = 115200"

definition uart_divisor :: "u64 \<Rightarrow> u64 \<Rightarrow> u64" where
  "uart_divisor uart_freq bauds = uart_freq div (bauds * 16)"

subsection \<open>Potato UART\<close>

definition potato_uart_reg_read :: "('d, 'e) bus_scheme \<Rightarrow> u64 \<Rightarrow> u64 \<Rightarrow> 'd \<Rightarrow> (u64 \<times> 'd) option" where
  "potato_uart_reg_read b base offset d = readq b (base + offset) d"

definition potato_uart_reg_write :: "('d, 'e) bus_scheme \<Rightarrow> u64 \<Rightarrow> u64 \<Rightarrow> u64 \<Rightarrow> 'd \<Rightarrow> 'd option" where
  "potato_uart_reg_write b base offset val d = writeq b val (base + offset) d"

definition potato_uart_rx_empty :: "('d, 'e) bus_scheme \<Rightarrow> u64 \<Rightarrow> 'd \<Rightarrow> (bool \<times> 'd) option" where
  "potato_uart_rx_empty b base d = do {
     (val, d') \<leftarrow> potato_uart_reg_read b base POTATO_CONSOLE_STATUS d;
     Some (val AND POTATO_CONSOLE_STATUS_RX_EMPTY \<noteq> 0, d')
   }"

definition potato_uart_tx_full :: "('d, 'e) bus_scheme \<Rightarrow> u64 \<Rightarrow> 'd \<Rightarrow> (bool \<times> 'd) option" where
  "potato_uart_tx_full b base d = do {
     (val, d') \<leftarrow> potato_uart_reg_read b base POTATO_CONSOLE_STATUS d;
     Some (val AND POTATO_CONSOLE_STATUS_TX_FULL \<noteq> 0, d')
   }"

definition potato_uart_read :: "('d, 'e) bus_scheme \<Rightarrow> u64 \<Rightarrow> 'd \<Rightarrow> (u8 \<times> 'd) option" where
  "potato_uart_read b base d = do {
     (val, d') \<leftarrow> potato_uart_reg_read b base POTATO_CONSOLE_RX d;
     Some (ucast (val AND 0x000000ff), d')
   }"

definition potato_uart_write :: "('d, 'e) bus_scheme \<Rightarrow> u64 \<Rightarrow> u8 \<Rightarrow> 'd \<Rightarrow> 'd option" where
  "potato_uart_write b base c d = potato_uart_reg_write b base POTATO_CONSOLE_TX (ucast c) d"

definition potato_uart_init :: "('d, 'e) bus_scheme \<Rightarrow> u64 \<Rightarrow> u64 \<Rightarrow> 'd \<Rightarrow> 'd option" where
  "potato_uart_init b base uart_freq d =
     potato_uart_reg_write b base POTATO_CONSOLE_CLOCK_DIV (uart_divisor uart_freq UART_BAUDS - 1) d"

definition potato_uart_set_irq_en :: "('d, 'e) bus_scheme \<Rightarrow> u64 \<Rightarrow> bool \<Rightarrow> bool \<Rightarrow> 'd \<Rightarrow> 'd option" where
  "potato_uart_set_irq_en b base rx_irq tx_irq d =
     (let en = (if rx_irq then POTATO_CONSOLE_IRQ_RX else 0) OR (if tx_irq then POTATO_CONSOLE_IRQ_TX else 0)
      in potato_uart_reg_write b base POTATO_CONSOLE_IRQ_EN en d)"

subsection \<open>16550 UART\<close>

definition std_uart_rx_empty :: "('d, 'e) bus_scheme \<Rightarrow> u64 \<Rightarrow> 'd \<Rightarrow> (bool \<times> 'd) option" where
  "std_uart_rx_empty b base d = do {
     (v, d') \<leftarrow> readb b (base + UART_REG_LSR) d;
     Some (v AND UART_REG_LSR_DR = 0, d')
   }"

definition std_uart_read :: "('d, 'e) bus_scheme \<Rightarrow> u64 \<Rightarrow> 'd \<Rightarrow> (u8 \<times> 'd) option" where
  "std_uart_read b base d = readb b (base + UART_REG_RX) d"

definition std_uart_tx_full :: "('d, 'e) bus_scheme \<Rightarrow> u64 \<Rightarrow> 'd \<Rightarrow> (bool \<times> 'd) option" where
  "std_uart_tx_full b base d = do {
     (v, d') \<leftarrow> readb b (base + UART_REG_LSR) d;
     Some (v AND UART_REG_LSR_THRE = 0, d')
   }"

definition std_uart_write :: "('d, 'e) bus_scheme \<Rightarrow> u64 \<Rightarrow> u8 \<Rightarrow> 'd \<Rightarrow> 'd option" where
  "std_uart_write b base c d = writeb b c (base + UART_REG_TX) d"

definition std_uart_set_irq_en :: "('d, 'e) bus_scheme \<Rightarrow> u64 \<Rightarrow> bool \<Rightarrow> bool \<Rightarrow> 'd \<Rightarrow> 'd option" where
  "std_uart_set_irq_en b base rx_irq tx_irq d =
     (let ier = (if tx_irq then UART_REG_IER_THRI else 0) OR (if rx_irq then UART_REG_IER_RDI else 0)
      in writeb b ier (base + UART_REG_IER) d)"

definition std_uart_init :: "('d, 'e) bus_scheme \<Rightarrow> u64 \<Rightarrow> u64 \<Rightarrow> 'd \<Rightarrow> 'd option" where
  "std_uart_init b base uart_freq d =
     (let dv = uart_divisor uart_freq UART_BAUDS in do {
        d1 \<leftarrow> writeb b UART_REG_LCR_DLAB (base + UART_REG_LCR) d;
        d2 \<leftarrow> writeb b (ucast (dv AND 0xff)) (base + UART_REG_DLL) d1;
        d3 \<leftarrow> writeb b (ucast (drop_bit 8 dv)) (base + UART_REG_DLM) d2;
        d4 \<leftarrow> writeb b UART_REG_LCR_8BIT (base + UART_REG_LCR) d3;
        d5 \<leftarrow> writeb b (UART_REG_MCR_DTR OR UART_REG_MCR_RTS) (base + UART_REG_MCR) d4;
        writeb b (UART_REG_FCR_EN_FIFO OR UART_REG_FCR_CLR_RCVR OR UART_REG_FCR_CLR_XMIT) (base + UART_REG_FCR) d5
      })"

subsection \<open>Console\<close>

text \<open>The empty loops that wait for a status bit.\<close>

partial_function (option) poll_while :: "('d \<Rightarrow> (bool \<times> 'd) option) \<Rightarrow> 'd \<Rightarrow> 'd option" where
  "poll_while f d = do {
     r \<leftarrow> f d;
     if fst r then poll_while f (snd r) else Some (snd r)
   }"

definition getchar :: "('d, 'e) bus_scheme \<Rightarrow> console \<Rightarrow> 'd \<Rightarrow> (int \<times> 'd) option" where
  "getchar b cs d =
     (if uart_is_std cs then do {
        d1 \<leftarrow> poll_while (std_uart_rx_empty b (uart_base cs)) d;
        (c, d2) \<leftarrow> std_uart_read b (uart_base cs) d1;
        Some (uint c, d2)
      } else do {
        d1 \<leftarrow> poll_while (potato_uart_rx_empty b (uart_base cs)) d;
        (c, d2) \<leftarrow> potato_uart_read b (uart_base cs) d1;
        Some (uint c, d2)
      })"

definition putchar :: "('d, 'e) bus_scheme \<Rightarrow> console \<Rightarrow> u32 \<Rightarrow> 'd \<Rightarrow> (u32 \<times> 'd) option" where
  "putchar b cs c d =
     (if uart_is_std cs then do {
        d1 \<leftarrow> poll_while (std_uart_tx_full b (uart_base cs)) d;
        d2 \<leftarrow> std_uart_write b (uart_base cs) (ucast c) d1;
        Some (c, d2)
      } else do {
        d1 \<leftarrow> poll_while (potato_uart_tx_full b (uart_base cs)) d;
        d2 \<leftarrow> potato_uart_write b (uart_base cs) (ucast c) d1;
        Some (c, d2)
      })"

text \<open>\<open>m\<close> is the memory that holds the string.\<close>

partial_function (option) puts_loop :: "('d, 'e) bus_scheme \<Rightarrow> console \<Rightarrow> heap \<Rightarrow> ptr \<Rightarrow> 'd \<Rightarrow> 'd option" where
  "puts_loop b cs m str d = do {
     c \<leftarrow> m str;
     if c \<noteq> 0 then do {
       r \<leftarrow> (if c = 10 then map_option snd (putchar b cs 13 d) else Some d);
       r' \<leftarrow> putchar b cs (ucast c) r;
       puts_loop b cs m (str + 1) (snd r')
     } else Some d
   }"

definition puts :: "('d, 'e) bus_scheme \<Rightarrow> console \<Rightarrow> heap \<Rightarrow> ptr \<Rightarrow> 'd \<Rightarrow> (int \<times> 'd) option" where
  "puts b cs m str d = do { d' \<leftarrow> puts_loop b cs m str d; Some (0, d') }"

partial_function (option) console_strlen :: "heap \<Rightarrow> ptr \<Rightarrow> u64 \<Rightarrow> u64 option" where
  "console_strlen m s len = do {
     c \<leftarrow> m s;
     if c \<noteq> 0 then console_strlen m (s + 1) (len + 1) else Some len
   }"

definition console_init :: "('d, 'e) bus_scheme \<Rightarrow> 'd \<Rightarrow> (console \<times> 'd) option" where
  "console_init b d = do {
     (clk, d1) \<leftarrow> readq b (SYSCON_BASE + SYS_REG_CLKINFO) d;
     let proc_freq = clk AND SYS_REG_CLKINFO_FREQ_MASK;
     (sys_info, d2) \<leftarrow> readq b (SYSCON_BASE + SYS_REG_INFO) d1;
     (uart_info, d3) \<leftarrow>
       (if sys_info AND SYS_REG_INFO_HAS_LARGE_SYSCON \<noteq> 0 then readq b (SYSCON_BASE + SYS_REG_UART0_INFO) d2
        else Some (0, d2));
     if uart_info AND SYS_REG_UART_IS_16550 \<noteq> 0 then do {
       d4 \<leftarrow> std_uart_init b UART_BASE proc_freq d3;
       Some (\<lparr>uart_is_std = True, uart_base = UART_BASE\<rparr>, d4)
     } else do {
       d4 \<leftarrow> potato_uart_init b UART_BASE proc_freq d3;
       Some (\<lparr>uart_is_std = False, uart_base = UART_BASE\<rparr>, d4)
     }
   }"

definition console_set_irq_en :: "('d, 'e) bus_scheme \<Rightarrow> console \<Rightarrow> bool \<Rightarrow> bool \<Rightarrow> 'd \<Rightarrow> 'd option" where
  "console_set_irq_en b cs rx_irq tx_irq d =
     (if uart_is_std cs then std_uart_set_irq_en b (uart_base cs) rx_irq tx_irq d
      else potato_uart_set_irq_en b (uart_base cs) rx_irq tx_irq d)"

section \<open>Interfaces\<close>

text \<open>A sink of characters: what was written appears at the end of \<open>out\<close>.\<close>

primrec put_list :: "(u8 \<Rightarrow> 'd \<Rightarrow> 'd option) \<Rightarrow> u8 list \<Rightarrow> 'd \<Rightarrow> 'd option" where
  "put_list put [] d = Some d"
| "put_list put (c # cs) d = do { d' \<leftarrow> put c d; put_list put cs d' }"

lemma put_list_append: "put_list put (xs @ ys) d = do { d' \<leftarrow> put_list put xs d; put_list put ys d' }"
  by (induction xs arbitrary: d) (simp_all cong del: bind_weak_cong)

locale char_sink =
  fixes put :: "u8 \<Rightarrow> 'd \<Rightarrow> 'd option"
    and out :: "'d \<Rightarrow> u8 list"
    and inp :: "'d \<Rightarrow> u8 list"
    and inv :: "'d \<Rightarrow> bool"
  assumes put: "inv d \<Longrightarrow> \<exists>d'. put c d = Some d' \<and> inv d' \<and> out d' = out d @ [c] \<and> inp d' = inp d"
begin

lemma put_list: "inv d \<Longrightarrow> \<exists>d'. put_list put cs d = Some d' \<and> inv d' \<and> out d' = out d @ cs \<and> inp d' = inp d"
proof (induction cs arbitrary: d)
  case (Cons c cs)
  from put [OF Cons.prems, of c] obtain d1 where 1: "put c d = Some d1" "inv d1" "out d1 = out d @ [c]" "inp d1 = inp d"
    by blast
  from Cons.IH [OF 1(2)] 1 show ?case by auto
qed auto

end

text \<open>
  A serial port as the driver uses it. \<open>busy\<close> bounds how often the transmitter may report
  that it is full before there is room, \<open>wait\<close> how often the receiver may report that it is
  empty while input is on its way.
\<close>

locale serial =
  fixes tx_full :: "'d \<Rightarrow> (bool \<times> 'd) option"
    and tx_write :: "u8 \<Rightarrow> 'd \<Rightarrow> 'd option"
    and rx_empty :: "'d \<Rightarrow> (bool \<times> 'd) option"
    and rx_read :: "'d \<Rightarrow> (u8 \<times> 'd) option"
    and out :: "'d \<Rightarrow> u8 list"
    and inp :: "'d \<Rightarrow> u8 list"
    and inv :: "'d \<Rightarrow> bool"
    and ready :: "'d \<Rightarrow> bool"
    and avail :: "'d \<Rightarrow> bool"
    and busy :: "'d \<Rightarrow> nat"
    and wait :: "'d \<Rightarrow> nat"
  assumes tx_poll: "inv d \<Longrightarrow> \<exists>f d'. tx_full d = Some (f, d') \<and> inv d' \<and> out d' = out d \<and> inp d' = inp d \<and>
      (if f then busy d' < busy d else ready d')"
    and tx_send: "inv d \<Longrightarrow> ready d \<Longrightarrow> \<exists>d'. tx_write c d = Some d' \<and> inv d' \<and> out d' = out d @ [c] \<and> inp d' = inp d"
    and rx_poll: "inv d \<Longrightarrow> inp d \<noteq> [] \<Longrightarrow>
      \<exists>e d'. rx_empty d = Some (e, d') \<and> inv d' \<and> out d' = out d \<and> inp d' = inp d \<and>
      (if e then wait d' < wait d else avail d')"
    and rx_recv: "inv d \<Longrightarrow> avail d \<Longrightarrow> inp d \<noteq> [] \<Longrightarrow>
      \<exists>d'. rx_read d = Some (hd (inp d), d') \<and> inv d' \<and> out d' = out d \<and> inp d' = tl (inp d)"
begin

lemma tx_wait:
  "inv d \<Longrightarrow> \<exists>d'. poll_while tx_full d = Some d' \<and> inv d' \<and> ready d' \<and> out d' = out d \<and> inp d' = inp d"
proof (induction "busy d" arbitrary: d rule: less_induct)
  case less
  from tx_poll [OF less.prems] obtain f d1 where
    1: "tx_full d = Some (f, d1)" "inv d1" "out d1 = out d" "inp d1 = inp d" "if f then busy d1 < busy d else ready d1"
    by blast
  show ?case
  proof (cases f)
    case True
    with less.hyps [of d1] 1 show ?thesis by (subst poll_while.simps) simp
  next
    case False
    with 1 show ?thesis by (subst poll_while.simps) simp
  qed
qed

lemma rx_wait:
  "inv d \<Longrightarrow> inp d \<noteq> [] \<Longrightarrow>
   \<exists>d'. poll_while rx_empty d = Some d' \<and> inv d' \<and> avail d' \<and> out d' = out d \<and> inp d' = inp d"
proof (induction "wait d" arbitrary: d rule: less_induct)
  case less
  from rx_poll [OF less.prems] obtain e d1 where
    1: "rx_empty d = Some (e, d1)" "inv d1" "out d1 = out d" "inp d1 = inp d" "if e then wait d1 < wait d else avail d1"
    by blast
  show ?case
  proof (cases e)
    case True
    with less.hyps [of d1] less.prems 1 show ?thesis by (subst poll_while.simps) simp
  next
    case False
    with 1 show ?thesis by (subst poll_while.simps) simp
  qed
qed

lemma receive:
  assumes "inv d" "inp d \<noteq> []"
  shows "\<exists>d1 d2. poll_while rx_empty d = Some d1 \<and> rx_read d1 = Some (hd (inp d), d2) \<and>
    inv d2 \<and> out d2 = out d \<and> inp d2 = tl (inp d)"
  using rx_wait [OF assms] rx_recv assms(2) by metis

end

text \<open>Waiting for room and then sending makes a port a sink of characters.\<close>

definition send :: "('d \<Rightarrow> (bool \<times> 'd) option) \<Rightarrow> (u8 \<Rightarrow> 'd \<Rightarrow> 'd option) \<Rightarrow> u8 \<Rightarrow> 'd \<Rightarrow> 'd option" where
  "send tx_full tx_write c d = do { d1 \<leftarrow> poll_while tx_full d; tx_write c d1 }"

sublocale serial \<subseteq> char_sink "send tx_full tx_write" out inp inv
proof
  fix d c
  assume "inv d"
  from tx_wait [OF this] obtain d1 where
    1: "poll_while tx_full d = Some d1" "inv d1" "ready d1" "out d1 = out d" "inp d1 = inp d" by blast
  with tx_send [OF 1(2,3), of c]
  show "\<exists>d'. send tx_full tx_write c d = Some d' \<and> inv d' \<and> out d' = out d @ [c] \<and> inp d' = inp d"
    by (auto simp: send_def)
qed

section \<open>The drivers provide the interface\<close>

definition pp_out :: "pp_uart soc \<Rightarrow> u8 list" where
  "pp_out d = h_out (pp_host (soc_uart d))"

definition pp_in :: "pp_uart soc \<Rightarrow> u8 list" where
  "pp_in d = map snd (h_in (pp_host (soc_uart d)))"

definition pp_delay :: "pp_uart soc \<Rightarrow> nat" where
  "pp_delay d = (case h_in (pp_host (soc_uart d)) of [] \<Rightarrow> 0 | x # _ \<Rightarrow> fst x)"

lemma ucast_up_up: "(ucast (ucast v :: u32) :: u64) = ucast v" for v :: u8
  by (rule bit_word_eqI) (auto simp: bit_simps dest: bit_imp_le_length)

lemma ucast_down_down: "(ucast (ucast v :: u32) :: u8) = ucast v" for v :: u64
  by (rule bit_word_eqI) (simp add: bit_simps)

lemma word_halves: "ucast (ucast v :: u32) OR push_bit 32 (ucast (ucast (drop_bit 32 v) :: u32)) = v" for v :: u64
  by (rule bit_word_eqI) (auto simp: bit_simps)

definition uart_offs :: "u64 set" where
  "uart_offs = {0, 4, 8, 0xc, 0x10, 0x14, 0x18, 0x1c, 0x20, 0x24}"

lemma uart_window:
  assumes "off \<in> uart_offs"
  shows "in_window UART_BASE (UART_BASE + off)" "\<not> in_window SYSCON_BASE (UART_BASE + off)"
    "(UART_BASE + off) AND 3 = 0" "(UART_BASE + off) AND - 4 = UART_BASE + off" "unat (UART_BASE + off) mod 4 = 0"
  using assms by (auto simp: in_window_def UART_BASE_def SYSCON_BASE_def uart_offs_def)

lemma sio_uart:
  assumes "off \<in> uart_offs"
  shows "sio_rd rd (UART_BASE + off) d =
      map_option (\<lambda>(v, u). (ucast v, d\<lparr>soc_uart := u\<rparr>)) (sim_ok (rd off (soc_uart d)))"
    "sio_wr wr (UART_BASE + off) w d = map_option (\<lambda>u. d\<lparr>soc_uart := u\<rparr>) (sim_ok (wr off (ucast w) (soc_uart d)))"
  using uart_window [OF assms] by (simp_all add: sio_rd_def sio_wr_def)

lemma soc_rd_uart:
  assumes "off \<in> uart_offs"
  shows "soc_rd rd (Suc 0) (UART_BASE + off) d =
    map_option (\<lambda>(v, u). (ucast v, d\<lparr>soc_uart := u\<rparr>)) (sim_ok (rd off (soc_uart d)))"
  by (cases "sim_ok (rd off (soc_uart d))")
    (simp_all add: soc_rd_def uart_window [OF assms] sio_uart [OF assms] ucast_up_up split_def)

lemma soc_wr_uart:
  assumes "off \<in> uart_offs"
  shows "soc_wr wr (Suc 0) (UART_BASE + off) v d =
    map_option (\<lambda>u. d\<lparr>soc_uart := u\<rparr>) (sim_ok (wr off (ucast v) (soc_uart d)))"
  by (simp add: soc_wr_def uart_window [OF assms] sio_uart [OF assms] ucast_down_down)

text \<open>The high word of a register of the potato UART reads as 0 and ignores writes.\<close>

definition pp_offs :: "u64 set" where
  "pp_offs = {0, 8, 0x10, 0x18, 0x20}"

lemma pp_high:
  assumes "off \<in> pp_offs"
  shows "pp_read (off + 4) u = ret (0, u)" "pp_write (off + 4) v u = ret u"
  using assms by (auto simp: pp_offs_def pp_read_def pp_write_def)

lemma pp_window:
  assumes "off \<in> pp_offs"
  shows "off \<in> uart_offs" "off + 4 \<in> uart_offs" "(UART_BASE + off) AND 7 = 0" "unat (UART_BASE + off) mod 8 = 0"
    "UART_BASE + off + 4 = UART_BASE + (off + 4)"
  using assms by (auto simp: UART_BASE_def pp_offs_def uart_offs_def)

lemma soc_rd_pp:
  assumes "off \<in> pp_offs"
  shows "soc_rd pp_read 8 (UART_BASE + off) d =
    map_option (\<lambda>(v, u). (ucast v, d\<lparr>soc_uart := u\<rparr>)) (sim_ok (pp_read off (soc_uart d)))"
  by (cases "sim_ok (pp_read off (soc_uart d))")
    (simp_all add: soc_rd_def pp_window [OF assms] sio_uart pp_high [OF assms] ucast_up_up split_def)

lemma soc_wr_pp:
  assumes "off \<in> pp_offs"
  shows "soc_wr pp_write 8 (UART_BASE + off) v d =
    map_option (\<lambda>u. d\<lparr>soc_uart := u\<rparr>) (sim_ok (pp_write off (ucast v) (soc_uart d)))"
  by (cases "sim_ok (pp_write off (ucast v) (soc_uart d))")
    (simp_all add: soc_wr_def pp_window [OF assms] sio_uart pp_high [OF assms] ucast_down_down)

lemma uart_offs_mem: "0 \<in> uart_offs" "4 \<in> uart_offs" "8 \<in> uart_offs" "0xc \<in> uart_offs" "0x10 \<in> uart_offs" "0x14 \<in> uart_offs"
  "0 \<in> pp_offs" "8 \<in> pp_offs" "0x10 \<in> pp_offs" "0x18 \<in> pp_offs" "0x20 \<in> pp_offs"
  by (simp_all add: uart_offs_def pp_offs_def)

lemmas soc_uart = soc_rd_uart soc_wr_uart soc_rd_pp soc_wr_pp uart_offs_mem

lemmas soc_uart_0 = soc_uart soc_rd_uart [OF uart_offs_mem(1), simplified] soc_wr_uart [OF uart_offs_mem(1), simplified]
  soc_rd_pp [OF uart_offs_mem(7), simplified] soc_wr_pp [OF uart_offs_mem(7), simplified]

lemma host_poll_map: "map snd (snd (host_poll i)) = map snd i"
  by (simp add: host_poll_def split: list.split nat.split)

lemma potato_status:
  "potato_uart_reg_read pp_bus UART_BASE POTATO_CONSOLE_STATUS d =
     Some (if fst (host_poll (h_in (pp_host (soc_uart d)))) then 6 else 3,
       d\<lparr>soc_uart := (soc_uart d)\<lparr>pp_host := (enable_raw_mode (pp_host (soc_uart d)))
         \<lparr>h_in := snd (host_poll (h_in (pp_host (soc_uart d))))\<rparr>\<rparr>\<rparr>)"
  by (simp add: potato_uart_reg_read_def readq_def pp_bus_def soc_uart
      pp_read_def POTATO_CONSOLE_STATUS_def vhdl_console_poll_eq)

lemma potato_write_eq:
  "potato_uart_write pp_bus UART_BASE c d =
     Some (d\<lparr>soc_uart := (soc_uart d)\<lparr>pp_host := (pp_host (soc_uart d))\<lparr>h_out := pp_out d @ [c]\<rparr>\<rparr>\<rparr>)"
  by (simp add: potato_uart_write_def potato_uart_reg_write_def writeq_def pp_bus_def soc_uart_0 pp_write_def
      POTATO_CONSOLE_TX_def vhdl_console_write_eq pp_out_def)

interpretation potato: serial "potato_uart_tx_full pp_bus UART_BASE" "potato_uart_write pp_bus UART_BASE"
  "potato_uart_rx_empty pp_bus UART_BASE" "potato_uart_read pp_bus UART_BASE" pp_out pp_in "\<lambda>_. True" "\<lambda>_. True"
  "\<lambda>d. pp_in d \<noteq> []" "\<lambda>_. 0" pp_delay
proof
  fix d
  show "\<exists>f d'. potato_uart_tx_full pp_bus UART_BASE d = Some (f, d') \<and> True \<and> pp_out d' = pp_out d \<and> pp_in d' = pp_in d \<and>
      (if f then (0::nat) < 0 else True)"
    by (simp add: potato_uart_tx_full_def potato_status POTATO_CONSOLE_STATUS_TX_FULL_def pp_out_def pp_in_def
        host_poll_map)
next
  fix d c
  show "\<exists>d'. potato_uart_write pp_bus UART_BASE c d = Some d' \<and> True \<and> pp_out d' = pp_out d @ [c] \<and> pp_in d' = pp_in d"
    by (simp add: potato_write_eq) (simp add: pp_out_def pp_in_def)
next
  fix d
  assume "pp_in d \<noteq> []"
  then obtain n c i where "h_in (pp_host (soc_uart d)) = (n, c) # i"
    by (cases "h_in (pp_host (soc_uart d))") (auto simp: pp_in_def)
  then show "\<exists>e d'. potato_uart_rx_empty pp_bus UART_BASE d = Some (e, d') \<and> True \<and> pp_out d' = pp_out d \<and> pp_in d' = pp_in d \<and>
      (if e then pp_delay d' < pp_delay d else pp_in d' \<noteq> [])"
    by (simp add: potato_uart_rx_empty_def potato_status POTATO_CONSOLE_STATUS_RX_EMPTY_def pp_out_def pp_in_def
        pp_delay_def host_poll_def split: nat.split)
next
  fix d
  assume "pp_in d \<noteq> []"
  then obtain n c i where "h_in (pp_host (soc_uart d)) = (n, c) # i"
    by (cases "h_in (pp_host (soc_uart d))") (auto simp: pp_in_def)
  then show "\<exists>d'. potato_uart_read pp_bus UART_BASE d = Some (hd (pp_in d), d') \<and> True \<and> pp_out d' = pp_out d \<and> pp_in d' = tl (pp_in d)"
    by (simp add: potato_uart_read_def potato_uart_reg_read_def readq_def pp_bus_def soc_uart pp_read_def
        POTATO_CONSOLE_RX_def vhdl_console_read_eq pp_out_def pp_in_def)
qed

definition std_out :: "uart_top soc \<Rightarrow> u8 list" where
  "std_out d = h_out (u_host (soc_uart d))"

definition std_in :: "uart_top soc \<Rightarrow> u8 list" where
  "std_in d = (if u_pending (soc_uart d) then [u_data (soc_uart d)] else []) @ map snd (h_in (u_host (soc_uart d)))"

definition std_inv :: "uart_top soc \<Rightarrow> bool" where
  "std_inv d \<longleftrightarrow> \<not> u_dlab (soc_uart d)"

definition std_avail :: "uart_top soc \<Rightarrow> bool" where
  "std_avail d \<longleftrightarrow> u_pending (soc_uart d)"

definition std_delay :: "uart_top soc \<Rightarrow> nat" where
  "std_delay d = (if u_pending (soc_uart d) then 0 else
     case h_in (u_host (soc_uart d)) of [] \<Rightarrow> 0 | x # _ \<Rightarrow> Suc (fst x))"

lemma std_lsr:
  "readb std_bus (UART_BASE + UART_REG_LSR) d =
     map_option (\<lambda>u. (u_lsr (soc_uart d), d\<lparr>soc_uart := u\<rparr>)) (sim_ok (u_poll (soc_uart d)))"
  by (cases "u_poll (soc_uart d)")
    (auto simp: readb_def std_bus_def soc_uart UART_REG_LSR_def std_read_def bindS_def sim_ok_def ret_def
      option.map_comp split: option.split sum.split)

lemma u_poll_ok:
  "\<exists>u'. u_poll u = ret u' \<and> h_out (u_host u') = h_out (u_host u) \<and> u_lcr u' = u_lcr u \<and>
     (u_pending u \<longrightarrow> u_pending u' \<and> u_data u' = u_data u \<and> map snd (h_in (u_host u')) = map snd (h_in (u_host u))) \<and>
     (\<not> u_pending u \<longrightarrow> (case h_in (u_host u) of
        [] \<Rightarrow> \<not> u_pending u' \<and> h_in (u_host u') = []
      | (0, c) # i \<Rightarrow> u_pending u' \<and> u_data u' = c \<and> h_in (u_host u') = i
      | (Suc n, c) # i \<Rightarrow> \<not> u_pending u' \<and> h_in (u_host u') = (n, c) # i))"
  by (auto simp: u_poll_def vhdl_console_poll_eq vhdl_console_read_eq host_poll_def Let_def
      split: list.split nat.split)

lemma u_poll_std:
  "\<exists>u. u_poll (soc_uart d) = ret u \<and> std_out (d\<lparr>soc_uart := u\<rparr>) = std_out d \<and>
    std_in (d\<lparr>soc_uart := u\<rparr>) = std_in d \<and> (std_inv d \<longrightarrow> std_inv (d\<lparr>soc_uart := u\<rparr>)) \<and>
    (u_pending (soc_uart d) \<longrightarrow> u_pending u) \<and>
    (\<not> u_pending (soc_uart d) \<longrightarrow> std_in d \<noteq> [] \<longrightarrow> std_delay (d\<lparr>soc_uart := u\<rparr>) < std_delay d)"
proof -
  from u_poll_ok [of "soc_uart d"] obtain u where u: "u_poll (soc_uart d) = ret u"
    "h_out (u_host u) = h_out (u_host (soc_uart d))" "u_lcr u = u_lcr (soc_uart d)"
    "u_pending (soc_uart d) \<longrightarrow> u_pending u \<and> u_data u = u_data (soc_uart d) \<and>
       map snd (h_in (u_host u)) = map snd (h_in (u_host (soc_uart d)))"
    "\<not> u_pending (soc_uart d) \<longrightarrow> (case h_in (u_host (soc_uart d)) of
        [] \<Rightarrow> \<not> u_pending u \<and> h_in (u_host u) = []
      | (0, c) # i \<Rightarrow> u_pending u \<and> u_data u = c \<and> h_in (u_host u) = i
      | (Suc n, c) # i \<Rightarrow> \<not> u_pending u \<and> h_in (u_host u) = (n, c) # i)"
    by blast
  have "std_in (d\<lparr>soc_uart := u\<rparr>) = std_in d"
    using u(4,5) by (cases "u_pending (soc_uart d)") (auto simp: std_in_def split: list.splits prod.splits nat.splits)
  moreover have "std_delay (d\<lparr>soc_uart := u\<rparr>) < std_delay d" if "\<not> u_pending (soc_uart d)" "std_in d \<noteq> []"
    using u(5) that by (auto simp: std_in_def std_delay_def split: list.splits prod.splits nat.splits)
  ultimately show ?thesis
    using u(1-4) by (auto simp: std_out_def std_inv_def u_dlab_def)
qed

lemma std_write_eq:
  "std_inv d \<Longrightarrow> std_uart_write std_bus UART_BASE c d =
     Some (d\<lparr>soc_uart := (soc_uart d)\<lparr>u_host := (u_host (soc_uart d))\<lparr>h_out := std_out d @ [c]\<rparr>\<rparr>\<rparr>)"
  by (simp add: std_uart_write_def writeb_def std_bus_def soc_uart_0 UART_REG_TX_def std_write_def std_inv_def
      vhdl_console_write_eq std_out_def)

lemma std_read_eq:
  "std_inv d \<Longrightarrow> std_uart_read std_bus UART_BASE d =
     Some (u_data (soc_uart d), d\<lparr>soc_uart := (soc_uart d)\<lparr>u_pending := False, u_data := 0\<rparr>\<rparr>)"
  by (simp add: std_uart_read_def readb_def std_bus_def soc_uart_0 UART_REG_RX_def std_read_def std_inv_def)

interpretation std: serial "std_uart_tx_full std_bus UART_BASE" "std_uart_write std_bus UART_BASE"
  "std_uart_rx_empty std_bus UART_BASE" "std_uart_read std_bus UART_BASE" std_out std_in std_inv "\<lambda>_. True"
  std_avail "\<lambda>_. 0" std_delay
proof
  fix d
  assume inv: "std_inv d"
  from u_poll_std [of d] inv obtain u where
    "u_poll (soc_uart d) = ret u" "std_out (d\<lparr>soc_uart := u\<rparr>) = std_out d" "std_in (d\<lparr>soc_uart := u\<rparr>) = std_in d"
    "std_inv (d\<lparr>soc_uart := u\<rparr>)" by metis
  then show "\<exists>f d'. std_uart_tx_full std_bus UART_BASE d = Some (f, d') \<and> std_inv d' \<and> std_out d' = std_out d \<and>
      std_in d' = std_in d \<and> (if f then (0::nat) < 0 else True)"
    by (simp add: std_uart_tx_full_def std_lsr u_lsr_def UART_REG_LSR_THRE_def)
next
  fix d c
  assume "std_inv d"
  then show "\<exists>d'. std_uart_write std_bus UART_BASE c d = Some d' \<and> std_inv d' \<and> std_out d' = std_out d @ [c] \<and> std_in d' = std_in d"
    by (simp add: std_write_eq) (simp add: std_inv_def std_out_def std_in_def u_dlab_def)
next
  fix d
  assume inv: "std_inv d" "std_in d \<noteq> []"
  from u_poll_std [of d] inv obtain u where
    "u_poll (soc_uart d) = ret u" "std_out (d\<lparr>soc_uart := u\<rparr>) = std_out d" "std_in (d\<lparr>soc_uart := u\<rparr>) = std_in d"
    "std_inv (d\<lparr>soc_uart := u\<rparr>)" "u_pending (soc_uart d) \<Longrightarrow> u_pending u"
    "\<not> u_pending (soc_uart d) \<Longrightarrow> std_delay (d\<lparr>soc_uart := u\<rparr>) < std_delay d" by metis
  then show "\<exists>e d'. std_uart_rx_empty std_bus UART_BASE d = Some (e, d') \<and> std_inv d' \<and> std_out d' = std_out d \<and>
      std_in d' = std_in d \<and> (if e then std_delay d' < std_delay d else std_avail d')"
    by (cases "u_pending (soc_uart d)")
      (auto simp: std_uart_rx_empty_def std_lsr u_lsr_def UART_REG_LSR_DR_def std_avail_def)
next
  fix d
  assume "std_inv d" "std_avail d"
  then show "\<exists>d'. std_uart_read std_bus UART_BASE d = Some (hd (std_in d), d') \<and> std_inv d' \<and> std_out d' = std_out d \<and>
      std_in d' = tl (std_in d)"
    by (simp add: std_read_eq) (simp add: std_avail_def std_inv_def std_out_def std_in_def u_dlab_def)
qed

section \<open>Characters and strings\<close>

text \<open>A newline is sent as carriage return and newline.\<close>

definition crlf :: "u8 list \<Rightarrow> u8 list" where
  "crlf s = concat (map (\<lambda>c. if c = 10 then [13, 10] else [c]) s)"

definition put_one :: "('d, 'e) bus_scheme \<Rightarrow> console \<Rightarrow> u8 \<Rightarrow> 'd \<Rightarrow> 'd option" where
  "put_one b cs c d = map_option snd (putchar b cs (ucast c) d)"

lemma puts_loop_eq: "cstr m str s \<Longrightarrow> puts_loop b cs m str d = put_list (put_one b cs) (crlf s) d"
proof (induction s arbitrary: str d)
  case Nil
  then show ?case by (subst puts_loop.simps) (simp add: crlf_def)
next
  case (Cons c s)
  have IH: "puts_loop b cs m (str + 1) d' = put_list (put_one b cs) (crlf s) d'" for d'
    using Cons by simp
  have "puts_loop b cs m str d = put_list (put_one b cs) (if c = 10 then [13, 10] else [c]) d
      \<bind> (\<lambda>d'. puts_loop b cs m (str + 1) d')"
    using Cons.prems by (subst puts_loop.simps) (simp add: put_one_def bind_map_option o_def cong del: bind_weak_cong)
  then show ?case
    by (simp add: IH crlf_def put_list_append cong del: bind_weak_cong)
qed

definition potato_console :: console where
  "potato_console = \<lparr>uart_is_std = False, uart_base = UART_BASE\<rparr>"

definition std_console :: console where
  "std_console = \<lparr>uart_is_std = True, uart_base = UART_BASE\<rparr>"

lemma put_one_potato:
  "put_one b potato_console = send (potato_uart_tx_full b UART_BASE) (potato_uart_write b UART_BASE)"
  by (intro ext)
    (simp add: put_one_def putchar_def send_def potato_console_def map_option_bind o_def cong del: bind_weak_cong)

lemma put_one_std: "put_one b std_console = send (std_uart_tx_full b UART_BASE) (std_uart_write b UART_BASE)"
  by (intro ext)
    (simp add: put_one_def putchar_def send_def std_console_def map_option_bind o_def cong del: bind_weak_cong)

text \<open>Sending leaves the system controller and the divisor alone.\<close>

lemma put_list_keeps:
  assumes "\<And>c d d'. put c d = Some d' \<Longrightarrow> f d' = f d"
  shows "put_list put cs d = Some d' \<Longrightarrow> f d' = f d"
  using assms by (induction cs arbitrary: d) (auto simp: bind_eq_Some_conv)

lemma poll_while_potato: "poll_while (potato_uart_tx_full pp_bus UART_BASE) d = map_option snd (potato_uart_tx_full pp_bus UART_BASE d)"
  by (subst poll_while.simps) (simp add: potato_uart_tx_full_def potato_status POTATO_CONSOLE_STATUS_TX_FULL_def)

lemma put_one_potato_keeps:
  "put_one pp_bus potato_console c d = Some d' \<Longrightarrow> (soc_sys d', pp_div (soc_uart d')) = (soc_sys d, pp_div (soc_uart d))"
  by (auto simp: put_one_potato send_def poll_while_potato potato_uart_tx_full_def potato_status potato_write_eq)

lemma std_tx_full_eq:
  "std_uart_tx_full std_bus UART_BASE d = map_option (\<lambda>u. (False, d\<lparr>soc_uart := u\<rparr>)) (sim_ok (u_poll (soc_uart d)))"
  by (cases "sim_ok (u_poll (soc_uart d))") (simp_all add: std_uart_tx_full_def std_lsr u_lsr_def UART_REG_LSR_THRE_def)

lemma poll_while_std: "poll_while (std_uart_tx_full std_bus UART_BASE) d = map_option (\<lambda>u. d\<lparr>soc_uart := u\<rparr>) (sim_ok (u_poll (soc_uart d)))"
  by (subst poll_while.simps) (cases "sim_ok (u_poll (soc_uart d))"; simp add: std_tx_full_eq)

lemma u_poll_keeps: "u_poll u = ret u' \<Longrightarrow> u_div u' = u_div u \<and> u_lcr u' = u_lcr u"
  by (auto simp: u_poll_def vhdl_console_poll_eq vhdl_console_read_eq host_poll_def Let_def split: if_splits list.splits nat.splits)

lemma put_one_std_keeps:
  assumes "std_inv d" "put_one std_bus std_console c d = Some d'"
  shows "(soc_sys d', u_div (soc_uart d')) = (soc_sys d, u_div (soc_uart d))"
proof -
  from u_poll_ok [of "soc_uart d"] obtain u where u: "u_poll (soc_uart d) = ret u" by blast
  moreover have "std_inv (d\<lparr>soc_uart := u\<rparr>)" using u_poll_keeps [OF u] assms(1) by (simp add: std_inv_def u_dlab_def)
  ultimately show ?thesis
    using assms(2) u_poll_keeps [OF u] by (auto simp: put_one_std send_def poll_while_std std_write_eq)
qed

lemma put_list_std_keeps:
  "std_inv d \<Longrightarrow> put_list (put_one std_bus std_console) cs d = Some d' \<Longrightarrow>
   (soc_sys d', u_div (soc_uart d')) = (soc_sys d, u_div (soc_uart d))"
proof (induction cs arbitrary: d)
  case (Cons c cs)
  from std.put [OF Cons.prems(1), of c] obtain d1 where 1: "put_one std_bus std_console c d = Some d1" "std_inv d1"
    unfolding put_one_std by blast
  with Cons show ?case using put_one_std_keeps [OF Cons.prems(1) 1(1)] by simp
qed simp

lemma puts_potato:
  assumes "cstr m str s"
  shows "\<exists>d'. puts pp_bus potato_console m str d = Some (0, d') \<and> pp_out d' = pp_out d @ crlf s \<and> pp_in d' = pp_in d \<and>
    pp_div (soc_uart d') = pp_div (soc_uart d)"
proof -
  from potato.put_list [where d = d and cs = "crlf s"] obtain d' where
    1: "put_list (put_one pp_bus potato_console) (crlf s) d = Some d'" "pp_out d' = pp_out d @ crlf s" "pp_in d' = pp_in d"
    unfolding put_one_potato by blast
  from put_list_keeps [where f = "\<lambda>d. (soc_sys d, pp_div (soc_uart d))", OF put_one_potato_keeps 1(1)] 1 show ?thesis
    by (simp add: puts_def puts_loop_eq [OF assms])
qed

lemma puts_std:
  assumes "cstr m str s" "std_inv d"
  shows "\<exists>d'. puts std_bus std_console m str d = Some (0, d') \<and> std_inv d' \<and> std_out d' = std_out d @ crlf s \<and>
    std_in d' = std_in d \<and> u_div (soc_uart d') = u_div (soc_uart d)"
proof -
  from std.put_list [where d = d and cs = "crlf s"] assms(2) obtain d' where
    1: "put_list (put_one std_bus std_console) (crlf s) d = Some d'" "std_inv d'" "std_out d' = std_out d @ crlf s" "std_in d' = std_in d"
    unfolding put_one_std by blast
  from put_list_std_keeps [OF assms(2) 1(1)] 1 show ?thesis
    by (simp add: puts_def puts_loop_eq [OF assms(1)])
qed

section \<open>Initialisation\<close>

definition syscon_offs :: "u64 set" where
  "syscon_offs = {0, 0x08, 0x10, 0x18, 0x20, 0x28, 0x30, 0x38, 0x40, 0x48, 0x50, 0x58, 0x60}"

lemma syscon_window:
  assumes "off \<in> syscon_offs"
  shows "in_window SYSCON_BASE (SYSCON_BASE + off)" "in_window SYSCON_BASE (SYSCON_BASE + off + 4)"
    "(SYSCON_BASE + off) AND 0x1f8 = off" "(SYSCON_BASE + off + 4) AND 0x1f8 = off"
    "(SYSCON_BASE + off) AND 4 = 0" "(SYSCON_BASE + off + 4) AND 4 = 4" "unat (SYSCON_BASE + off) mod 8 = 0"
  using assms by (auto simp: in_window_def SYSCON_BASE_def syscon_offs_def)

lemma soc_rd_syscon:
  assumes "off \<in> syscon_offs"
  shows "soc_rd rd 8 (SYSCON_BASE + off) d = Some (syscon_read (soc_sys d) off, d)"
  by (simp add: soc_rd_def sio_rd_def syscon_window [OF assms] word_halves)

lemma large_syscon: "reg_info s AND SYS_REG_INFO_HAS_LARGE_SYSCON \<noteq> 0"
proof -
  have "bit (reg_info s AND SYS_REG_INFO_HAS_LARGE_SYSCON) 5"
    by (simp add: reg_info_def SYS_REG_INFO_HAS_LARGE_SYSCON_def bit_simps)
  then show ?thesis by auto
qed

lemma uart_is_16550_bit: "reg_uart0info s AND SYS_REG_UART_IS_16550 \<noteq> 0 \<longleftrightarrow> UART0_IS_16550 s"
proof -
  have "reg_uart0info s AND push_bit 32 1 \<noteq> 0 \<longleftrightarrow> bit (reg_uart0info s) 32"
    by (simp only: bit_iff_and_push_bit_not_eq_0)
  then show ?thesis
    by (simp add: SYS_REG_UART_IS_16550_def reg_uart0info_def bit_simps)
qed

definition clk_divisor :: "syscon \<Rightarrow> u64" where
  "clk_divisor s = uart_divisor (take_bit 40 (of_nat (CLK_FREQ s))) UART_BAUDS"

lemma freq_mask: "take_bit 40 x AND SYS_REG_CLKINFO_FREQ_MASK = take_bit 40 x"
  by (simp add: SYS_REG_CLKINFO_FREQ_MASK_def take_bit_eq_mask mask_numeral and.assoc)

lemma console_init_sys:
  fixes d :: "'u soc"
  assumes "bus_rd b = soc_rd rd"
  shows "console_init b d =
    (if UART0_IS_16550 (soc_sys d) then
       map_option (\<lambda>d'. (std_console, d')) (std_uart_init b UART_BASE (take_bit 40 (of_nat (CLK_FREQ (soc_sys d)))) d)
     else
       map_option (\<lambda>d'. (potato_console, d')) (potato_uart_init b UART_BASE (take_bit 40 (of_nat (CLK_FREQ (soc_sys d)))) d))"
proof -
  have "readq b (SYSCON_BASE + SYS_REG_CLKINFO) d = Some (take_bit 40 (of_nat (CLK_FREQ (soc_sys d))), d)"
    "readq b (SYSCON_BASE + SYS_REG_INFO) d = Some (reg_info (soc_sys d), d)"
    "readq b (SYSCON_BASE + SYS_REG_UART0_INFO) d = Some (reg_uart0info (soc_sys d), d)"
    using assms soc_rd_syscon [of _ rd d]
    by (simp_all add: syscon_offs_def readq_def SYS_REG_CLKINFO_def SYS_REG_INFO_def SYS_REG_UART0_INFO_def syscon_read_def)
  then show ?thesis
    by (simp add: console_init_def large_syscon freq_mask uart_is_16550_bit std_console_def potato_console_def
        map_conv_bind_option o_def cong del: bind_weak_cong)
qed

lemma console_init_potato:
  assumes "\<not> UART0_IS_16550 (soc_sys d)"
  shows "console_init pp_bus d =
    Some (potato_console, d\<lparr>soc_uart := (soc_uart d)\<lparr>pp_div := ucast (clk_divisor (soc_sys d) - 1)\<rparr>\<rparr>)"
proof -
  have "bus_rd pp_bus = soc_rd pp_read" by (simp add: pp_bus_def)
  from console_init_sys [OF this, of d] assms show ?thesis
    by (simp add: potato_uart_init_def potato_uart_reg_write_def writeq_def pp_bus_def POTATO_CONSOLE_CLOCK_DIV_def
        soc_uart pp_write_def clk_divisor_def)
qed

lemma uart_div_split:
  "push_bit 8 (ucast (ucast (drop_bit 8 v) :: u8)) OR take_bit 8 (push_bit 8 x) OR take_bit 8 (ucast (ucast v :: u8)) = (ucast v :: u16)"
  for v :: u64
  by (rule bit_word_eqI) (auto simp: bit_simps)

lemma console_init_std:
  assumes "UART0_IS_16550 (soc_sys d)"
  shows "console_init std_bus d =
    Some (std_console, d\<lparr>soc_uart := (soc_uart d)\<lparr>u_div := ucast (clk_divisor (soc_sys d)), u_lcr := 3, u_mcr := 3, u_fcr := 0\<rparr>\<rparr>)"
proof -
  have "bus_rd std_bus = soc_rd (\<lambda>off. std_read (take_bit 3 (drop_bit 2 off)))" by (simp add: std_bus_def)
  from console_init_sys [OF this, of d] assms show ?thesis
    by (simp add: std_uart_init_def writeb_def std_bus_def uart_regs soc_uart soc_uart_0 std_write_def u_dlab_def
        clk_divisor_def [symmetric] uart_div_split Let_def)
qed

section \<open>Correctness\<close>

text \<open>
  C11. On the system with the potato UART, \<open>console_init\<close> selects the potato driver, programs
  its divisor register with one less than the divisor of the system clock, cut to the eight
  bits of the register, and changes nothing else. \<open>puts\<close> then returns 0 after every character of
  the string has reached the console of the host, in order, each newline preceded by a
  carriage return; the divisor and the pending input stay as they are.
\<close>

theorem potato_console_output:
  assumes "\<not> UART0_IS_16550 (soc_sys d)" "cstr m str s"
  shows "\<exists>d1 d2. console_init pp_bus d = Some (\<lparr>uart_is_std = False, uart_base = UART_BASE\<rparr>, d1) \<and>
    d1 = d\<lparr>soc_uart := (soc_uart d)\<lparr>pp_div := ucast (clk_divisor (soc_sys d) - 1)\<rparr>\<rparr> \<and>
    puts pp_bus \<lparr>uart_is_std = False, uart_base = UART_BASE\<rparr> m str d1 = Some (0, d2) \<and>
    pp_out d2 = pp_out d @ crlf s \<and> pp_in d2 = pp_in d \<and> pp_div (soc_uart d2) = pp_div (soc_uart d1)"
proof -
  let ?d = "d\<lparr>soc_uart := (soc_uart d)\<lparr>pp_div := ucast (clk_divisor (soc_sys d) - 1)\<rparr>\<rparr>"
  have "pp_out ?d = pp_out d" "pp_in ?d = pp_in d" by (simp_all add: pp_out_def pp_in_def)
  with console_init_potato [OF assms(1)] puts_potato [OF assms(2), of ?d] show ?thesis
    unfolding potato_console_def by auto
qed

definition demo_syscon :: "bool \<Rightarrow> syscon" where
  "demo_syscon std = \<lparr>NCPUS = 1, SIG_VALUE = 0xf00daa5500010001, CLK_FREQ = 100000000, HAS_UART = True, HAS_DRAM = False,
     BRAM_SIZE = 16384, DRAM_SIZE = 0, DRAM_INIT_SIZE = 0, HAS_SPI_FLASH = False, SPI_FLASH_OFFSET = 0, HAS_LITEETH = False,
     HAS_SD_CARD = False, HAS_SD_CARD2 = False, UART0_IS_16550 = std, HAS_UART1 = False, GIT_HASH = 0, GIT_DIRTY = False,
     reg_ctrl = 0, cpu_enable = 1, tb_ctrl = 0\<rparr>"

definition demo_host :: "(nat \<times> u8) list \<Rightarrow> host" where
  "demo_host i = \<lparr>h_in = i, h_out = [], h_raw = False, h_initialized = False\<rparr>"

definition demo_pp :: "(nat \<times> u8) list \<Rightarrow> pp_uart soc" where
  "demo_pp i = \<lparr>soc_sys = demo_syscon False,
     soc_uart = \<lparr>pp_div = 0, pp_irq_recv = False, pp_irq_tx = False, pp_host = demo_host i\<rparr>\<rparr>"

definition demo_std :: "(nat \<times> u8) list \<Rightarrow> uart_top soc" where
  "demo_std i = \<lparr>soc_sys = demo_syscon True,
     soc_uart = \<lparr>u_ier = 0, u_fcr = 3, u_lcr = 3, u_mcr = 0, u_scr = 0, u_div = 0, u_data = 0, u_pending = False,
       u_host = demo_host i\<rparr>\<rparr>"

lemma demo_simps [simp]:
  "\<not> UART0_IS_16550 (soc_sys (demo_pp i))" "UART0_IS_16550 (soc_sys (demo_std i))" "pp_out (demo_pp i) = []"
  "pp_in (demo_pp i) = map snd i" "std_out (demo_std i) = []" "std_in (demo_std i) = map snd i" "std_inv (demo_std i)"
  "soc_sys (demo_std i) = demo_syscon True" "UART0_IS_16550 (demo_syscon t) = t"
  by (simp_all add: demo_pp_def demo_std_def demo_syscon_def demo_host_def pp_out_def pp_in_def std_out_def std_in_def
      std_inv_def u_dlab_def)

theorem potato_console_output_witness:
  "\<exists>d1 d2. console_init pp_bus (demo_pp []) = Some (potato_console, d1) \<and> pp_div (soc_uart d1) = 53 \<and>
     puts pp_bus potato_console (blk [72, 105, 10, 0]) 0 d1 = Some (0, d2) \<and> pp_out d2 = [72, 105, 13, 10]"
proof -
  have dv: "ucast (clk_divisor (soc_sys (demo_pp [])) - 1) = (53 :: u8)"
    by (simp add: clk_divisor_def uart_divisor_def UART_BAUDS_def demo_syscon_def demo_pp_def)
  have "cstr (blk [72, 105, 10, 0]) 0 [72, 105, 10]" by (simp add: blk_def)
  from potato_console_output [OF _ this, of "demo_pp []"] show ?thesis
    by (auto simp: crlf_def potato_console_def dv)
qed

text \<open>
  C12. The same for the system with the 16550: \<open>console_init\<close> selects the 16550 driver, programs
  the divisor latch with the divisor of the system clock, cut to sixteen bits, and leaves the
  latch closed (the line control register is set to eight bits without it), so that the characters
  \<open>puts\<close> writes are all transmitted, none of them lands in the divisor, and the latch stays closed.
\<close>

theorem std_console_output:
  assumes "UART0_IS_16550 (soc_sys d)" "cstr m str s"
  shows "\<exists>d1 d2. console_init std_bus d = Some (\<lparr>uart_is_std = True, uart_base = UART_BASE\<rparr>, d1) \<and>
    u_div (soc_uart d1) = ucast (clk_divisor (soc_sys d)) \<and> u_lcr (soc_uart d1) = 3 \<and> \<not> u_dlab (soc_uart d1) \<and>
    puts std_bus \<lparr>uart_is_std = True, uart_base = UART_BASE\<rparr> m str d1 = Some (0, d2) \<and>
    std_out d2 = std_out d @ crlf s \<and> std_in d2 = std_in d \<and> \<not> u_dlab (soc_uart d2) \<and> u_div (soc_uart d2) = u_div (soc_uart d1)"
proof -
  let ?d = "d\<lparr>soc_uart := (soc_uart d)\<lparr>u_div := ucast (clk_divisor (soc_sys d)), u_lcr := 3, u_mcr := 3, u_fcr := 0\<rparr>\<rparr>"
  have "std_out ?d = std_out d" "std_in ?d = std_in d" "std_inv ?d"
    by (simp_all add: std_out_def std_in_def std_inv_def u_dlab_def)
  with console_init_std [OF assms(1)] puts_std [OF assms(2), of ?d] show ?thesis
    unfolding std_console_def std_inv_def by auto
qed

theorem std_console_output_witness:
  "\<exists>d1 d2. console_init std_bus (demo_std []) = Some (std_console, d1) \<and> u_div (soc_uart d1) = 54 \<and>
     puts std_bus std_console (blk [72, 10, 0]) 0 d1 = Some (0, d2) \<and> std_out d2 = [72, 13, 10]"
proof -
  have dv: "ucast (clk_divisor (demo_syscon True)) = (54 :: u16)"
    by (simp add: clk_divisor_def uart_divisor_def UART_BAUDS_def demo_syscon_def)
  have "cstr (blk [72, 10, 0]) 0 [72, 10]" by (simp add: blk_def)
  from std_console_output [OF _ this, of "demo_std []"] show ?thesis by (auto simp: crlf_def dv std_console_def)
qed

lemma getchar_potato:
  "pp_in d \<noteq> [] \<Longrightarrow> \<exists>d'. getchar pp_bus potato_console d = Some (uint (hd (pp_in d)), d') \<and>
     pp_in d' = tl (pp_in d) \<and> pp_out d' = pp_out d"
  using potato.receive [OF TrueI, of d] by (auto simp: getchar_def potato_console_def)

lemma getchar_std:
  "std_in e \<noteq> [] \<Longrightarrow> std_inv e \<Longrightarrow> \<exists>e'. getchar std_bus std_console e = Some (uint (hd (std_in e)), e') \<and>
     std_in e' = tl (std_in e) \<and> std_out e' = std_out e \<and> std_inv e'"
  using std.receive [of e] by (auto simp: getchar_def std_console_def)

text \<open>
  C13. \<open>getchar\<close> waits until input arrives and returns exactly the next byte of the input, for
  both UARTs; bytes are received in order, none is lost and nothing is printed.
\<close>

theorem getchar_correct:
  "(pp_in d \<noteq> [] \<longrightarrow> (\<exists>d'. getchar pp_bus potato_console d = Some (uint (hd (pp_in d)), d') \<and>
      pp_in d' = tl (pp_in d) \<and> pp_out d' = pp_out d)) \<and>
   (std_in e \<noteq> [] \<and> std_inv e \<longrightarrow> (\<exists>e'. getchar std_bus std_console e = Some (uint (hd (std_in e)), e') \<and>
      std_in e' = tl (std_in e) \<and> std_out e' = std_out e \<and> std_inv e'))"
  using getchar_potato [of d] getchar_std [of e] by blast

theorem getchar_correct_witness:
  "(\<exists>d'. getchar pp_bus potato_console (demo_pp [(3, 65)]) = Some (65, d')) \<and>
   (\<exists>e'. getchar std_bus std_console (demo_std [(2, 66), (0, 67)]) = Some (66, e') \<and> std_in e' = [67])"
  using getchar_correct [of "demo_pp [(3, 65)]" "demo_std [(2, 66), (0, 67)]"] by auto

end
