(* ===== verification/Soc_Uart.thy ===== *)
theory Soc_Uart
  imports Console
begin

text \<open>
  The console of the whole system on chip. \<^verbatim>\<open>soc.vhdl\<close> generates either the potato UART or the
  16550 behind the same window, as the generic \<open>UART0_IS_16550\<close> says, and the system controller
  reports the same generic to the firmware. \<open>soc_bus\<close> is the bus of this system; the console
  driver on it behaves as on the bus with the UART that is there, which the locale
  \<open>bus_embedding\<close> shows once for every way to extend a bus.
\<close>

section \<open>Definitions\<close>

datatype uart0 = Potato pp_uart | Uart16550 uart_top

primrec uart0_read :: "u64 \<Rightarrow> uart0 \<Rightarrow> (u8 \<times> uart0) sim" where
  "uart0_read off (Potato u) = bindS (pp_read off u) (\<lambda>(v, u'). ret (v, Potato u'))"
| "uart0_read off (Uart16550 u) = bindS (std_read (take_bit 3 (drop_bit 2 off)) u) (\<lambda>(v, u'). ret (v, Uart16550 u'))"

primrec uart0_write :: "u64 \<Rightarrow> u8 \<Rightarrow> uart0 \<Rightarrow> uart0 sim" where
  "uart0_write off v (Potato u) = bindS (pp_write off v u) (\<lambda>u'. ret (Potato u'))"
| "uart0_write off v (Uart16550 u) = bindS (std_write (take_bit 3 (drop_bit 2 off)) v u) (\<lambda>u'. ret (Uart16550 u'))"

definition soc_bus :: "uart0 soc bus" where
  "soc_bus = \<lparr>bus_rd = soc_rd uart0_read, bus_wr = soc_wr uart0_write\<rparr>"

text \<open>The UART is the one that the generic selects.\<close>

primrec is_16550 :: "uart0 \<Rightarrow> bool" where
  "is_16550 (Potato u) = False"
| "is_16550 (Uart16550 u) = True"

definition uart_generated :: "uart0 soc \<Rightarrow> bool" where
  "uart_generated d \<longleftrightarrow> is_16550 (soc_uart d) = UART0_IS_16550 (soc_sys d)"

section \<open>A bus inside another\<close>

definition io_addr :: "u64 \<Rightarrow> bool" where
  "io_addr a \<longleftrightarrow> in_window UART_BASE a \<or> in_window SYSCON_BASE a"

lemma io_uart: "off \<in> uart_offs \<Longrightarrow> io_addr (UART_BASE + off)"
  by (simp add: io_addr_def uart_window)

lemma io_uart_0: "io_addr UART_BASE"
  using io_uart [of 0] by (simp add: uart_offs_def)

lemma io_syscon: "off \<in> syscon_offs \<Longrightarrow> io_addr (SYSCON_BASE + off)"
  by (simp add: io_addr_def syscon_window)

lemma io_regs:
  "io_addr (UART_BASE + POTATO_CONSOLE_STATUS)" "io_addr (UART_BASE + POTATO_CONSOLE_TX)" "io_addr (UART_BASE + POTATO_CONSOLE_RX)"
  "io_addr (UART_BASE + POTATO_CONSOLE_CLOCK_DIV)" "io_addr (UART_BASE + UART_REG_LSR)" "io_addr (UART_BASE + UART_REG_RX)"
  "io_addr (UART_BASE + UART_REG_TX)" "io_addr (UART_BASE + UART_REG_DLL)" "io_addr (UART_BASE + UART_REG_DLM)"
  "io_addr (UART_BASE + UART_REG_LCR)" "io_addr (UART_BASE + UART_REG_MCR)" "io_addr (UART_BASE + UART_REG_FCR)"
  "io_addr (SYSCON_BASE + SYS_REG_CLKINFO)" "io_addr (SYSCON_BASE + SYS_REG_INFO)" "io_addr (SYSCON_BASE + SYS_REG_UART0_INFO)"
  by (auto intro!: io_uart io_uart_0 io_syscon simp: uart_offs_def syscon_offs_def uart_regs POTATO_CONSOLE_STATUS_def POTATO_CONSOLE_TX_def
      POTATO_CONSOLE_RX_def POTATO_CONSOLE_CLOCK_DIV_def UART_REG_LSR_def UART_REG_RX_def UART_REG_TX_def SYS_REG_CLKINFO_def
      SYS_REG_INFO_def SYS_REG_UART0_INFO_def)

lemma poll_while_embed:
  "poll_while f d = Some d' \<Longrightarrow> (\<And>d. f' (e d) = map_option (map_prod id e) (f d)) \<Longrightarrow> poll_while f' (e d) = Some (e d')"
proof (induction f d d' rule: poll_while.raw_induct [rotated, consumes 1, case_names step])
  case (step poll f d d')
  from step.hyps obtain r where r: "f d = Some r" "(if fst r then poll f (snd r) else Some (snd r)) = Some d'"
    by (auto simp: bind_eq_Some_conv)
  have f': "f' (e d) = Some (fst r, e (snd r))" using step.prems [of d] r(1) by (cases r) simp
  show ?case
  proof (cases "fst r")
    case True
    with r(2) have "poll f (snd r) = Some d'" by simp
    then have "poll_while f' (e (snd r)) = Some (e d')" by (rule step.IH) (rule step.prems)
    then show ?thesis using True f' by (subst poll_while.simps) simp
  next
    case False
    with r(2) f' show ?thesis by (subst poll_while.simps) simp
  qed
qed

locale bus_embedding =
  fixes e :: "'d \<Rightarrow> 'e"
    and b :: "'d bus"
    and b' :: "'e bus"
  assumes rd: "io_addr a \<Longrightarrow> bus_rd b' n a (e d) = map_option (map_prod id e) (bus_rd b n a d)"
    and wr: "io_addr a \<Longrightarrow> bus_wr b' n a v (e d) = map_option e (bus_wr b n a v d)"
begin

lemma acc:
  assumes "io_addr a"
  shows "readb b' a (e d) = map_option (map_prod id e) (readb b a d)" "readq b' a (e d) = map_option (map_prod id e) (readq b a d)"
    "writeb b' x a (e d) = map_option e (writeb b x a d)" "writeq b' y a (e d) = map_option e (writeq b y a d)"
  using assms by (simp_all add: readb_def readq_def writeb_def writeq_def rd wr option.map_comp o_def case_prod_unfold map_prod_def)

lemma polls:
  "potato_uart_tx_full b' UART_BASE (e d) = map_option (map_prod id e) (potato_uart_tx_full b UART_BASE d)"
  "potato_uart_rx_empty b' UART_BASE (e d) = map_option (map_prod id e) (potato_uart_rx_empty b UART_BASE d)"
  "std_uart_tx_full b' UART_BASE (e d) = map_option (map_prod id e) (std_uart_tx_full b UART_BASE d)"
  "std_uart_rx_empty b' UART_BASE (e d) = map_option (map_prod id e) (std_uart_rx_empty b UART_BASE d)"
  by (simp_all add: potato_uart_tx_full_def potato_uart_rx_empty_def potato_uart_reg_read_def std_uart_tx_full_def std_uart_rx_empty_def
      acc io_regs map_option_bind bind_map_option o_def case_prod_unfold cong del: bind_weak_cong)

lemma transfers:
  "potato_uart_write b' UART_BASE c (e d) = map_option e (potato_uart_write b UART_BASE c d)"
  "std_uart_write b' UART_BASE c (e d) = map_option e (std_uart_write b UART_BASE c d)"
  "potato_uart_read b' UART_BASE (e d) = map_option (map_prod id e) (potato_uart_read b UART_BASE d)"
  "std_uart_read b' UART_BASE (e d) = map_option (map_prod id e) (std_uart_read b UART_BASE d)"
  by (simp_all add: potato_uart_write_def potato_uart_reg_write_def potato_uart_read_def potato_uart_reg_read_def std_uart_write_def
      std_uart_read_def acc io_regs map_option_bind bind_map_option o_def case_prod_unfold cong del: bind_weak_cong)

lemma put_one_embed:
  assumes "put_one b cs c d = Some d'" "uart_base cs = UART_BASE"
  shows "put_one b' cs c (e d) = Some (e d')"
  using assms poll_while_embed [where e = e and f = "potato_uart_tx_full b UART_BASE", OF _ polls(1)]
    poll_while_embed [where e = e and f = "std_uart_tx_full b UART_BASE", OF _ polls(3)]
  by (cases "uart_is_std cs") (auto simp: put_one_def putchar_def bind_eq_Some_conv transfers)

lemma getchar_embed:
  assumes "getchar b cs d = Some (c, d')" "uart_base cs = UART_BASE"
  shows "getchar b' cs (e d) = Some (c, e d')"
  using assms poll_while_embed [where e = e and f = "potato_uart_rx_empty b UART_BASE", OF _ polls(2)]
    poll_while_embed [where e = e and f = "std_uart_rx_empty b UART_BASE", OF _ polls(4)]
  by (cases "uart_is_std cs") (auto simp: getchar_def bind_eq_Some_conv transfers)

lemma console_init_embed:
  assumes "console_init b d = Some (cs, d')"
  shows "console_init b' (e d) = Some (cs, e d')"
proof -
  have p: "potato_uart_init b' UART_BASE f (e d) = map_option e (potato_uart_init b UART_BASE f d)" for f d
    by (simp add: potato_uart_init_def potato_uart_reg_write_def acc io_regs)
  have s: "std_uart_init b' UART_BASE f (e d) = map_option e (std_uart_init b UART_BASE f d)" for f d
    by (simp add: std_uart_init_def Let_def acc io_regs map_option_bind bind_map_option o_def cong del: bind_weak_cong)
  from assms obtain clk d1 i d2 u d3 where
    1: "readq b (SYSCON_BASE + SYS_REG_CLKINFO) d = Some (clk, d1)" "readq b (SYSCON_BASE + SYS_REG_INFO) d1 = Some (i, d2)"
      "(if i AND SYS_REG_INFO_HAS_LARGE_SYSCON \<noteq> 0 then readq b (SYSCON_BASE + SYS_REG_UART0_INFO) d2 else Some (0, d2)) = Some (u, d3)"
    and 2: "(if u AND SYS_REG_UART_IS_16550 \<noteq> 0
       then Option.bind (std_uart_init b UART_BASE (clk AND SYS_REG_CLKINFO_FREQ_MASK) d3) (\<lambda>d4. Some (\<lparr>uart_is_std = True, uart_base = UART_BASE\<rparr>, d4))
       else Option.bind (potato_uart_init b UART_BASE (clk AND SYS_REG_CLKINFO_FREQ_MASK) d3)
         (\<lambda>d4. Some (\<lparr>uart_is_std = False, uart_base = UART_BASE\<rparr>, d4))) = Some (cs, d')"
    unfolding console_init_def Let_def by (simp only: bind_eq_Some_conv split_paired_Ex prod.case) blast
  have 3: "(if i AND SYS_REG_INFO_HAS_LARGE_SYSCON \<noteq> 0 then readq b' (SYSCON_BASE + SYS_REG_UART0_INFO) (e d2) else Some (0, e d2)) = Some (u, e d3)"
    using 1(3) by (auto simp: acc io_regs split: if_splits)
  show ?thesis
    unfolding console_init_def Let_def
    using 2 by (cases "u AND SYS_REG_UART_IS_16550 = 0") (auto simp: acc io_regs 1(1,2) 3 p s bind_eq_Some_conv)
qed

end

section \<open>The two UARTs inside the system\<close>

definition with_uart :: "('u \<Rightarrow> uart0) \<Rightarrow> 'u soc \<Rightarrow> uart0 soc" where
  "with_uart k d = \<lparr>soc_sys = soc_sys d, soc_uart = k (soc_uart d)\<rparr>"

lemma with_uart_simps [simp]: "soc_sys (with_uart k d) = soc_sys d" "soc_uart (with_uart k d) = k (soc_uart d)"
  by (simp_all add: with_uart_def)

lemma with_uart_cases:
  obtains (Potato) p where "d = with_uart Potato p" | (Uart16550) u where "d = with_uart Uart16550 u"
proof (cases "soc_uart d")
  case (Potato u)
  then have "d = with_uart Potato \<lparr>soc_sys = soc_sys d, soc_uart = u\<rparr>" by (simp add: with_uart_def)
  then show ?thesis by (rule that(1))
next
  case (Uart16550 u)
  then have "d = with_uart Uart16550 \<lparr>soc_sys = soc_sys d, soc_uart = u\<rparr>" by (simp add: with_uart_def)
  then show ?thesis by (rule that(2))
qed

lemma sim_ok_bind: "sim_ok (bindS m (\<lambda>x. ret (f x))) = map_option f (sim_ok m)"
  by (simp add: sim_ok_def bindS_def ret_def split: option.split sum.split)

lemma soc_rd_with_uart:
  assumes "\<And>off u. rd' off (k u) = bindS (rd off u) (\<lambda>(v, u'). ret (v, k u'))"
  shows "soc_rd rd' n a (with_uart k d) = map_option (map_prod id (with_uart k)) (soc_rd rd n a d)"
proof -
  have "sio_rd rd' a (with_uart k d) = map_option (map_prod id (with_uart k)) (sio_rd rd a d)" for a d
    by (simp add: sio_rd_def Let_def assms case_prod_unfold sim_ok_bind option.map_comp o_def)
      (simp add: with_uart_def)
  then show ?thesis
    by (simp add: soc_rd_def map_option_bind bind_map_option o_def case_prod_unfold cong del: bind_weak_cong)
qed

lemma soc_wr_with_uart:
  assumes "\<And>off v u. wr' off v (k u) = bindS (wr off v u) (\<lambda>u'. ret (k u'))"
  shows "soc_wr wr' n a v (with_uart k d) = map_option (with_uart k) (soc_wr wr n a v d)"
proof -
  have "sio_wr wr' a v (with_uart k d) = map_option (with_uart k) (sio_wr wr a v d)" for a v d
    by (simp add: sio_wr_def assms sim_ok_bind option.map_comp o_def) (simp add: with_uart_def)
  then show ?thesis
    by (simp add: soc_wr_def map_option_bind bind_map_option o_def cong del: bind_weak_cong)
qed

interpretation pp: bus_embedding "with_uart Potato" pp_bus soc_bus
  by unfold_locales (simp_all add: pp_bus_def soc_bus_def soc_rd_with_uart soc_wr_with_uart)

interpretation ns: bus_embedding "with_uart Uart16550" std_bus soc_bus
  by unfold_locales (simp_all add: std_bus_def soc_bus_def soc_rd_with_uart soc_wr_with_uart)

section \<open>The console of the system\<close>

definition uart_console :: "bool \<Rightarrow> console" where
  "uart_console std = \<lparr>uart_is_std = std, uart_base = UART_BASE\<rparr>"

lemma uart_console_simps [simp]:
  "uart_console False = potato_console" "uart_console True = std_console" "uart_base (uart_console std) = UART_BASE"
  "uart_base potato_console = UART_BASE" "uart_base std_console = UART_BASE"
  by (simp_all add: uart_console_def potato_console_def std_console_def)

primrec host_of :: "uart0 \<Rightarrow> host" where
  "host_of (Potato u) = pp_host u"
| "host_of (Uart16550 u) = u_host u"

text \<open>What the host has seen, and the input that the firmware has not taken yet.\<close>

definition con_out :: "uart0 soc \<Rightarrow> u8 list" where
  "con_out d = h_out (host_of (soc_uart d))"

definition con_in :: "uart0 soc \<Rightarrow> u8 list" where
  "con_in d = (case soc_uart d of
       Potato u \<Rightarrow> map snd (h_in (pp_host u))
     | Uart16550 u \<Rightarrow> (if u_pending u then [u_data u] else []) @ map snd (h_in (u_host u)))"

text \<open>The console is set up for the UART that is there.\<close>

definition con_ok :: "bool \<Rightarrow> uart0 soc \<Rightarrow> bool" where
  "con_ok std d \<longleftrightarrow> (case soc_uart d of Potato u \<Rightarrow> \<not> std | Uart16550 u \<Rightarrow> std \<and> \<not> u_dlab u)"

lemma con_simps [simp]:
  "con_out (with_uart Potato p) = pp_out p" "con_in (with_uart Potato p) = pp_in p" "con_ok std (with_uart Potato p) = (\<not> std)"
  "con_out (with_uart Uart16550 u) = std_out u" "con_in (with_uart Uart16550 u) = std_in u"
  "con_ok std (with_uart Uart16550 u) = (std \<and> std_inv u)"
  by (simp_all add: con_out_def con_in_def con_ok_def pp_out_def pp_in_def std_out_def std_in_def std_inv_def)

lemma con_put:
  assumes "con_ok std d"
  shows "\<exists>d'. put_one soc_bus (uart_console std) c d = Some d' \<and> con_ok std d' \<and> con_out d' = con_out d @ [c] \<and>
    con_in d' = con_in d \<and> soc_sys d' = soc_sys d"
proof (cases d rule: with_uart_cases)
  case (Potato p)
  from potato.put [OF TrueI, of c p] obtain p' where
    p': "put_one pp_bus potato_console c p = Some p'" "pp_out p' = pp_out p @ [c]" "pp_in p' = pp_in p"
    unfolding put_one_potato by blast
  from pp.put_one_embed [OF p'(1)] p' put_one_potato_keeps [OF p'(1)] show ?thesis
    using assms Potato by (intro exI [of _ "with_uart Potato p'"]) simp
next
  case (Uart16550 u)
  then have inv: "std_inv u" using assms by simp
  from std.put [OF this, of c] obtain u' where
    u': "put_one std_bus std_console c u = Some u'" "std_out u' = std_out u @ [c]" "std_in u' = std_in u" "std_inv u'"
    unfolding put_one_std by blast
  from ns.put_one_embed [OF u'(1)] u' put_one_std_keeps [OF inv u'(1)] show ?thesis
    using assms Uart16550 by (intro exI [of _ "with_uart Uart16550 u'"]) simp
qed

lemma con_get:
  assumes "con_ok std d" "con_in d \<noteq> []"
  shows "\<exists>d'. getchar soc_bus (uart_console std) d = Some (uint (hd (con_in d)), d') \<and> con_ok std d' \<and> con_out d' = con_out d \<and>
    con_in d' = tl (con_in d)"
proof (cases d rule: with_uart_cases)
  case (Potato p)
  with getchar_potato [of p] assms(2) obtain p' where
    p': "getchar pp_bus potato_console p = Some (uint (hd (pp_in p)), p')" "pp_in p' = tl (pp_in p)" "pp_out p' = pp_out p" by auto
  from pp.getchar_embed [OF p'(1)] p' show ?thesis
    using assms Potato by (intro exI [of _ "with_uart Potato p'"]) simp
next
  case (Uart16550 u)
  with getchar_std [of u] assms obtain u' where
    u': "getchar std_bus std_console u = Some (uint (hd (std_in u)), u')" "std_in u' = tl (std_in u)" "std_out u' = std_out u" "std_inv u'"
    by auto
  from ns.getchar_embed [OF u'(1)] u' show ?thesis
    using assms Uart16550 by (intro exI [of _ "with_uart Uart16550 u'"]) simp
qed

lemma con_init:
  assumes "uart_generated d"
  defines "std \<equiv> UART0_IS_16550 (soc_sys d)"
  shows "\<exists>d'. console_init soc_bus d = Some (uart_console std, d') \<and> con_ok std d' \<and> con_out d' = con_out d \<and>
    con_in d' = con_in d \<and> soc_sys d' = soc_sys d"
proof (cases d rule: with_uart_cases)
  case (Potato p)
  then have "\<not> UART0_IS_16550 (soc_sys p)" using assms(1) by (simp add: uart_generated_def)
  from pp.console_init_embed [OF console_init_potato [OF this]] this show ?thesis
    unfolding std_def Potato
    by (intro exI [of _ "with_uart Potato (p\<lparr>soc_uart := (soc_uart p)\<lparr>pp_div := ucast (clk_divisor (soc_sys p) - 1)\<rparr>\<rparr>)"])
      (simp add: pp_out_def pp_in_def)
next
  case (Uart16550 u)
  then have "UART0_IS_16550 (soc_sys u)" using assms(1) by (simp add: uart_generated_def)
  from ns.console_init_embed [OF console_init_std [OF this]] this show ?thesis
    unfolding std_def Uart16550
    by (intro exI [of _ "with_uart Uart16550 (u\<lparr>soc_uart := (soc_uart u)\<lparr>u_div := ucast (clk_divisor (soc_sys u)), u_lcr := 3, u_mcr := 3, u_fcr := 0\<rparr>\<rparr>)"])
      (simp add: std_out_def std_in_def std_inv_def u_dlab_def)
qed

lemma con_syscon:
  "off \<in> syscon_offs \<Longrightarrow> readq soc_bus (SYSCON_BASE + off) d = Some (syscon_read (soc_sys d) off, d)"
  by (simp add: readq_def soc_bus_def soc_rd_syscon)

interpretation con: char_sink "put_one soc_bus (uart_console std)" con_out con_in "\<lambda>d. con_ok std d \<and> soc_sys d = s" for std s
  by unfold_locales (use con_put in blast)

end
