(* ===== verification/Hello_World.thy ===== *)
theory Hello_World
  imports Soc_Uart
begin

text \<open>
  \<^verbatim>\<open>hello_world/hello_world.c\<close>: the first program run on the core. It prints a logo with the
  hash of the source the hardware was built from, read from the system controller, and
  then echoes what is typed. The endless echo loop is given by its first \<open>n\<close> rounds.
\<close>

section \<open>Definitions\<close>

definition mw_logo1 :: "u8 list" where
  "mw_logo1 = [10] @ cbytes ''   .oOOo.     '' @ [10] @ cbytes '' .'' @ [34] @ cbytes ''      '' @ [34] @ cbytes ''. '' @ [10] @
     cbytes '' ;  .mw.  ;   Microwatt, it works.'' @ [10] @ cbytes ''  . '' @ [39] @ cbytes ''  '' @ [39] @ cbytes '' .    '' @ [10] @
     cbytes ''   '' @ [92] @ cbytes '' || /     HDL Git SHA1: ''"

definition mw_logo2 :: "u8 list" where
  "mw_logo2 = [10] @ cbytes ''    ;..;      '' @ [10] @ cbytes ''    ;..;      '' @ [10] @ cbytes ''    `ww'' @ [39] @
     cbytes ''      '' @ [10, 10]"

definition puts_lit :: "('d, 'e) bus_scheme \<Rightarrow> console \<Rightarrow> u8 list \<Rightarrow> 'd \<Rightarrow> 'd option" where
  "puts_lit b cs s d = map_option snd (puts b cs (blk (s @ [0])) 0 d)"

primrec git_loop :: "('d, 'e) bus_scheme \<Rightarrow> console \<Rightarrow> nat \<Rightarrow> u64 \<Rightarrow> 'd \<Rightarrow> 'd option" where
  "git_loop b cs 0 gitinfo d = Some d"
| "git_loop b cs (Suc n) gitinfo d = do {
     let c = (ucast (drop_bit 52 gitinfo AND 0xf) :: u8);
     (_, d') \<leftarrow> putchar b cs (if 10 \<le> c then 0x61 + ucast c - 10 else 0x30 + ucast c) d;
     git_loop b cs n (push_bit 4 gitinfo) d'
   }"

definition hello_banner :: "('d, 'e) bus_scheme \<Rightarrow> 'd \<Rightarrow> (console \<times> 'd) option" where
  "hello_banner b d = do {
     (cs, d1) \<leftarrow> console_init b d;
     d2 \<leftarrow> puts_lit b cs mw_logo1 d1;
     (gitinfo, d3) \<leftarrow> readq b (SYSCON_BASE + SYS_REG_GIT_INFO) d2;
     let dirty = (drop_bit 63 gitinfo \<noteq> 0);
     d4 \<leftarrow> git_loop b cs 14 gitinfo d3;
     d5 \<leftarrow> (if dirty then puts_lit b cs (cbytes ''-dirty'') d4 else Some d4);
     d6 \<leftarrow> puts_lit b cs mw_logo2 d5;
     Some (cs, d6)
   }"

primrec echo :: "('d, 'e) bus_scheme \<Rightarrow> console \<Rightarrow> nat \<Rightarrow> 'd \<Rightarrow> 'd option" where
  "echo b cs 0 d = Some d"
| "echo b cs (Suc n) d = do {
     (i, d1) \<leftarrow> getchar b cs d;
     let c = (word_of_int i :: u8);
     (_, d2) \<leftarrow> putchar b cs (ucast c) d1;
     d3 \<leftarrow> (if c = 13 then map_option snd (putchar b cs 10 d2) else Some d2);
     echo b cs n d3
   }"

section \<open>Printing\<close>

lemma putchar_snd: "map_option snd (putchar b cs x d) = put_one b cs (ucast x) d"
  by (simp add: put_one_def putchar_def map_option_bind o_def cong del: bind_weak_cong)

lemma putchar_bind: "Option.bind (putchar b cs x d) (\<lambda>(u, d'). f d') = Option.bind (put_one b cs (ucast x) d) f"
  by (simp add: putchar_snd [symmetric] map_conv_bind_option o_def case_prod_unfold cong del: bind_weak_cong)

text \<open>The fourteen hexadecimal digits of the low 56 bits, most significant first.\<close>

definition hex_char :: "u64 \<Rightarrow> u8" where
  "hex_char v = (if 10 \<le> v then 0x61 + ucast v - 10 else 0x30 + ucast v)"

definition nibble :: "u64 \<Rightarrow> nat \<Rightarrow> u64" where
  "nibble v i = take_bit 4 (drop_bit (4 * i) v)"

definition hex_digits :: "nat \<Rightarrow> u64 \<Rightarrow> u8 list" where
  "hex_digits n v = map (\<lambda>i. hex_char (nibble v i)) (rev [0..<n])"

lemma nibble_shift: "k \<le> 13 \<Longrightarrow> drop_bit 52 (push_bit (4 * k) v) AND 0xf = nibble v (13 - k)"
proof -
  assume k: "k \<le> 13"
  have "x AND 0xf = take_bit 4 x" for x :: u64 by (simp add: take_bit_eq_mask mask_numeral)
  moreover have "take_bit 4 (drop_bit 52 (push_bit (4 * k) v)) = nibble v (13 - k)"
    using k by (auto simp: nibble_def bit_eq_iff bit_simps) (auto simp: diff_mult_distrib2)
  ultimately show ?thesis by simp
qed

definition git_char :: "u64 \<Rightarrow> u8" where
  "git_char v = ucast (let c = (ucast v :: u8) in if 10 \<le> c then 0x61 + ucast c - 10 else (0x30 + ucast c :: u32))"

lemma git_char_all: "list_all (\<lambda>n. git_char (of_nat n) = hex_char (of_nat n)) [0..<16]"
  by code_simp

lemma git_char_eq: "v < 16 \<Longrightarrow> git_char v = hex_char v"
proof -
  assume "v < 16"
  then have "unat v \<in> set [0..<16]" by (simp add: word_less_nat_alt)
  with git_char_all have "git_char (of_nat (unat v)) = hex_char (of_nat (unat v))" by (simp only: list_all_iff)
  then show ?thesis by simp
qed

lemma nibble_less: "nibble v i < 16"
  using take_bit_nat_less_exp [of 4 "unat (drop_bit (4 * i) v)"]
  by (simp add: nibble_def word_less_nat_alt unsigned_take_bit_eq)

lemma hex_digits_Suc: "hex_digits (Suc n) v = hex_char (nibble v n) # hex_digits n v"
  by (simp add: hex_digits_def)

lemma git_loop_eq:
  "n \<le> 14 \<Longrightarrow> git_loop b cs n (push_bit (4 * (14 - n)) g) d = put_list (put_one b cs) (hex_digits n g) d"
proof (induction n arbitrary: d)
  case 0
  then show ?case by (simp add: hex_digits_def)
next
  case (Suc n)
  have k: "14 - Suc n = 13 - n" "4 * (14 - n) = 4 + 4 * (13 - n)" using Suc.prems by simp_all
  have nib: "drop_bit 52 (push_bit (4 * (14 - Suc n)) g) AND 0xf = nibble g n"
    using nibble_shift [of "13 - n" g] Suc.prems by (simp add: k)
  have sh: "push_bit 4 (push_bit (4 * (14 - Suc n)) g) = push_bit (4 * (14 - n)) g"
    by (simp only: k push_bit_push_bit)
  have "git_loop b cs (Suc n) (push_bit (4 * (14 - Suc n)) g) d =
      Option.bind (put_one b cs (git_char (nibble g n)) d) (git_loop b cs n (push_bit (4 * (14 - n)) g))"
    by (simp only: git_loop.simps nib sh Let_def putchar_bind git_char_def)
  also have "git_loop b cs n (push_bit (4 * (14 - n)) g) = put_list (put_one b cs) (hex_digits n g)"
    using Suc by (intro ext) simp
  also have "git_char (nibble g n) = hex_char (nibble g n)" by (rule git_char_eq [OF nibble_less])
  finally show ?case by (simp add: hex_digits_Suc)
qed

lemma puts_lit_eq:
  assumes "0 \<notin> set s" "length s < addr_max"
  shows "puts_lit b cs s d = put_list (put_one b cs) (crlf s) d"
proof -
  have "cstr (blk (s @ [0])) 0 s"
    using assms by (simp add: cstr_arr arr_nth blk_def unat_of_nat_addr)
  from puts_loop_eq [OF this] show ?thesis
    by (simp add: puts_lit_def puts_def map_option_bind o_def cong del: bind_weak_cong)
qed

text \<open>The text of the banner.\<close>

definition banner :: "56 word \<Rightarrow> bool \<Rightarrow> u8 list" where
  "banner hash dirty = crlf mw_logo1 @ hex_digits 14 (ucast hash) @ (if dirty then cbytes ''-dirty'' else []) @ crlf mw_logo2"

lemma reg_gitinfo_dirty: "bit (reg_gitinfo s) 63 = GIT_DIRTY s"
  by (auto simp: reg_gitinfo_def bit_simps dest: bit_imp_le_length)

lemma reg_gitinfo_hash: "hex_digits 14 (reg_gitinfo s) = hex_digits 14 (ucast (GIT_HASH s))"
proof -
  have "nibble (reg_gitinfo s) i = nibble (ucast (GIT_HASH s)) i" if "i < 14" for i
    unfolding nibble_def reg_gitinfo_def
    by (rule bit_word_eqI) (use that in \<open>auto simp: bit_simps mask_numeral dest: bit_imp_le_length\<close>)
  then show ?thesis by (auto simp: hex_digits_def)
qed

lemma logo_ok:
  "0 \<notin> set mw_logo1" "0 \<notin> set mw_logo2" "0 \<notin> set (cbytes ''-dirty'')" "crlf (cbytes ''-dirty'') = cbytes ''-dirty''"
  "length mw_logo1 < addr_max" "length mw_logo2 < addr_max" "length (cbytes ''-dirty'') < addr_max"
  by (simp_all add: mw_logo1_def mw_logo2_def cbytes_def crlf_def addr_max_def)

lemma dirty_bit: "drop_bit 63 g \<noteq> 0 \<longleftrightarrow> bit g 63" for g :: u64
proof -
  have "bit (drop_bit 63 g) n = bit (of_bool (bit g 63) :: u64) n" for n
    by (cases n) (auto simp: bit_simps dest: bit_imp_le_length)
  then have "drop_bit 63 g = of_bool (bit g 63)" by (simp add: bit_eq_iff)
  then show ?thesis by simp
qed

lemma put_list_sink:
  assumes "con_ok std e"
  obtains e' where "put_list (put_one soc_bus (uart_console std)) xs e = Some e'" "con_ok std e'" "con_out e' = con_out e @ xs"
    "con_in e' = con_in e" "soc_sys e' = soc_sys e"
  using con.put_list [of std e "soc_sys e" xs] assms by blast

lemma hello_banner_eq:
  assumes "uart_generated d"
  defines "std \<equiv> UART0_IS_16550 (soc_sys d)"
  shows "\<exists>d'. hello_banner soc_bus d = Some (uart_console std, d') \<and> con_ok std d' \<and>
    con_out d' = con_out d @ banner (GIT_HASH (soc_sys d)) (GIT_DIRTY (soc_sys d)) \<and> con_in d' = con_in d"
proof -
  let ?p = "put_list (put_one soc_bus (uart_console std))" and ?g = "reg_gitinfo (soc_sys d)"
  from con_init [OF assms(1)] obtain d1 where d1: "console_init soc_bus d = Some (uart_console std, d1)" "con_ok std d1"
    "con_out d1 = con_out d" "con_in d1 = con_in d" "soc_sys d1 = soc_sys d" unfolding std_def by blast
  obtain d2 where d2: "?p (crlf mw_logo1) d1 = Some d2" "con_ok std d2" "con_out d2 = con_out d1 @ crlf mw_logo1" "con_in d2 = con_in d1"
    "soc_sys d2 = soc_sys d" using put_list_sink [OF d1(2)] d1(5) by metis
  have git: "readq soc_bus (SYSCON_BASE + SYS_REG_GIT_INFO) d2 = Some (?g, d2)"
    using con_syscon [of "0x50" d2] by (simp add: SYS_REG_GIT_INFO_def syscon_read_def syscon_offs_def d2(5))
  let ?dirty = "if bit ?g 63 then cbytes ''-dirty'' else []"
  obtain d3 where d3: "?p (hex_digits 14 ?g) d2 = Some d3" "con_ok std d3" "con_out d3 = con_out d2 @ hex_digits 14 ?g" "con_in d3 = con_in d2"
    by (rule put_list_sink [OF d2(2)])
  obtain d4 where d4: "?p ?dirty d3 = Some d4" "con_ok std d4" "con_out d4 = con_out d3 @ ?dirty" "con_in d4 = con_in d3"
    by (rule put_list_sink [OF d3(2)])
  obtain d5 where d5: "?p (crlf mw_logo2) d4 = Some d5" "con_ok std d5" "con_out d5 = con_out d4 @ crlf mw_logo2" "con_in d5 = con_in d4"
    by (rule put_list_sink [OF d4(2)])
  have loop: "git_loop soc_bus (uart_console std) 14 ?g d2 = Some d3"
    using git_loop_eq [where n = 14 and g = ?g and d = d2 and b = soc_bus and cs = "uart_console std"] d3(1) by simp
  have dirty: "(if drop_bit 63 ?g \<noteq> 0 then ?p (cbytes ''-dirty'') d3 else Some d3) = Some d4"
    using d4(1) by (cases "bit ?g 63") (simp_all only: dirty_bit if_True if_False put_list.simps)
  have "hello_banner soc_bus d = Some (uart_console std, d5)"
    unfolding hello_banner_def d1(1)
    by (simp only: Option.bind.bind_lunit prod.case puts_lit_eq logo_ok not_False_eq_True d2(1) git Let_def loop dirty d5(1))
  then show ?thesis using d1 d2 d3 d4 d5 by (simp add: banner_def reg_gitinfo_dirty reg_gitinfo_hash)
qed

section \<open>Echo\<close>

definition echo_text :: "u8 list \<Rightarrow> u8 list" where
  "echo_text s = concat (map (\<lambda>c. if c = 13 then [13, 10] else [c]) s)"

lemma echo_eq:
  "con_ok std d \<Longrightarrow> n \<le> length (con_in d) \<Longrightarrow>
   \<exists>d'. echo soc_bus (uart_console std) n d = Some d' \<and> con_out d' = con_out d @ echo_text (take n (con_in d)) \<and>
     con_in d' = drop n (con_in d)"
proof (induction n arbitrary: d)
  case 0
  then show ?case by (simp add: echo_text_def)
next
  case (Suc n)
  let ?cs = "uart_console std"
  from Suc.prems obtain c i where i: "con_in d = c # i" "n \<le> length i" by (cases "con_in d") auto
  from con_get [OF Suc.prems(1)] i obtain d1 where
    1: "getchar soc_bus ?cs d = Some (uint c, d1)" "con_ok std d1" "con_in d1 = i" "con_out d1 = con_out d" by auto
  from con_put [OF 1(2), of c] obtain d2 where
    2: "put_one soc_bus ?cs c d1 = Some d2" "con_ok std d2" "con_out d2 = con_out d1 @ [c]" "con_in d2 = i" unfolding 1(3) by blast
  obtain d3 where 3: "(if c = 13 then put_one soc_bus ?cs 10 d2 else Some d2) = Some d3" "con_ok std d3"
    "con_out d3 = con_out d2 @ (if c = 13 then [10] else [])" "con_in d3 = i"
    using con_put [OF 2(2), of 10] 2(2,4) by (cases "c = 13") auto
  have "echo soc_bus ?cs (Suc n) d = echo soc_bus ?cs n d3"
    using 1(1) 2(1) 3(1) by (cases "c = 13") (simp_all add: putchar_bind putchar_snd)
  with Suc.IH [OF 3(2)] 1 2 3 i show ?case by (auto simp: echo_text_def)
qed

section \<open>Correctness\<close>

text \<open>
  C7. On the simulated system, with the 16550 that \<^verbatim>\<open>soc.vhdl\<close> selects by default as well as with
  the potato UART, the program prints the logo with exactly the fourteen hexadecimal digits of the
  hash in the system controller, marked when it is dirty, and then echoes each of the next \<open>n\<close>
  characters it receives, following every carriage return with a newline. Later input is left.
\<close>

theorem hello_world_correct:
  assumes "uart_generated d" "n \<le> length (con_in d)"
  shows "\<exists>cs d1 d2. hello_banner soc_bus d = Some (cs, d1) \<and> echo soc_bus cs n d1 = Some d2 \<and>
    con_out d2 = con_out d @ banner (GIT_HASH (soc_sys d)) (GIT_DIRTY (soc_sys d)) @ echo_text (take n (con_in d)) \<and>
    con_in d2 = drop n (con_in d)"
proof -
  from hello_banner_eq [OF assms(1)] obtain d1 where
    1: "hello_banner soc_bus d = Some (uart_console (UART0_IS_16550 (soc_sys d)), d1)" "con_ok (UART0_IS_16550 (soc_sys d)) d1"
    "con_out d1 = con_out d @ banner (GIT_HASH (soc_sys d)) (GIT_DIRTY (soc_sys d))" "con_in d1 = con_in d" by blast
  with echo_eq [OF 1(2), of n] assms(2) show ?thesis by auto
qed

definition demo_soc :: "bool \<Rightarrow> (nat \<times> u8) list \<Rightarrow> uart0 soc" where
  "demo_soc std i = (if std then with_uart Uart16550 (demo_std i) else with_uart Potato (demo_pp i))"

lemma demo_soc_simps [simp]:
  "soc_sys (demo_soc std i) = demo_syscon std" "uart_generated (demo_soc std i)" "con_out (demo_soc std i) = []"
  "con_in (demo_soc std i) = map snd i"
proof -
  have "soc_sys (demo_pp i) = demo_syscon False" by (simp add: demo_pp_def)
  then show "soc_sys (demo_soc std i) = demo_syscon std" "uart_generated (demo_soc std i)" "con_out (demo_soc std i) = []"
    "con_in (demo_soc std i) = map snd i"
    by (simp_all add: demo_soc_def uart_generated_def)
qed

theorem hello_world_correct_witness:
  "(\<exists>cs d1 d2. hello_banner soc_bus (demo_soc False [(1, 65), (0, 13)]) = Some (cs, d1) \<and> echo soc_bus cs 2 d1 = Some d2 \<and>
     con_out d2 = banner 0 False @ [65, 13, 10]) \<and>
   (\<exists>cs d1 d2. hello_banner soc_bus (demo_soc True [(1, 65), (0, 13)]) = Some (cs, d1) \<and> echo soc_bus cs 2 d1 = Some d2 \<and>
     con_out d2 = banner 0 False @ [65, 13, 10])"
proof -
  have g: "GIT_HASH (demo_syscon std) = 0" "\<not> GIT_DIRTY (demo_syscon std)" for std by (simp_all add: demo_syscon_def)
  show ?thesis
    using hello_world_correct [of "demo_soc False [(1, 65), (0, 13)]" 2] hello_world_correct [of "demo_soc True [(1, 65), (0, 13)]" 2] g
    by (auto simp: echo_text_def)
qed

end
