(* ===== verification/Boot.thy ===== *)
theory Boot
  imports Elf64 Libc_Format Libc_Mem Hello_World
begin

text \<open>
  \<^verbatim>\<open>litedram/gen-src/sdram_init/main.c\<close>: the boot firmware. It prints what the system controller
  reports, sets up the SPI flash for quad reads, has the DRAM initialised and boots from
  block memory, from an ELF image in flash or from the payload behind the firmware.

  Device registers are on the bus; the DRAM, the memory map of the flash, the payload and
  the stack are bytes of one heap, so that a segment which is loaded over a local variable
  changes it. The addresses of the two local structures are the record \<open>locals\<close>. The generated DRAM
  initialisation and the revision it was generated from are the record \<open>sdram\<close>.
  Instructions that only affect caches and delays have no effect in the model.
\<close>

section \<open>Definitions\<close>

subsection \<open>Output\<close>

text \<open>The local array of \<open>_printf\<close>; its first contents are never read.\<close>

definition printf_buffer :: heap where
  "printf_buffer = upd_bytes Map.empty 1 (replicate 128 0)"

definition printf :: "('d, 'e) bus_scheme \<Rightarrow> console \<Rightarrow> heap \<Rightarrow> ptr \<Rightarrow> u64 list \<Rightarrow> 'd \<Rightarrow> (int \<times> 'd) option" where
  "printf b cs ro fmt ap d = do {
     (count, buffer) \<leftarrow> vsnprintf ro printf_buffer 1 128 fmt ap;
     (_, d') \<leftarrow> puts b cs buffer 1 d;
     Some (count, d')
   }"

definition printf_lit :: "('d, 'e) bus_scheme \<Rightarrow> console \<Rightarrow> u8 list \<Rightarrow> u64 list \<Rightarrow> 'd \<Rightarrow> 'd option" where
  "printf_lit b cs fmt ap d = map_option snd (printf b cs (blk (fmt @ [0])) 0 ap d)"

definition printf_if :: "('d, 'e) bus_scheme \<Rightarrow> console \<Rightarrow> bool \<Rightarrow> u8 list \<Rightarrow> 'd \<Rightarrow> 'd option" where
  "printf_if b cs c fmt d = (if c then printf_lit b cs fmt [] d else Some d)"

subsection \<open>SPI flash\<close>

definition SPI_CMD_RDID :: u8 where "SPI_CMD_RDID = 0x9f"
definition SPI_CMD_QUAD_FREAD :: u8 where "SPI_CMD_QUAD_FREAD = 0x6b"
definition SPI_CMD_QUAD_FREAD_4BA :: u8 where "SPI_CMD_QUAD_FREAD_4BA = 0x6c"
definition SPI_CMD_RDCR :: u8 where "SPI_CMD_RDCR = 0x35"
definition SPI_CMD_WREN :: u8 where "SPI_CMD_WREN = 0x06"
definition SPI_CMD_RDSR :: u8 where "SPI_CMD_RDSR = 0x05"
definition SPI_CMD_WWR :: u8 where "SPI_CMD_WWR = 0x01"

definition fl_cs_on :: "('d, 'e) bus_scheme \<Rightarrow> 'd \<Rightarrow> 'd option" where
  "fl_cs_on b d = writeb b SPI_REG_CTRL_MANUAL_CS (SPI_FCTRL_BASE + SPI_REG_CTRL) d"

definition fl_cs_off :: "('d, 'e) bus_scheme \<Rightarrow> 'd \<Rightarrow> 'd option" where
  "fl_cs_off b d = writeb b 0 (SPI_FCTRL_BASE + SPI_REG_CTRL) d"

definition wait_wip_round :: "('d, 'e) bus_scheme \<Rightarrow> 'd \<Rightarrow> (bool \<times> 'd) option" where
  "wait_wip_round b d = do {
     d1 \<leftarrow> fl_cs_on b d;
     d2 \<leftarrow> writeb b SPI_CMD_RDSR (SPI_FCTRL_BASE + SPI_REG_DATA) d1;
     (sr, d3) \<leftarrow> readb b (SPI_FCTRL_BASE + SPI_REG_DATA) d2;
     d4 \<leftarrow> fl_cs_off b d3;
     Some (sr AND 1 \<noteq> 0, d4)
   }"

definition wait_wip :: "('d, 'e) bus_scheme \<Rightarrow> 'd \<Rightarrow> 'd option" where
  "wait_wip b d = poll_while (wait_wip_round b) d"

definition send_wren :: "('d, 'e) bus_scheme \<Rightarrow> 'd \<Rightarrow> 'd option" where
  "send_wren b d = do {
     d1 \<leftarrow> fl_cs_on b d;
     d2 \<leftarrow> writeb b SPI_CMD_WREN (SPI_FCTRL_BASE + SPI_REG_DATA) d1;
     fl_cs_off b d2
   }"

definition check_spansion_quad_mode :: "('d, 'e) bus_scheme \<Rightarrow> console \<Rightarrow> 'd \<Rightarrow> 'd option" where
  "check_spansion_quad_mode b cs d = do {
     d1 \<leftarrow> writeb b SPI_CMD_RDCR (SPI_FCTRL_BASE + SPI_REG_DATA) d;
     d2 \<leftarrow> fl_cs_on b d1;
     d3 \<leftarrow> writeb b SPI_CMD_RDCR (SPI_FCTRL_BASE + SPI_REG_DATA) d2;
     (cf1, d4) \<leftarrow> readb b (SPI_FCTRL_BASE + SPI_REG_DATA) d3;
     d5 \<leftarrow> fl_cs_off b d4;
     d6 \<leftarrow> printf_lit b cs (cbytes '' Cypress/Spansion (CF1=%02x)'') [ucast cf1] d5;
     if cf1 AND 0x02 \<noteq> 0 then Some d6
     else do {
       e1 \<leftarrow> printf_lit b cs (cbytes ''  enabling QUAD'') [] d6;
       e2 \<leftarrow> send_wren b e1;
       e3 \<leftarrow> fl_cs_on b e2;
       e4 \<leftarrow> writeb b SPI_CMD_WWR (SPI_FCTRL_BASE + SPI_REG_DATA) e3;
       e5 \<leftarrow> writeb b 0x00 (SPI_FCTRL_BASE + SPI_REG_DATA) e4;
       e6 \<leftarrow> writeb b (cf1 OR 0x02) (SPI_FCTRL_BASE + SPI_REG_DATA) e5;
       e7 \<leftarrow> writeb b 0 (SPI_FCTRL_BASE + SPI_REG_CTRL) e6;
       e8 \<leftarrow> fl_cs_off b e7;
       wait_wip b e8
     }
   }"

definition check_enable_issi_quad :: "('d, 'e) bus_scheme \<Rightarrow> console \<Rightarrow> 'd \<Rightarrow> (u32 \<times> 'd) option" where
  "check_enable_issi_quad b cs d = do {
     d1 \<leftarrow> fl_cs_on b d;
     d2 \<leftarrow> writeb b SPI_CMD_RDSR (SPI_FCTRL_BASE + SPI_REG_DATA) d1;
     (sr, d3) \<leftarrow> readb b (SPI_FCTRL_BASE + SPI_REG_DATA) d2;
     d4 \<leftarrow> fl_cs_off b d3;
     d9 \<leftarrow> (if sr AND 0x40 = 0 then do {
         d5 \<leftarrow> printf_lit b cs (cbytes '' [enabling quad]'') [] d4;
         d6 \<leftarrow> send_wren b d5;
         d7 \<leftarrow> fl_cs_on b d6;
         d8 \<leftarrow> writeb b SPI_CMD_WWR (SPI_FCTRL_BASE + SPI_REG_DATA) d7;
         e1 \<leftarrow> writeb b (sr OR 0x40) (SPI_FCTRL_BASE + SPI_REG_DATA) d8;
         e2 \<leftarrow> fl_cs_off b e1;
         wait_wip b e2
       } else Some d4);
     Some (ucast SPI_CMD_QUAD_FREAD_4BA OR push_bit SPI_REG_AUTO_CFG_DUMMIES_SHIFT 0x07 OR
       SPI_REG_AUT_CFG_MODE_QUAD OR SPI_REG_AUTO_CFG_ADDR4 OR push_bit SPI_REG_AUTO_CFG_CSTOUT_SHIFT 0x20, d9)
   }"

definition default_autocfg :: u32 where
  "default_autocfg = ucast SPI_CMD_QUAD_FREAD OR push_bit SPI_REG_AUTO_CFG_DUMMIES_SHIFT 0x07 OR
     SPI_REG_AUT_CFG_MODE_QUAD OR push_bit SPI_REG_AUTO_CFG_CSTOUT_SHIFT 0x20"

definition read_flash_id :: "('d, 'e) bus_scheme \<Rightarrow> 'd \<Rightarrow> ((u8 \<times> u8 \<times> u8) \<times> 'd) option" where
  "read_flash_id b d = do {
     d1 \<leftarrow> fl_cs_on b d;
     d2 \<leftarrow> writeb b SPI_CMD_RDID (SPI_FCTRL_BASE + SPI_REG_DATA) d1;
     (id0, d3) \<leftarrow> readb b (SPI_FCTRL_BASE + SPI_REG_DATA) d2;
     (id1, d4) \<leftarrow> readb b (SPI_FCTRL_BASE + SPI_REG_DATA) d3;
     (id2, d5) \<leftarrow> readb b (SPI_FCTRL_BASE + SPI_REG_DATA) d4;
     d6 \<leftarrow> fl_cs_off b d5;
     Some ((id0, id1, id2), d6)
   }"

definition is_spansion :: "u8 \<times> u8 \<times> u8 \<Rightarrow> bool" where
  "is_spansion i \<longleftrightarrow> (case i of (id0, id1, id2) \<Rightarrow>
     id0 = 0x01 \<and> (id1 = 0x02 \<or> id1 = 0x20 \<or> id1 = 0x60) \<and> (id2 = 0x18 \<or> id2 = 0x19))"

definition is_micron :: "u8 \<times> u8 \<times> u8 \<Rightarrow> bool" where
  "is_micron i \<longleftrightarrow> i = (0x20, 0xba, 0x18)"

definition is_issi :: "u8 \<times> u8 \<times> u8 \<Rightarrow> bool" where
  "is_issi i \<longleftrightarrow> (case i of (id0, id1, id2) \<Rightarrow> id0 = 0x9d \<and> id1 AND NOT 0x10 = 0x60 \<and> id2 = 0x19)"

definition set_autocfg :: "('d, 'e) bus_scheme \<Rightarrow> u32 \<Rightarrow> 'd \<Rightarrow> 'd option" where
  "set_autocfg b autocfg d = do {
     (cfg, d1) \<leftarrow> readl b (SPI_FCTRL_BASE + SPI_REG_AUTO_CFG) d;
     writel b ((cfg AND SPI_REG_AUTO_CFG_CKDIV_MASK) OR autocfg) (SPI_FCTRL_BASE + SPI_REG_AUTO_CFG) d1
   }"

definition check_flash :: "('d, 'e) bus_scheme \<Rightarrow> console \<Rightarrow> 'd \<Rightarrow> (bool \<times> 'd) option" where
  "check_flash b cs d = do {
     ((id0, id1, id2), d1) \<leftarrow> read_flash_id b d;
     d2 \<leftarrow> printf_lit b cs (cbytes ''  SPI FLASH ID: %02x%02x%02x'') [ucast id0, ucast id1, ucast id2] d1;
     if id0 OR id1 OR id2 = 0 \<or> id0 AND id1 AND id2 = 0xff then Some (False, d2)
     else do {
       d3 \<leftarrow> (if is_spansion (id0, id1, id2) then check_spansion_quad_mode b cs d2 else Some d2);
       d4 \<leftarrow> printf_if b cs (is_micron (id0, id1, id2)) (cbytes '' Micron'') d3;
       (autocfg, d6) \<leftarrow> (if is_issi (id0, id1, id2) then do {
           d5 \<leftarrow> printf_lit b cs (cbytes '' ISSI'') [] d4;
           check_enable_issi_quad b cs d5
         } else Some (default_autocfg, d4));
       d8 \<leftarrow> (if is_spansion (id0, id1, id2) \<or> is_micron (id0, id1, id2) \<or> is_issi (id0, id1, id2) then do {
           d7 \<leftarrow> printf_lit b cs (cbytes '' [quad IO mode]'') [] d6;
           set_autocfg b autocfg d7
         } else Some d6);
       d9 \<leftarrow> printf_lit b cs [10] [] d8;
       Some (True, d9)
     }
   }"

text \<open>The address of a byte of the flash is a sum of two 32-bit numbers.\<close>

definition flash_addr :: "u32 \<Rightarrow> ptr" where
  "flash_addr offset = ucast ((ucast SPI_FLASH_BASE :: u32) + offset)"

definition fl_read :: "heap \<Rightarrow> ptr \<Rightarrow> u32 \<Rightarrow> u32 \<Rightarrow> heap option" where
  "fl_read h dst offset sz = map_option snd (memcpy h dst (flash_addr offset) (ucast sz))"

subsection \<open>Booting\<close>

record locals =
  ehdr_at :: ptr
  ph_at :: ptr

definition minus_1ul :: u64 where
  "minus_1ul = - 1"

partial_function (option) phdr_loop ::
  "('d, 'e) bus_scheme \<Rightarrow> console \<Rightarrow> locals \<Rightarrow> u32 \<Rightarrow> u32 \<Rightarrow> u32 \<Rightarrow> 'd \<Rightarrow> heap \<Rightarrow> ('d \<times> heap) option" where
  "phdr_loop b cs l offset i poff d h = do {
     ehdr \<leftarrow> load_ehdr h (ehdr_at l);
     if \<not> i < ucast (e_phnum ehdr) then Some (d, h)
     else do {
       h1 \<leftarrow> fl_read h (ph_at l) poff (of_nat SIZEOF_PHDR);
       ph \<leftarrow> load_phdr h1 (ph_at l);
       if p_type ph \<noteq> PT_LOAD then phdr_loop b cs l offset (i + 1) poff d h1
       else do {
         d1 \<leftarrow> printf_lit b cs (cbytes ''Copy segment %d (0x%x bytes) to %p'' @ [10])
           [ucast i, ucast (ucast (p_filesz ph) :: u32), p_vaddr ph] d;
         h2 \<leftarrow> fl_read h1 (p_vaddr ph) (ucast (ucast offset + p_offset ph)) (ucast (p_filesz ph));
         ehdr2 \<leftarrow> load_ehdr h2 (ehdr_at l);
         phdr_loop b cs l offset (i + 1) (poff + ucast (e_phentsize ehdr2)) d1 h2
       }
     }
   }"

definition dump_hdr :: "('d, 'e) bus_scheme \<Rightarrow> console \<Rightarrow> Elf64_Ehdr \<Rightarrow> 'd \<Rightarrow> 'd option" where
  "dump_hdr b cs ehdr d = printf_lit b cs (cbytes ''HDR: %02x %02x %02x %02x %02x %02x %02x %02x'' @ [10])
     (map (\<lambda>i. ucast (e_ident ehdr ! i)) [0..<8]) d"

definition boot_flash ::
  "('d, 'e) bus_scheme \<Rightarrow> console \<Rightarrow> locals \<Rightarrow> u32 \<Rightarrow> 'd \<Rightarrow> heap \<Rightarrow> (u64 \<times> 'd \<times> heap) option" where
  "boot_flash b cs l offset d h = do {
     d1 \<leftarrow> printf_lit b cs (cbytes ''Trying flash...'' @ [10]) [] d;
     h1 \<leftarrow> fl_read h (ehdr_at l) offset (of_nat SIZEOF_EHDR);
     ehdr \<leftarrow> load_ehdr h1 (ehdr_at l);
     if \<not> IS_ELF ehdr \<or> e_ident ehdr ! EI_CLASS \<noteq> ELFCLASS64 then do {
       d2 \<leftarrow> printf_lit b cs (cbytes ''Doesn'' @ [39] @ cbytes ''t look like an elf64'' @ [10]) [] d1;
       d3 \<leftarrow> dump_hdr b cs ehdr d2;
       Some (minus_1ul, d3, h1)
     }
     else if e_ident ehdr ! EI_DATA \<noteq> ELFDATA2LSB \<or> e_machine ehdr \<noteq> EM_PPC64 then do {
       d2 \<leftarrow> printf_lit b cs (cbytes ''Not a ppc64le binary'' @ [10]) [] d1;
       d3 \<leftarrow> dump_hdr b cs ehdr d2;
       Some (minus_1ul, d3, h1)
     }
     else do {
       (d2, h2) \<leftarrow> phdr_loop b cs l offset 0 (ucast (ucast offset + e_phoff ehdr)) d1 h1;
       ehdr2 \<leftarrow> load_ehdr h2 (ehdr_at l);
       d3 \<leftarrow> printf_lit b cs (cbytes ''Booting from DRAM at %x'' @ [10]) [take_bit 32 (e_entry ehdr2)] d2;
       Some (e_entry ehdr2, d3, h2)
     }
   }"

definition boot_sdram :: "('d, 'e) bus_scheme \<Rightarrow> console \<Rightarrow> 'd \<Rightarrow> heap \<Rightarrow> ('d \<times> heap) option" where
  "boot_sdram b cs d h = do {
     d1 \<leftarrow> printf_lit b cs (cbytes ''Copying payload to DRAM...'' @ [10]) [] d;
     (_, h1) \<leftarrow> memcpy h DRAM_BASE (DRAM_INIT_BASE + 0x6000) (0x10000 - 0x6000);
     d2 \<leftarrow> printf_lit b cs (cbytes ''Booting from DRAM...'' @ [10]) [] d1;
     Some (d2, h1)
   }"

subsection \<open>The main program\<close>

record 'd sdram =
  ddrctrl_init_done_read :: "'d \<Rightarrow> (u32 \<times> 'd) option"
  sdram_init :: "console \<Rightarrow> 'd \<Rightarrow> heap \<Rightarrow> ('d \<times> heap) option"
  LITEX_GIT_SHA1 :: "u8 list"

definition print_features :: "('d, 'e) bus_scheme \<Rightarrow> console \<Rightarrow> u64 \<Rightarrow> 'd \<Rightarrow> 'd option" where
  "print_features b cs ftr d = do {
     d1 \<leftarrow> printf_if b cs (ftr AND SYS_REG_INFO_HAS_UART \<noteq> 0) (cbytes ''UART '') d;
     d2 \<leftarrow> printf_if b cs (ftr AND SYS_REG_INFO_HAS_DRAM \<noteq> 0) (cbytes ''DRAM '') d1;
     d3 \<leftarrow> printf_if b cs (ftr AND SYS_REG_INFO_HAS_BRAM \<noteq> 0) (cbytes ''BRAM '') d2;
     d4 \<leftarrow> printf_if b cs (ftr AND SYS_REG_INFO_HAS_SPI_FLASH \<noteq> 0) (cbytes ''SPIFLASH '') d3;
     d5 \<leftarrow> printf_if b cs (ftr AND SYS_REG_INFO_HAS_LITEETH \<noteq> 0) (cbytes ''ETHERNET '') d4;
     d6 \<leftarrow> printf_if b cs (ftr AND SYS_REG_INFO_HAS_LITESDCARD \<noteq> 0) (cbytes ''SDCARD '') d5;
     printf_lit b cs [10] [] d6
   }"

definition print_bram :: "('d, 'e) bus_scheme \<Rightarrow> console \<Rightarrow> u64 \<Rightarrow> 'd \<Rightarrow> 'd option" where
  "print_bram b cs ftr d =
     (if ftr AND SYS_REG_INFO_HAS_BRAM \<noteq> 0 then do {
        (v, d1) \<leftarrow> readq b (SYSCON_BASE + SYS_REG_BRAMINFO) d;
        printf_lit b cs (cbytes ''          BRAM: %ld KB'' @ [10]) [(v AND SYS_REG_BRAMINFO_SIZE_MASK) div 1024] d1
      } else Some d)"

definition print_dram :: "('d, 'e) bus_scheme \<Rightarrow> console \<Rightarrow> u64 \<Rightarrow> 'd \<Rightarrow> 'd option" where
  "print_dram b cs ftr d =
     (if ftr AND SYS_REG_INFO_HAS_DRAM \<noteq> 0 then do {
        (v, d1) \<leftarrow> readq b (SYSCON_BASE + SYS_REG_DRAMINFO) d;
        d2 \<leftarrow> printf_lit b cs (cbytes ''          DRAM: %ld MB'' @ [10]) [(v AND SYS_REG_DRAMINFO_SIZE_MASK) div (1024 * 1024)] d1;
        (w, d3) \<leftarrow> readq b (SYSCON_BASE + SYS_REG_DRAMINITINFO) d2;
        printf_lit b cs (cbytes ''     DRAM INIT: %ld KB'' @ [10]) [w div 1024] d3
      } else Some d)"

definition print_clk :: "('d, 'e) bus_scheme \<Rightarrow> console \<Rightarrow> 'd \<Rightarrow> 'd option" where
  "print_clk b cs d = do {
     (v, d1) \<leftarrow> readq b (SYSCON_BASE + SYS_REG_CLKINFO) d;
     printf_lit b cs (cbytes ''           CLK: %ld MHz'' @ [10]) [(v AND SYS_REG_CLKINFO_FREQ_MASK) div 1000000] d1
   }"

text \<open>The result of \<open>check_flash\<close> is overwritten; what is left is whether there is a flash, and the offset.\<close>

definition setup_flash :: "('d, 'e) bus_scheme \<Rightarrow> console \<Rightarrow> u64 \<Rightarrow> 'd \<Rightarrow> ((bool \<times> u32) \<times> 'd) option" where
  "setup_flash b cs ftr d =
     (if ftr AND SYS_REG_INFO_HAS_SPI_FLASH \<noteq> 0 then do {
        (v, d1) \<leftarrow> readq b (SYSCON_BASE + SYS_REG_SPI_INFO) d;
        (_, d2) \<leftarrow> check_flash b cs d1;
        let fl_off = ucast (v AND SYS_REG_SPI_INFO_FLASH_OFF_MASK);
        d3 \<leftarrow> printf_lit b cs (cbytes '' SPI FLASH OFF: 0x%x bytes'' @ [10]) [ucast fl_off] d2;
        Some ((True, fl_off), d3)
      } else Some ((False, 0), d))"

definition setup_dram ::
  "('d, 'e) bus_scheme \<Rightarrow> 'd sdram \<Rightarrow> console \<Rightarrow> u64 \<Rightarrow> 'd \<Rightarrow> heap \<Rightarrow> ('d \<times> heap) option" where
  "setup_dram b sd cs ftr d h =
     (if ftr AND SYS_REG_INFO_HAS_DRAM \<noteq> 0 then do {
        (ready, d1) \<leftarrow> ddrctrl_init_done_read sd d;
        if ready = 0 then do {
          let fmt = cbytes ''LiteDRAM built from LiteX %s'' @ [10];
          (_, d2) \<leftarrow> printf b cs (blk (fmt @ [0] @ LITEX_GIT_SHA1 sd @ [0])) 0 [of_nat (length fmt + 1)] d1;
          sdram_init sd cs d2 h
        } else Some (d1, h)
      } else Some (d, h))"

definition boot_select ::
  "('d, 'e) bus_scheme \<Rightarrow> console \<Rightarrow> locals \<Rightarrow> u64 \<Rightarrow> bool \<Rightarrow> u32 \<Rightarrow> 'd \<Rightarrow> heap \<Rightarrow> (u64 \<times> 'd \<times> heap) option" where
  "boot_select b cs l ftr try_flash fl_off d h =
     (if ftr AND SYS_REG_INFO_HAS_BRAM \<noteq> 0 then do {
        d1 \<leftarrow> printf_lit b cs (cbytes ''Booting from BRAM...'' @ [10]) [] d;
        Some (0, d1, h)
      } else do {
        (v, d1, h1) \<leftarrow> (if try_flash then boot_flash b cs l fl_off d h else Some (minus_1ul, d, h));
        if v \<noteq> minus_1ul then Some (v, d1, h1)
        else do {
          (d2, h2) \<leftarrow> boot_sdram b cs d1 h1;
          Some (0, d2, h2)
        }
      })"

definition boot_main ::
  "('d, 'e) bus_scheme \<Rightarrow> 'd sdram \<Rightarrow> locals \<Rightarrow> 'd \<Rightarrow> heap \<Rightarrow> (u64 \<times> 'd \<times> heap) option" where
  "boot_main b sd l d h = do {
     (cs, d1) \<leftarrow> console_init b d;
     d2 \<leftarrow> printf_lit b cs ([10, 10] @ cbytes ''Welcome to Microwatt !'' @ [10, 10]) [] d1;
     (sig, d3) \<leftarrow> readq b (SYSCON_BASE + SYS_REG_SIGNATURE) d2;
     d4 \<leftarrow> printf_lit b cs (cbytes '' Soc signature: %016llx'' @ [10]) [sig] d3;
     d5 \<leftarrow> printf_lit b cs (cbytes ''  Soc features: '') [] d4;
     (ftr, d6) \<leftarrow> readq b (SYSCON_BASE + SYS_REG_INFO) d5;
     d7 \<leftarrow> print_features b cs ftr d6;
     d8 \<leftarrow> print_bram b cs ftr d7;
     d9 \<leftarrow> print_dram b cs ftr d8;
     e1 \<leftarrow> print_clk b cs d9;
     ((try_flash, fl_off), e2) \<leftarrow> setup_flash b cs ftr e1;
     e3 \<leftarrow> printf_lit b cs [10] [] e2;
     (e4, h1) \<leftarrow> setup_dram b sd cs ftr e3 h;
     (ctrl, e5) \<leftarrow> readq b (SYSCON_BASE + SYS_REG_CTRL) e4;
     e6 \<leftarrow> writeq b (ctrl AND NOT SYS_REG_CTRL_ALT_RESET) (SYSCON_BASE + SYS_REG_CTRL) e5;
     boot_select b cs l ftr try_flash fl_off e6 h1
   }"

text \<open>Access to the registers of the DRAM controller (\<^verbatim>\<open>include/system.h\<close>).\<close>

definition csr_write_simple :: "('d, 'e) bus_scheme \<Rightarrow> u64 \<Rightarrow> u64 \<Rightarrow> 'd \<Rightarrow> 'd option" where
  "csr_write_simple b v a d = writel b (ucast v) a d"

definition csr_read_simple :: "('d, 'e) bus_scheme \<Rightarrow> u64 \<Rightarrow> 'd \<Rightarrow> (u64 \<times> 'd) option" where
  "csr_read_simple b a d = map_option (\<lambda>(v, d'). (ucast v, d')) (readl b a d)"

end
