(* ===== verification/Boot_Io.thy ===== *)
theory Boot_Io
  imports Boot
begin

text \<open>
  The output of the boot firmware. \<open>printf\<close> with a well-formed format writes the rendered text to
  the console; the interface \<open>boot_io\<close> is what the firmware needs of the machine it runs on, a console
  that appends to the output and the registers of the system controller.
\<close>

section \<open>Texts\<close>

definition lits :: "u8 list \<Rightarrow> fitem list" where
  "lits s = map Lit s"

definition plain :: "u8 list \<Rightarrow> bool" where
  "plain s \<longleftrightarrow> 0 \<notin> set s \<and> 37 \<notin> set s"

primrec no_char :: "fitem \<Rightarrow> bool" where
  "no_char (Lit c) \<longleftrightarrow> True"
| "no_char Percent \<longleftrightarrow> True"
| "no_char (Conv f ds m c) \<longleftrightarrow> c \<noteq> 99"

text \<open>What \<open>_printf\<close> prints: the buffer holds 127 characters.\<close>

definition printf_text :: "(u64 \<Rightarrow> u8 list) \<Rightarrow> fitem list \<Rightarrow> u64 list \<Rightarrow> u8 list" where
  "printf_text strs its ap = bounded 127 strs its ap"

lemma fmt_bytes_append [simp]: "fmt_bytes (xs @ ys) = fmt_bytes xs @ fmt_bytes ys"
  by (simp add: fmt_bytes_def)

lemma fmt_bytes_lits [simp]: "fmt_bytes (lits s) = s"
  by (induction s) (simp_all add: fmt_bytes_def lits_def)

lemma fmt_bytes_simps [simp]: "fmt_bytes [] = []" "fmt_bytes (it # its) = item_bytes it @ fmt_bytes its"
  by (simp_all add: fmt_bytes_def)

lemma lits_ok [simp]: "list_all item_ok (lits s) \<longleftrightarrow> plain s" "list_all no_char (lits s)"
  by (induction s) (auto simp: lits_def plain_def)

lemma args_ok_lits [simp]: "args_ok ro strs (lits s @ its) ap = args_ok ro strs its ap" "args_ok ro strs (lits s) ap"
  by (induction s) (simp_all add: lits_def)

lemma bounded_lits: "bounded R strs (lits s) ap = take R s"
  by (induction s arbitrary: R) (simp_all add: lits_def take_Cons')

lemma dchar_nonzero_all: "list_all (\<lambda>d. dchar True d \<noteq> 0 \<and> dchar False d \<noteq> 0) [0..<16]"
  by code_simp

lemma dstr_nonzero: "1 < b \<Longrightarrow> b \<le> 16 \<Longrightarrow> 0 \<notin> set (dstr upper b v)"
proof
  assume b: "1 < b" "b \<le> 16" and "0 \<in> set (dstr upper b v)"
  then obtain d where d: "d \<in> set (digs b v)" "dchar upper d = 0" by (auto simp: dstr_def)
  then have "d \<in> set [0..<16]" using digs_bound [OF b(1) d(1)] b(2) by simp
  with dchar_nonzero_all d(2) show False by (cases upper) (auto simp only: list_all_iff)
qed

lemma num_out_nonzero: "fill \<noteq> 0 \<Longrightarrow> 0 \<notin> set s \<Longrightarrow> 0 \<notin> set (num_out R fill w s)"
  by (auto simp: num_out_def Let_def fill_out_def fits_def)

lemma conv_out_nonzero:
  assumes "fill \<noteq> 0" "c \<noteq> 99" "0 \<notin> set s"
  shows "0 \<notin> set (conv_out R fill w m c v s)"
  using assms dstr_nonzero [of 10] dstr_nonzero [of 8] dstr_nonzero [of 16]
  by (auto simp: conv_out_def signed_out_def num_out_nonzero ptr_out_def str_out_def Let_def fill_out_def fits_def dest!: in_set_takeD)

lemma bounded_nonzero:
  "list_all item_ok its \<Longrightarrow> list_all no_char its \<Longrightarrow> (\<And>v. 0 \<notin> set (strs v)) \<Longrightarrow> 0 \<notin> set (bounded R strs its ap)"
proof (induction its arbitrary: R ap)
  case (Cons it its)
  then show ?case
    using conv_out_nonzero by (cases it) (auto simp: Let_def flag_char_def)
qed simp

lemma char_room_no_char: "list_all no_char its \<Longrightarrow> char_room R strs its ap"
  by (induction its arbitrary: R ap) (auto split: fitem.split)

section \<open>\<open>printf\<close>\<close>

lemma mapped_buffer: "mapped printf_buffer 1 128"
proof -
  have "arr printf_buffer 1 (replicate 128 0)" unfolding printf_buffer_def by (rule arr_upd_bytes) (simp add: addr_max_def)
  from arr_mapped [OF this] show ?thesis by simp
qed

lemma printf_eq:
  assumes "list_all item_ok its" "list_all no_char its" "args_ok ro strs its ap" "cstr ro f (fmt_bytes its)" "\<And>v. 0 \<notin> set (strs v)"
  shows "map_option snd (printf b cs ro f ap d) = put_list (put_one b cs) (crlf (printf_text strs its ap)) d"
proof -
  let ?out = "bounded 127 strs its ap"
  have v: "vsnprintf ro printf_buffer 1 128 f ap = Some (int (length ?out), upd_bytes printf_buffer 1 (?out @ [0]))" "length ?out < 128"
    using vsnprintf_eq [OF assms(1,3,4), of printf_buffer 1 128] mapped_buffer char_room_no_char [OF assms(2)] by simp_all
  have "cstr (upd_bytes printf_buffer 1 (?out @ [0])) 1 ?out"
    using arr_upd_bytes [of "?out @ [0]" printf_buffer 1] v(2) bounded_nonzero [OF assms(1,2,5)]
    by (simp add: cstr_arr addr_max_def)
  from puts_loop_eq [OF this] show ?thesis
    by (simp add: printf_def v(1) puts_def printf_text_def map_option_bind o_def cong del: bind_weak_cong)
qed

text \<open>The arguments of a format without strings.\<close>

primrec args_num :: "fitem list \<Rightarrow> u64 list \<Rightarrow> bool" where
  "args_num [] ap \<longleftrightarrow> True"
| "args_num (it # its) ap \<longleftrightarrow>
     (case it of Conv f ds m c \<Rightarrow> ap \<noteq> [] \<and> c \<noteq> 115 \<and> c \<noteq> 99 \<and> args_num its (tl ap) | _ \<Rightarrow> args_num its ap)"

lemma args_num_ok: "args_num its ap \<Longrightarrow> args_ok ro strs its ap" "args_num its ap \<Longrightarrow> list_all no_char its"
  by (induction its arbitrary: ap) (auto split: fitem.splits)

lemma args_num_lits [simp]: "args_num (lits s @ its) ap = args_num its ap" "args_num (lits s) ap"
  by (induction s) (simp_all add: lits_def)

abbreviation num_text :: "fitem list \<Rightarrow> u64 list \<Rightarrow> u8 list" where
  "num_text its ap \<equiv> crlf (printf_text (\<lambda>_. []) its ap)"

lemma fmt_nonzero: "list_all item_ok its \<Longrightarrow> 0 \<notin> set (fmt_bytes its)"
  using item_bytes_nonzero by (auto simp: fmt_bytes_def list_all_iff)

lemma printf_num:
  assumes "fmt = fmt_bytes its" "list_all item_ok its" "args_num its ap" "length fmt < 200"
  shows "printf_lit b cs fmt ap d = put_list (put_one b cs) (num_text its ap) d"
proof -
  have "cstr (blk (fmt @ [0])) 0 (fmt_bytes its)"
    using fmt_nonzero [OF assms(2)] assms(1,4) by (simp add: cstr_blk addr_max_def)
  then show ?thesis
    unfolding printf_lit_def using assms args_num_ok by (intro printf_eq) auto
qed

lemma printf_plain:
  assumes "plain s" "length s < 128"
  shows "printf_lit b cs s [] d = put_list (put_one b cs) (crlf s) d"
  using printf_num [of s "lits s" "[]" b cs d] assms by (simp add: printf_text_def bounded_lits)

section \<open>The machine\<close>

text \<open>A step that prints a text which depends on the system controller, and changes nothing else of interest.\<close>

definition prints :: "('d \<Rightarrow> bool) \<Rightarrow> ('d \<Rightarrow> u8 list) \<Rightarrow> ('d \<Rightarrow> syscon) \<Rightarrow> ('d \<Rightarrow> 'd option) \<Rightarrow> (syscon \<Rightarrow> u8 list) \<Rightarrow> bool" where
  "prints ok out sys f t \<longleftrightarrow>
     (\<forall>d. ok d \<longrightarrow> (\<exists>d'. f d = Some d' \<and> ok d' \<and> out d' = out d @ t (sys d) \<and> sys d' = sys d))"

lemma prints_bind:
  assumes "prints ok out sys f t" "prints ok out sys g u"
  shows "prints ok out sys (\<lambda>d. Option.bind (f d) g) (\<lambda>s. t s @ u s)"
  unfolding prints_def
proof (intro allI impI)
  fix d assume "ok d"
  with assms(1) obtain d1 where 1: "f d = Some d1" "ok d1" "out d1 = out d @ t (sys d)" "sys d1 = sys d"
    unfolding prints_def by blast
  with assms(2) obtain d2 where "g d1 = Some d2" "ok d2" "out d2 = out d1 @ u (sys d)" "sys d2 = sys d"
    unfolding prints_def by metis
  with 1 show "\<exists>d'. Option.bind (f d) g = Some d' \<and> ok d' \<and> out d' = out d @ t (sys d) @ u (sys d) \<and> sys d' = sys d"
    by simp
qed

lemma prints_skip: "prints ok out sys Some (\<lambda>s. [])"
  by (simp add: prints_def)

lemma prints_if:
  assumes "c \<Longrightarrow> prints ok out sys f t" "\<not> c \<Longrightarrow> prints ok out sys g u"
  shows "prints ok out sys (\<lambda>d. if c then f d else g d) (\<lambda>s. if c then t s else u s)"
  using assms by (cases c) simp_all

lemma printsD:
  assumes "prints ok out sys f t" "ok d"
  obtains d' where "f d = Some d'" "ok d'" "out d' = out d @ t (sys d)" "sys d' = sys d"
  using assms unfolding prints_def by blast

locale boot_io =
  fixes b :: "'d bus"
    and cs :: console
    and out :: "'d \<Rightarrow> u8 list"
    and sys :: "'d \<Rightarrow> syscon"
    and ok :: "'d \<Rightarrow> bool"
  assumes put: "ok d \<Longrightarrow> \<exists>d'. put_one b cs c d = Some d' \<and> ok d' \<and> out d' = out d @ [c] \<and> sys d' = sys d"
    and syscon_rd: "ok d \<Longrightarrow> off \<in> syscon_offs \<Longrightarrow> readq b (SYSCON_BASE + off) d = Some (syscon_read (sys d) off, d)"
    and syscon_wr: "ok d \<Longrightarrow> \<exists>d'. writeq b v (SYSCON_BASE + SYS_REG_CTRL) d = Some d' \<and> ok d' \<and> out d' = out d \<and>
      sys d' = syscon_write 0x2c (drop_bit 32 v) (syscon_write 0x28 (take_bit 32 v) (sys d))"
begin

lemma put_list_prints: "prints ok out sys (put_list (put_one b cs) t) (\<lambda>s. t)"
proof (induction t)
  case Nil
  then show ?case by (simp add: prints_def)
next
  case (Cons c t)
  have "prints ok out sys (put_one b cs c) (\<lambda>s. [c])" using put by (simp add: prints_def)
  from prints_bind [OF this Cons] show ?case by (simp add: prints_def)
qed

lemma plain_prints: "plain s \<Longrightarrow> length s < 128 \<Longrightarrow> prints ok out sys (printf_lit b cs s []) (\<lambda>_. crlf s)"
  using put_list_prints [of "crlf s"] by (simp add: printf_plain prints_def)

lemma num_prints:
  assumes "fmt = fmt_bytes its" "list_all item_ok its" "args_num its ap" "length fmt < 200"
  shows "prints ok out sys (printf_lit b cs fmt ap) (\<lambda>_. num_text its ap)"
  using put_list_prints [of "num_text its ap"] printf_num [OF assms, of b cs] by (simp add: prints_def)

lemma if_prints:
  "plain s \<Longrightarrow> length s < 128 \<Longrightarrow> prints ok out sys (printf_if b cs c s) (\<lambda>_. if c then crlf s else [])"
  using plain_prints [of s] prints_skip [of ok out sys] by (cases c) (simp_all add: prints_def printf_if_def)

lemma rd_prints:
  assumes "off \<in> syscon_offs" "\<And>v. prints ok out sys (g v) (t v)"
  shows "prints ok out sys (\<lambda>d. Option.bind (readq b (SYSCON_BASE + off) d) (\<lambda>(v, d'). g v d')) (\<lambda>s. t (syscon_read s off) s)"
  using assms syscon_rd [OF _ assms(1)] by (simp add: prints_def)

end

text \<open>The formats with conversions, and the texts they print for the values of the system controller.\<close>

abbreviation dec_l :: fitem where
  "dec_l \<equiv> Conv No_Flag [] M_l 100"

definition sig_fmt :: "fitem list" where
  "sig_fmt = lits (cbytes '' Soc signature: '') @ [Conv Zero_Flag [49, 54] M_ll 120] @ lits [10]"

definition bram_fmt :: "fitem list" where
  "bram_fmt = lits (cbytes ''          BRAM: '') @ [dec_l] @ lits (cbytes '' KB'' @ [10])"

definition dram_fmt :: "fitem list" where
  "dram_fmt = lits (cbytes ''          DRAM: '') @ [dec_l] @ lits (cbytes '' MB'' @ [10])"

definition dram_init_fmt :: "fitem list" where
  "dram_init_fmt = lits (cbytes ''     DRAM INIT: '') @ [dec_l] @ lits (cbytes '' KB'' @ [10])"

definition clk_fmt :: "fitem list" where
  "clk_fmt = lits (cbytes ''           CLK: '') @ [dec_l] @ lits (cbytes '' MHz'' @ [10])"

definition flash_off_fmt :: "fitem list" where
  "flash_off_fmt = lits (cbytes '' SPI FLASH OFF: 0x'') @ [Conv No_Flag [] M_int 120] @ lits (cbytes '' bytes'' @ [10])"

definition opt_text :: "bool \<Rightarrow> u8 list \<Rightarrow> u8 list" where
  "opt_text c t = (if c then t else [])"

definition features_text :: "syscon \<Rightarrow> u8 list" where
  "features_text s = opt_text (HAS_UART s) (cbytes ''UART '') @ opt_text (HAS_DRAM s) (cbytes ''DRAM '') @
     opt_text (BRAM_SIZE s \<noteq> 0) (cbytes ''BRAM '') @ opt_text (HAS_SPI_FLASH s) (cbytes ''SPIFLASH '') @
     opt_text (HAS_LITEETH s) (cbytes ''ETHERNET '') @ opt_text (HAS_SD_CARD s) (cbytes ''SDCARD '') @ [13, 10]"

definition bram_text :: "syscon \<Rightarrow> u8 list" where
  "bram_text s = opt_text (BRAM_SIZE s \<noteq> 0) (num_text bram_fmt [take_bit 52 (of_nat (BRAM_SIZE s)) div 1024])"

definition dram_text :: "syscon \<Rightarrow> u8 list" where
  "dram_text s = opt_text (HAS_DRAM s)
     (num_text dram_fmt [take_bit 52 (of_nat (DRAM_SIZE s)) div (1024 * 1024)] @
      num_text dram_init_fmt [take_bit 52 (of_nat (DRAM_INIT_SIZE s)) div 1024])"

definition clk_text :: "syscon \<Rightarrow> u8 list" where
  "clk_text s = num_text clk_fmt [take_bit 40 (of_nat (CLK_FREQ s)) div 1000000]"

definition welcome_text :: "syscon \<Rightarrow> u8 list" where
  "welcome_text s = crlf ([10, 10] @ cbytes ''Welcome to Microwatt !'' @ [10, 10]) @ num_text sig_fmt [SIG_VALUE s] @
     cbytes ''  Soc features: '' @ features_text s @ bram_text s @ dram_text s @ clk_text s"

text \<open>The bits of the information register.\<close>

lemma info_bit: "x AND push_bit n 1 \<noteq> 0 \<longleftrightarrow> bit x n" for x :: u64
  by (simp only: bit_iff_and_push_bit_not_eq_0)

lemma reg_info_bits:
  "reg_info s AND SYS_REG_INFO_HAS_UART \<noteq> 0 \<longleftrightarrow> HAS_UART s"
  "reg_info s AND SYS_REG_INFO_HAS_DRAM \<noteq> 0 \<longleftrightarrow> HAS_DRAM s"
  "reg_info s AND SYS_REG_INFO_HAS_BRAM \<noteq> 0 \<longleftrightarrow> BRAM_SIZE s \<noteq> 0"
  "reg_info s AND SYS_REG_INFO_HAS_SPI_FLASH \<noteq> 0 \<longleftrightarrow> HAS_SPI_FLASH s"
  "reg_info s AND SYS_REG_INFO_HAS_LITEETH \<noteq> 0 \<longleftrightarrow> HAS_LITEETH s"
  "reg_info s AND SYS_REG_INFO_HAS_LITESDCARD \<noteq> 0 \<longleftrightarrow> HAS_SD_CARD s"
  unfolding SYS_REG_INFO_HAS_UART_def SYS_REG_INFO_HAS_DRAM_def SYS_REG_INFO_HAS_BRAM_def SYS_REG_INFO_HAS_SPI_FLASH_def
    SYS_REG_INFO_HAS_LITEETH_def SYS_REG_INFO_HAS_LITESDCARD_def info_bit
  by (auto simp: reg_info_def bit_simps)

lemma size_mask: "take_bit 52 x AND SYS_REG_BRAMINFO_SIZE_MASK = take_bit 52 x" "take_bit 52 x AND SYS_REG_DRAMINFO_SIZE_MASK = take_bit 52 x"
  by (simp_all add: SYS_REG_BRAMINFO_SIZE_MASK_def SYS_REG_DRAMINFO_SIZE_MASK_def take_bit_eq_mask mask_numeral and.assoc)

lemmas cbytes_simps = cbytes_def plain_def crlf_def

lemma formats:
  "cbytes '' Soc signature: %016llx'' @ [10] = fmt_bytes sig_fmt" "list_all item_ok sig_fmt"
  "cbytes ''          BRAM: %ld KB'' @ [10] = fmt_bytes bram_fmt" "list_all item_ok bram_fmt"
  "cbytes ''          DRAM: %ld MB'' @ [10] = fmt_bytes dram_fmt" "list_all item_ok dram_fmt"
  "cbytes ''     DRAM INIT: %ld KB'' @ [10] = fmt_bytes dram_init_fmt" "list_all item_ok dram_init_fmt"
  "cbytes ''           CLK: %ld MHz'' @ [10] = fmt_bytes clk_fmt" "list_all item_ok clk_fmt"
  "cbytes '' SPI FLASH OFF: 0x%x bytes'' @ [10] = fmt_bytes flash_off_fmt" "list_all item_ok flash_off_fmt"
  by (simp_all add: sig_fmt_def bram_fmt_def dram_fmt_def dram_init_fmt_def clk_fmt_def flash_off_fmt_def cbytes_simps is_dig_def is_conv_def)

lemma formats_args:
  "args_num sig_fmt [v]" "args_num bram_fmt [v]" "args_num dram_fmt [v]" "args_num dram_init_fmt [v]" "args_num clk_fmt [v]"
  "args_num flash_off_fmt [v]"
  by (simp_all add: sig_fmt_def bram_fmt_def dram_fmt_def dram_init_fmt_def clk_fmt_def flash_off_fmt_def)

end
