(* ===== verification/Boot_Elf.thy ===== *)
theory Boot_Elf
  imports Boot_Io
begin

text \<open>
  Booting an ELF image from the flash. \<open>elf_image\<close> describes the image in the memory map of the
  flash; \<open>boot_flash\<close> loads it as the abstract loader \<open>load_segs\<close> does, one segment after the other.
\<close>

section \<open>Images\<close>

definition flash_space :: "ptr set" where
  "flash_space = {a. 0xf0000000 \<le> a \<and> a < 0x100000000}"

definition local_space :: "locals \<Rightarrow> ptr set" where
  "local_space l = region (ehdr_at l) SIZEOF_EHDR \<union> region (ph_at l) SIZEOF_PHDR"

text \<open>The bytes \<open>bs\<close> are in the flash at an offset.\<close>

definition in_flash :: "heap \<Rightarrow> u32 \<Rightarrow> u8 list \<Rightarrow> bool" where
  "in_flash h offset bs \<longleftrightarrow> arr h (flash_addr offset) bs \<and> region (flash_addr offset) (length bs) \<subseteq> flash_space"

definition locals_ok :: "heap \<Rightarrow> locals \<Rightarrow> bool" where
  "locals_ok h l \<longleftrightarrow> mapped h (ehdr_at l) SIZEOF_EHDR \<and> mapped h (ph_at l) SIZEOF_PHDR \<and>
     region (ehdr_at l) SIZEOF_EHDR \<inter> region (ph_at l) SIZEOF_PHDR = {} \<and> local_space l \<inter> flash_space = {}"

text \<open>
  A segment: its program header and its contents. Its destination is memory, apart from the
  flash and from the local variables of the loader.
\<close>

type_synonym seg = "Elf64_Phdr \<times> u8 list"

definition seg_ok :: "heap \<Rightarrow> locals \<Rightarrow> u32 \<Rightarrow> seg \<Rightarrow> bool" where
  "seg_ok h l offset s \<longleftrightarrow> (case s of (ph, bs) \<Rightarrow>
     p_type ph = PT_LOAD \<and> length bs = unat (ucast (p_filesz ph) :: u32) \<and>
     in_flash h (ucast (ucast offset + p_offset ph)) bs \<and>
     mapped h (p_vaddr ph) (length bs) \<and> region (p_vaddr ph) (length bs) \<inter> (flash_space \<union> local_space l) = {})"

primrec phdrs_ok :: "heap \<Rightarrow> u16 \<Rightarrow> u32 \<Rightarrow> seg list \<Rightarrow> bool" where
  "phdrs_ok h entsize poff [] \<longleftrightarrow> True"
| "phdrs_ok h entsize poff (s # ss) \<longleftrightarrow> in_flash h poff (Phdr_bytes (fst s)) \<and> phdrs_ok h entsize (poff + ucast entsize) ss"

definition elf_image :: "heap \<Rightarrow> locals \<Rightarrow> u32 \<Rightarrow> Elf64_Ehdr \<Rightarrow> seg list \<Rightarrow> bool" where
  "elf_image h l offset e segs \<longleftrightarrow>
     length (e_ident e) = EI_NIDENT \<and> IS_ELF e \<and> e_ident e ! EI_CLASS = ELFCLASS64 \<and> e_ident e ! EI_DATA = ELFDATA2LSB \<and>
     e_machine e = EM_PPC64 \<and> unat (e_phnum e) = length segs \<and> in_flash h offset (Ehdr_bytes e) \<and>
     phdrs_ok h (e_phentsize e) (ucast (ucast offset + e_phoff e)) segs \<and> list_all (seg_ok h l offset) segs"

primrec load_segs :: "seg list \<Rightarrow> heap \<Rightarrow> heap" where
  "load_segs [] h = h"
| "load_segs (s # ss) h = load_segs ss (upd_bytes h (p_vaddr (fst s)) (snd s))"

section \<open>Reading the flash\<close>

lemma in_flash_cong: "(\<And>a. a \<in> flash_space \<Longrightarrow> h' a = h a) \<Longrightarrow> in_flash h offset bs \<Longrightarrow> in_flash h' offset bs"
  unfolding in_flash_def using arr_cong [of "flash_addr offset" bs h h'] by (metis subsetD)

lemma fl_read_eq:
  assumes "in_flash h offset bs" "mapped h dst (length bs)" "region dst (length bs) \<inter> flash_space = {}" "unat sz = length bs"
  shows "fl_read h dst offset sz = Some (upd_bytes h dst bs)"
proof -
  have "unat sz < 2 ^ 32" using unsigned_less [of sz, where ?'a = nat] by simp
  then have n: "ucast sz = (of_nat (length bs) :: u64)" "length bs < addr_max"
    using assms(4) by (simp_all add: word_unat_eq_iff unsigned_ucast_eq take_bit_nat_eq_self addr_max_def unsigned_of_nat)
  have "region dst (length bs) \<inter> region (flash_addr offset) (length bs) = {}"
    using assms(1,3) by (auto simp: in_flash_def)
  then show ?thesis
    using assms(1,2) n memcpy_eq [OF _ assms(2) n(2) fwd_safe_disjoint, of "flash_addr offset"]
    by (simp add: fl_read_def in_flash_def)
qed

text \<open>Two memories that agree on the flash and have the same addresses, with the file header in place.\<close>

definition loading :: "heap \<Rightarrow> locals \<Rightarrow> Elf64_Ehdr \<Rightarrow> heap \<Rightarrow> bool" where
  "loading h0 l e h \<longleftrightarrow> (\<forall>a\<in>flash_space. h a = h0 a) \<and> dom h = dom h0 \<and> arr h (ehdr_at l) (Ehdr_bytes e)"

lemma dom_upd_mapped: "mapped h p (length bs) \<Longrightarrow> length bs \<le> addr_max \<Longrightarrow> dom (upd_bytes h p bs) = dom h"
  by (auto simp: dom_upd_bytes mapped_def)

lemma loading_mapped: "loading h0 l e h \<Longrightarrow> mapped h p n = mapped h0 p n"
  by (simp add: loading_def mapped_def)

lemma loading_flash: "loading h0 l e h \<Longrightarrow> in_flash h0 offset bs \<Longrightarrow> in_flash h offset bs"
  by (auto simp: loading_def elim!: in_flash_cong [rotated])

lemma loading_upd:
  assumes "loading h0 l e h" "mapped h0 p (length bs)" "length bs \<le> addr_max"
    "region p (length bs) \<inter> flash_space = {}" "region p (length bs) \<inter> region (ehdr_at l) SIZEOF_EHDR = {}"
    "length (e_ident e) = EI_NIDENT"
  shows "loading h0 l e (upd_bytes h p bs)"
proof -
  have "arr (upd_bytes h p bs) (ehdr_at l) (Ehdr_bytes e)"
    using assms by (subst arr_upd_disjoint) (auto simp: loading_def length_Ehdr_bytes)
  moreover have "upd_bytes h p bs a = h0 a" if "a \<in> flash_space" for a
    using assms that by (subst upd_bytes_outside) (auto simp: loading_def)
  moreover have "dom (upd_bytes h p bs) = dom h0"
    using assms dom_upd_mapped [of h p bs] loading_mapped [OF assms(1)] by (simp add: loading_def)
  ultimately show ?thesis by (simp add: loading_def)
qed

lemma load_segs_at: "h a = h' a \<Longrightarrow> load_segs ss h a = load_segs ss h' a"
proof (induction ss arbitrary: h h')
  case (Cons s ss)
  let ?u = "\<lambda>h. upd_bytes h (p_vaddr (fst s)) (snd s)"
  have "?u h a = ?u h' a" using Cons.prems by (simp add: upd_bytes_def)
  with Cons.IH [of "?u h" "?u h'"] show ?case by simp
qed simp

section \<open>Loading\<close>

definition seg_fmt :: "fitem list" where
  "seg_fmt = lits (cbytes ''Copy segment '') @ [Conv No_Flag [] M_int 100] @ lits (cbytes '' (0x'') @ [Conv No_Flag [] M_int 120] @
     lits (cbytes '' bytes) to '') @ [Conv No_Flag [] M_int 112] @ lits [10]"

definition boot_fmt :: "fitem list" where
  "boot_fmt = lits (cbytes ''Booting from DRAM at '') @ [Conv No_Flag [] M_int 120] @ lits [10]"

primrec segs_text :: "nat \<Rightarrow> seg list \<Rightarrow> u8 list" where
  "segs_text i [] = []"
| "segs_text i (s # ss) =
     num_text seg_fmt [of_nat i, ucast (ucast (p_filesz (fst s)) :: u32), p_vaddr (fst s)] @ segs_text (i + 1) ss"

lemma boot_formats:
  "cbytes ''Copy segment %d (0x%x bytes) to %p'' @ [10] = fmt_bytes seg_fmt" "list_all item_ok seg_fmt" "args_num seg_fmt [u, v, w]"
  "cbytes ''Booting from DRAM at %x'' @ [10] = fmt_bytes boot_fmt" "list_all item_ok boot_fmt" "args_num boot_fmt [u]"
  by (simp_all add: seg_fmt_def boot_fmt_def cbytes_simps is_conv_def)

text \<open>Reading a program header.\<close>

lemma phdr_read:
  assumes "loading h0 l e h" "locals_ok h0 l" "length (e_ident e) = EI_NIDENT" "in_flash h0 poff (Phdr_bytes ph)"
  defines "h1 \<equiv> upd_bytes h (ph_at l) (Phdr_bytes ph)"
  shows "fl_read h (ph_at l) poff (of_nat SIZEOF_PHDR) = Some h1" "load_phdr h1 (ph_at l) = Some ph" "loading h0 l e h1"
    "\<And>a. a \<notin> local_space l \<Longrightarrow> h1 a = h a"
proof -
  have len: "length (Phdr_bytes ph) \<le> addr_max" by (simp add: SIZEOF_PHDR_def addr_max_def)
  have l: "mapped h0 (ph_at l) SIZEOF_PHDR" "region (ph_at l) SIZEOF_PHDR \<inter> flash_space = {}"
    "region (ph_at l) SIZEOF_PHDR \<inter> region (ehdr_at l) SIZEOF_EHDR = {}"
    using assms(2) by (auto simp: locals_ok_def local_space_def)
  show "loading h0 l e h1" unfolding h1_def using assms(1,3) l len by (intro loading_upd) simp_all
  have "unat (of_nat SIZEOF_PHDR :: u32) = SIZEOF_PHDR" by (simp add: SIZEOF_PHDR_def)
  then show "fl_read h (ph_at l) poff (of_nat SIZEOF_PHDR) = Some h1" unfolding h1_def
    using loading_flash [OF assms(1,4)] loading_mapped [OF assms(1)] l by (intro fl_read_eq) simp_all
  show "load_phdr h1 (ph_at l) = Some ph" unfolding h1_def using arr_upd_bytes [OF len] by (intro load_phdr_arr)
  show "h1 a = h a" if "a \<notin> local_space l" for a
    unfolding h1_def using len that by (intro upd_bytes_outside) (auto simp: local_space_def)
qed

text \<open>One round of the loop on a segment.\<close>

lemma seg_round:
  assumes "loading h0 l e h" "locals_ok h0 l" "length (e_ident e) = EI_NIDENT"
    "in_flash h0 poff (Phdr_bytes ph)" "seg_ok h0 l offset (ph, bs)"
  defines "h1 \<equiv> upd_bytes h (ph_at l) (Phdr_bytes ph)"
  defines "h2 \<equiv> upd_bytes h1 (p_vaddr ph) bs"
  shows "fl_read h (ph_at l) poff (of_nat SIZEOF_PHDR) = Some h1" "load_phdr h1 (ph_at l) = Some ph"
    "fl_read h1 (p_vaddr ph) (ucast (ucast offset + p_offset ph)) (ucast (p_filesz ph)) = Some h2"
    "loading h0 l e h2" "a \<notin> local_space l \<Longrightarrow> h2 a = upd_bytes h (p_vaddr ph) bs a"
proof -
  note r = phdr_read [OF assms(1-4), folded h1_def]
  then show "fl_read h (ph_at l) poff (of_nat SIZEOF_PHDR) = Some h1" "load_phdr h1 (ph_at l) = Some ph" by blast+
  have s: "length bs = unat (ucast (p_filesz ph) :: u32)" "in_flash h0 (ucast (ucast offset + p_offset ph)) bs"
    "mapped h0 (p_vaddr ph) (length bs)" "region (p_vaddr ph) (length bs) \<inter> flash_space = {}"
    "region (p_vaddr ph) (length bs) \<inter> region (ehdr_at l) SIZEOF_EHDR = {}"
    using assms(5) by (auto simp: seg_ok_def local_space_def)
  have "unat (ucast (p_filesz ph) :: u32) < 2 ^ 32" using unsigned_less [of "ucast (p_filesz ph) :: u32", where ?'a = nat] by simp
  then have bs: "length bs \<le> addr_max" using s(1) by (simp add: addr_max_def)
  show "loading h0 l e h2" unfolding h2_def using r(3) assms(3) s bs by (intro loading_upd) simp_all
  show "fl_read h1 (p_vaddr ph) (ucast (ucast offset + p_offset ph)) (ucast (p_filesz ph)) = Some h2" unfolding h2_def
    using loading_flash [OF r(3) s(2)] loading_mapped [OF r(3)] s by (intro fl_read_eq) simp_all
  assume "a \<notin> local_space l"
  then show "h2 a = upd_bytes h (p_vaddr ph) bs a" using r(4) by (simp add: h2_def upd_bytes_def)
qed

text \<open>The header that is read from the flash, and what is printed when it is refused.\<close>

abbreviation hex_02 :: fitem where
  "hex_02 \<equiv> Conv Zero_Flag [50] M_int 120"

abbreviation hex_sp :: "fitem list" where
  "hex_sp \<equiv> [hex_02] @ lits [32]"

definition hdr_fmt :: "fitem list" where
  "hdr_fmt = lits (cbytes ''HDR: '') @ hex_sp @ hex_sp @ hex_sp @ hex_sp @ hex_sp @ hex_sp @ hex_sp @ [hex_02] @ lits [10]"

definition acceptable :: "Elf64_Ehdr \<Rightarrow> bool" where
  "acceptable e \<longleftrightarrow> IS_ELF e \<and> e_ident e ! EI_CLASS = ELFCLASS64 \<and> e_ident e ! EI_DATA = ELFDATA2LSB \<and> e_machine e = EM_PPC64"

definition trying_text :: "u8 list" where
  "trying_text = cbytes ''Trying flash...'' @ [13, 10]"

definition reject_text :: "Elf64_Ehdr \<Rightarrow> u8 list" where
  "reject_text e =
     (if \<not> IS_ELF e \<or> e_ident e ! EI_CLASS \<noteq> ELFCLASS64 then cbytes ''Doesn'' @ [39] @ cbytes ''t look like an elf64'' @ [13, 10]
      else cbytes ''Not a ppc64le binary'' @ [13, 10]) @
     num_text hdr_fmt (map (\<lambda>i. ucast (e_ident e ! i)) [0..<8])"

definition flash_boot_text :: "Elf64_Ehdr \<Rightarrow> seg list \<Rightarrow> u8 list" where
  "flash_boot_text e segs = trying_text @ segs_text 0 segs @ num_text boot_fmt [take_bit 32 (e_entry e)]"

lemma reject_text_crlf:
  "reject_text e =
     crlf (if \<not> IS_ELF e \<or> e_ident e ! EI_CLASS \<noteq> ELFCLASS64 then cbytes ''Doesn'' @ [39] @ cbytes ''t look like an elf64'' @ [10]
       else cbytes ''Not a ppc64le binary'' @ [10]) @ num_text hdr_fmt (map (\<lambda>i. ucast (e_ident e ! i)) [0..<8])"
proof -
  have "crlf (cbytes ''Doesn'' @ [39] @ cbytes ''t look like an elf64'' @ [10]) = cbytes ''Doesn'' @ [39] @ cbytes ''t look like an elf64'' @ [13, 10]"
    "crlf (cbytes ''Not a ppc64le binary'' @ [10]) = cbytes ''Not a ppc64le binary'' @ [13, 10]"
    by (simp_all add: cbytes_simps)
  then show ?thesis unfolding reject_text_def by (simp only: if_distrib [of crlf])
qed

lemma hdr_format:
  "cbytes ''HDR: %02x %02x %02x %02x %02x %02x %02x %02x'' @ [10] = fmt_bytes hdr_fmt" "list_all item_ok hdr_fmt"
  "args_num hdr_fmt (map f [0..<8])"
  by (simp_all add: hdr_fmt_def cbytes_simps is_conv_def is_dig_def upt_rec)

lemma header_read:
  assumes "locals_ok h l" "in_flash h offset bs" "length bs = SIZEOF_EHDR"
  defines "h1 \<equiv> upd_bytes h (ehdr_at l) bs"
  shows "fl_read h (ehdr_at l) offset (of_nat SIZEOF_EHDR) = Some h1" "load_ehdr h1 (ehdr_at l) = Some (Ehdr_of bs)"
    "\<And>a. a \<notin> local_space l \<Longrightarrow> h1 a = h a" "\<And>a. a \<in> flash_space \<Longrightarrow> h1 a = h a" "dom h1 = dom h" "arr h1 (ehdr_at l) bs"
proof -
  have len: "length bs \<le> addr_max" using assms(3) by (simp add: SIZEOF_EHDR_def addr_max_def)
  have l: "mapped h (ehdr_at l) (length bs)" "region (ehdr_at l) (length bs) \<inter> flash_space = {}"
    using assms(1,3) by (auto simp: locals_ok_def local_space_def)
  show "fl_read h (ehdr_at l) offset (of_nat SIZEOF_EHDR) = Some h1" unfolding h1_def
    using assms(2,3) l by (intro fl_read_eq) (simp_all add: SIZEOF_EHDR_def)
  show a: "arr h1 (ehdr_at l) bs" unfolding h1_def by (rule arr_upd_bytes [OF len])
  then show "load_ehdr h1 (ehdr_at l) = Some (Ehdr_of bs)"
    using load_bytes_arr [of h1 "ehdr_at l" SIZEOF_EHDR bs] assms(3) by (simp add: load_ehdr_def)
  show "h1 a = h a" if "a \<notin> local_space l" for a
    unfolding h1_def using len that assms(3) by (intro upd_bytes_outside) (auto simp: local_space_def)
  show "h1 a = h a" if "a \<in> flash_space" for a
    unfolding h1_def using len that l(2) by (intro upd_bytes_outside) auto
  show "dom h1 = dom h" unfolding h1_def by (rule dom_upd_mapped [OF l(1) len])
qed

context boot_io
begin

lemma phdr_loop_loads:
  "loading h0 l e h \<Longrightarrow> locals_ok h0 l \<Longrightarrow> length (e_ident e) = EI_NIDENT \<Longrightarrow> phdrs_ok h0 (e_phentsize e) poff segs \<Longrightarrow>
   list_all (seg_ok h0 l offset) segs \<Longrightarrow> i + length segs = unat (e_phnum e) \<Longrightarrow> ok d \<Longrightarrow>
   \<exists>d' h'. phdr_loop b cs l offset (of_nat i) poff d h = Some (d', h') \<and> loading h0 l e h' \<and> ok d' \<and>
     out d' = out d @ segs_text i segs \<and> sys d' = sys d \<and> (\<forall>a. a \<notin> local_space l \<longrightarrow> h' a = load_segs segs h a)"
proof (induction segs arbitrary: i poff d h)
  case Nil
  have e: "load_ehdr h (ehdr_at l) = Some e" using Nil.prems(1,3) by (intro load_ehdr_arr) (simp_all add: loading_def)
  have "unat (e_phnum e) < 2 ^ 16" using unsigned_less [of "e_phnum e", where ?'a = nat] by simp
  then have "\<not> (of_nat i :: u32) < ucast (e_phnum e)"
    using Nil.prems(6) by (simp add: word_less_nat_alt unsigned_of_nat unsigned_ucast_eq take_bit_nat_eq_self)
  then show ?case using e Nil.prems by (subst phdr_loop.simps) simp
next
  case (Cons s ss)
  obtain ph bs where s: "s = (ph, bs)" by (cases s)
  have e: "load_ehdr h (ehdr_at l) = Some e" using Cons.prems(1,3) by (intro load_ehdr_arr) (simp_all add: loading_def)
  have "unat (e_phnum e) < 2 ^ 16" using unsigned_less [of "e_phnum e", where ?'a = nat] by simp
  then have i: "(of_nat i :: u32) < ucast (e_phnum e)" "ucast (of_nat i :: u32) = (of_nat i :: u64)"
    using Cons.prems(6)
    by (simp_all add: word_less_nat_alt unsigned_of_nat unsigned_ucast_eq take_bit_nat_eq_self word_unat_eq_iff)
  have i1: "(of_nat i :: u32) + 1 = of_nat (i + 1)" by simp
  let ?h1 = "upd_bytes h (ph_at l) (Phdr_bytes ph)" and ?ap = "[of_nat i, ucast (ucast (p_filesz ph) :: u32), p_vaddr ph]"
  let ?h2 = "upd_bytes ?h1 (p_vaddr ph) bs"
  have load: "p_type ph = PT_LOAD" using Cons.prems(5) s by (simp add: seg_ok_def)
  note r = seg_round [OF Cons.prems(1-3), of poff ph offset bs]
  have seg: "in_flash h0 poff (Phdr_bytes ph)" "seg_ok h0 l offset (ph, bs)" using Cons.prems(4,5) s by simp_all
  have "prints ok out sys (printf_lit b cs (cbytes ''Copy segment %d (0x%x bytes) to %p'' @ [10]) ?ap) (\<lambda>_. num_text seg_fmt ?ap)"
    by (rule num_prints [OF boot_formats(1-3)]) (simp add: cbytes_def)
  from printsD [OF this Cons.prems(7)] obtain d1 where
    d1: "printf_lit b cs (cbytes ''Copy segment %d (0x%x bytes) to %p'' @ [10]) ?ap d = Some d1" "ok d1"
      "out d1 = out d @ num_text seg_fmt ?ap" "sys d1 = sys d" .
  have e2: "load_ehdr ?h2 (ehdr_at l) = Some e" using r(4) [OF seg] Cons.prems(3) by (intro load_ehdr_arr) (simp_all add: loading_def)
  have step: "phdr_loop b cs l offset (of_nat i) poff d h =
      phdr_loop b cs l offset (of_nat (i + 1)) (poff + ucast (e_phentsize e)) d1 ?h2"
    by (subst phdr_loop.simps) (simp only: e i i1 load r(1-3) [OF seg] d1(1) e2 Option.bind.bind_lunit if_True if_False not_True_eq_False simp_thms)
  have "phdrs_ok h0 (e_phentsize e) (poff + ucast (e_phentsize e)) ss" "list_all (seg_ok h0 l offset) ss" "i + 1 + length ss = unat (e_phnum e)"
    using Cons.prems(4-6) by simp_all
  from Cons.IH [OF r(4) [OF seg] Cons.prems(2,3) this d1(2)] obtain d' h' where
    IH: "phdr_loop b cs l offset (of_nat (i + 1)) (poff + ucast (e_phentsize e)) d1 ?h2 = Some (d', h')" "loading h0 l e h'" "ok d'"
      "out d' = out d1 @ segs_text (i + 1) ss" "sys d' = sys d1" "\<forall>a. a \<notin> local_space l \<longrightarrow> h' a = load_segs ss ?h2 a" by blast
  have "h' a = load_segs (s # ss) h a" if "a \<notin> local_space l" for a
    using IH(6) that load_segs_at [of ?h2 a "upd_bytes h (p_vaddr ph) bs" ss] r(5) [OF seg that] s by simp
  moreover have "out d' = out d @ segs_text i (s # ss)" using IH(4) d1(3) s by simp
  moreover have "sys d' = sys d" using IH(5) d1(4) by simp
  ultimately show ?case unfolding step using IH(1-3) by (intro exI [of _ d'] exI [of _ h']) simp
qed

lemma boot_flash_loads_io:
  assumes "locals_ok h l" "elf_image h l offset e segs" "ok d"
  shows "\<exists>d' h'. boot_flash b cs l offset d h = Some (e_entry e, d', h') \<and> ok d' \<and> out d' = out d @ flash_boot_text e segs \<and>
    sys d' = sys d \<and> (\<forall>a. a \<notin> local_space l \<longrightarrow> h' a = load_segs segs h a)"
proof -
  let ?bs = "Ehdr_bytes e" and ?h1 = "upd_bytes h (ehdr_at l) (Ehdr_bytes e)" and ?poff = "ucast (ucast offset + e_phoff e) :: u32"
  note im = assms(2) [unfolded elf_image_def]
  have len: "length ?bs = SIZEOF_EHDR" and id: "Ehdr_of ?bs = e" using im by (simp_all add: length_Ehdr_bytes Ehdr_of_bytes)
  have fl: "in_flash h offset ?bs" using im by blast
  note hr = header_read [OF assms(1) fl len, unfolded id]
  have load: "loading h l e ?h1" unfolding loading_def using hr by blast
  have p1: "prints ok out sys (printf_lit b cs (cbytes ''Trying flash...'' @ [10]) []) (\<lambda>_. trying_text)"
    using plain_prints [of "cbytes ''Trying flash...'' @ [10]"] by (simp add: cbytes_simps trying_text_def)
  from printsD [OF p1 assms(3)] obtain d1 where
    d1: "printf_lit b cs (cbytes ''Trying flash...'' @ [10]) [] d = Some d1" "ok d1" "out d1 = out d @ trying_text" "sys d1 = sys d" .
  have "\<exists>d' h'. phdr_loop b cs l offset (of_nat 0) ?poff d1 ?h1 = Some (d', h') \<and> loading h l e h' \<and> ok d' \<and>
     out d' = out d1 @ segs_text 0 segs \<and> sys d' = sys d1 \<and> (\<forall>a. a \<notin> local_space l \<longrightarrow> h' a = load_segs segs ?h1 a)"
    using im by (intro phdr_loop_loads [OF load assms(1) _ _ _ _ d1(2)]) simp_all
  then obtain d2 h2 where
    2: "phdr_loop b cs l offset 0 ?poff d1 ?h1 = Some (d2, h2)" "loading h l e h2" "ok d2"
      "out d2 = out d1 @ segs_text 0 segs" "sys d2 = sys d1" "\<forall>a. a \<notin> local_space l \<longrightarrow> h2 a = load_segs segs ?h1 a" by auto
  have e2: "load_ehdr h2 (ehdr_at l) = Some e" using 2(2) im by (intro load_ehdr_arr) (simp_all add: loading_def)
  let ?ap = "[take_bit 32 (e_entry e)]"
  have "prints ok out sys (printf_lit b cs (cbytes ''Booting from DRAM at %x'' @ [10]) ?ap) (\<lambda>_. num_text boot_fmt ?ap)"
    by (rule num_prints [OF boot_formats(4-6)]) (simp add: cbytes_def)
  from printsD [OF this 2(3)] obtain d3 where
    d3: "printf_lit b cs (cbytes ''Booting from DRAM at %x'' @ [10]) ?ap d2 = Some d3" "ok d3" "out d3 = out d2 @ num_text boot_fmt ?ap"
      "sys d3 = sys d2" .
  have "boot_flash b cs l offset d h = Some (e_entry e, d3, h2)"
    unfolding boot_flash_def using im by (simp add: d1(1) hr(1,2) 2(1) e2 d3(1))
  moreover have "h2 a = load_segs segs h a" if "a \<notin> local_space l" for a
    using 2(6) that hr(3) [OF that] load_segs_at [of ?h1 a h segs] by simp
  ultimately show ?thesis using d1 2 d3 by (intro exI [of _ d3] exI [of _ h2]) (simp add: flash_boot_text_def)
qed

lemma dump_prints: "prints ok out sys (dump_hdr b cs e) (\<lambda>_. num_text hdr_fmt (map (\<lambda>i. ucast (e_ident e ! i)) [0..<8]))"
  unfolding dump_hdr_def by (rule num_prints [OF hdr_format]) (simp add: cbytes_def)

lemma boot_flash_rejects_io:
  assumes "locals_ok h l" "in_flash h offset bs" "length bs = SIZEOF_EHDR" "\<not> acceptable (Ehdr_of bs)" "ok d"
  shows "\<exists>d' h'. boot_flash b cs l offset d h = Some (minus_1ul, d', h') \<and> ok d' \<and>
    out d' = out d @ trying_text @ reject_text (Ehdr_of bs) \<and> sys d' = sys d \<and> (\<forall>a. a \<notin> local_space l \<longrightarrow> h' a = h a) \<and> dom h' = dom h"
proof -
  let ?e = "Ehdr_of bs" and ?h1 = "upd_bytes h (ehdr_at l) bs"
  note hr = header_read [OF assms(1-3)]
  have p1: "prints ok out sys (printf_lit b cs (cbytes ''Trying flash...'' @ [10]) []) (\<lambda>_. trying_text)"
    using plain_prints [of "cbytes ''Trying flash...'' @ [10]"] by (simp add: cbytes_simps trying_text_def)
  from printsD [OF p1 assms(5)] obtain d1 where
    d1: "printf_lit b cs (cbytes ''Trying flash...'' @ [10]) [] d = Some d1" "ok d1" "out d1 = out d @ trying_text" "sys d1 = sys d" .
  let ?elf = "\<not> IS_ELF ?e \<or> e_ident ?e ! EI_CLASS \<noteq> ELFCLASS64"
  let ?f = "if ?elf then cbytes ''Doesn'' @ [39] @ cbytes ''t look like an elf64'' @ [10] else cbytes ''Not a ppc64le binary'' @ [10]"
  have "prints ok out sys (printf_lit b cs ?f []) (\<lambda>_. crlf ?f)" by (rule plain_prints) (simp_all add: cbytes_simps)
  note p2 = prints_bind [OF this dump_prints [of ?e], folded reject_text_crlf]
  from printsD [OF p2 d1(2)] obtain d2 where
    d2: "Option.bind (printf_lit b cs ?f [] d1) (dump_hdr b cs ?e) = Some d2" "ok d2" "out d2 = out d1 @ reject_text ?e" "sys d2 = sys d1" .
  from d2(1) obtain d3 where d3: "printf_lit b cs ?f [] d1 = Some d3" "dump_hdr b cs ?e d3 = Some d2" by (auto simp: bind_eq_Some_conv)
  have "boot_flash b cs l offset d h = Some (minus_1ul, d2, ?h1)"
  proof (cases ?elf)
    case True
    then show ?thesis using d3 unfolding boot_flash_def by (simp only: d1(1) hr(1,2) Option.bind.bind_lunit if_True)
  next
    case False
    then have "e_ident ?e ! EI_DATA \<noteq> ELFDATA2LSB \<or> e_machine ?e \<noteq> EM_PPC64" using assms(4) by (auto simp: acceptable_def)
    with False show ?thesis using d3 unfolding boot_flash_def by (simp only: d1(1) hr(1,2) Option.bind.bind_lunit if_True if_False)
  qed
  then show ?thesis using d1 d2 hr by (intro exI [of _ d2] exI [of _ ?h1]) simp
qed

end

end
