(* ===== verification/Boot_Main.thy ===== *)
theory Boot_Main
  imports Boot_Elf
begin

text \<open>
  The main program of the boot firmware on a machine that provides \<open>boot_machine\<close>: what it prints,
  in which state it leaves the system controller, and where it boots from.
\<close>

section \<open>The report\<close>

context boot_io
begin

lemma features_prints:
  "prints ok out sys (print_features b cs ftr)
     (\<lambda>_. opt_text (ftr AND SYS_REG_INFO_HAS_UART \<noteq> 0) (cbytes ''UART '') @ opt_text (ftr AND SYS_REG_INFO_HAS_DRAM \<noteq> 0) (cbytes ''DRAM '') @
        opt_text (ftr AND SYS_REG_INFO_HAS_BRAM \<noteq> 0) (cbytes ''BRAM '') @ opt_text (ftr AND SYS_REG_INFO_HAS_SPI_FLASH \<noteq> 0) (cbytes ''SPIFLASH '') @
        opt_text (ftr AND SYS_REG_INFO_HAS_LITEETH \<noteq> 0) (cbytes ''ETHERNET '') @ opt_text (ftr AND SYS_REG_INFO_HAS_LITESDCARD \<noteq> 0) (cbytes ''SDCARD '') @ [13, 10])"
proof -
  have w: "prints ok out sys (printf_if b cs c w) (\<lambda>_. opt_text c w)"
    if "plain w" "length w < 128" "crlf w = w" for c w
    using if_prints [OF that(1,2), of c] that(3) by (cases c) (simp_all add: opt_text_def)
  have nl: "prints ok out sys (printf_lit b cs [10] []) (\<lambda>_. [13, 10])"
    using plain_prints [of "[10]"] by (simp add: cbytes_simps)
  show ?thesis unfolding print_features_def
    by (intro prints_bind w nl) (simp_all add: cbytes_simps)
qed

lemma bram_prints:
  "prints ok out sys (print_bram b cs ftr)
     (\<lambda>s. opt_text (ftr AND SYS_REG_INFO_HAS_BRAM \<noteq> 0) (num_text bram_fmt [(syscon_read s 0x10 AND SYS_REG_BRAMINFO_SIZE_MASK) div 1024]))"
proof (cases "ftr AND SYS_REG_INFO_HAS_BRAM = 0")
  case False
  have p: "prints ok out sys (printf_lit b cs (cbytes ''          BRAM: %ld KB'' @ [10]) [v])
      (\<lambda>_. num_text bram_fmt [v])" for v
    by (rule num_prints [OF formats(3,4) formats_args(2)]) (simp add: cbytes_def)
  have "0x10 \<in> syscon_offs" by (simp add: syscon_offs_def)
  from rd_prints [OF this p] False show ?thesis
    by (simp add: print_bram_def prints_def opt_text_def SYS_REG_BRAMINFO_def)
qed (simp add: print_bram_def prints_def opt_text_def)

lemma dram_prints:
  "prints ok out sys (print_dram b cs ftr)
     (\<lambda>s. opt_text (ftr AND SYS_REG_INFO_HAS_DRAM \<noteq> 0)
        (num_text dram_fmt [(syscon_read s 0x18 AND SYS_REG_DRAMINFO_SIZE_MASK) div (1024 * 1024)] @
         num_text dram_init_fmt [syscon_read s 0x30 div 1024]))"
proof (cases "ftr AND SYS_REG_INFO_HAS_DRAM = 0")
  case False
  have p: "prints ok out sys (printf_lit b cs (cbytes ''          DRAM: %ld MB'' @ [10]) [v]) (\<lambda>_. num_text dram_fmt [v])" for v
    by (rule num_prints [OF formats(5,6) formats_args(3)]) (simp add: cbytes_def)
  have q: "prints ok out sys (printf_lit b cs (cbytes ''     DRAM INIT: %ld KB'' @ [10]) [v]) (\<lambda>_. num_text dram_init_fmt [v])" for v
    by (rule num_prints [OF formats(7,8) formats_args(4)]) (simp add: cbytes_def)
  have offs: "0x18 \<in> syscon_offs" "0x30 \<in> syscon_offs" by (simp_all add: syscon_offs_def)
  have r: "prints ok out sys (\<lambda>d. Option.bind (readq b (SYSCON_BASE + 0x30) d)
      (\<lambda>(w, d'). printf_lit b cs (cbytes ''     DRAM INIT: %ld KB'' @ [10]) [w div 1024] d'))
      (\<lambda>s. num_text dram_init_fmt [syscon_read s 0x30 div 1024])"
    using rd_prints [OF offs(2) q] .
  note t = rd_prints [OF offs(1) prints_bind [OF p r], of "\<lambda>v. (v AND SYS_REG_DRAMINFO_SIZE_MASK) div (1024 * 1024)"]
  show ?thesis
    using t False unfolding print_dram_def SYS_REG_DRAMINFO_def SYS_REG_DRAMINITINFO_def opt_text_def by (simp only: not_False_eq_True if_True)
qed (simp add: print_dram_def prints_def opt_text_def)

lemma clk_prints:
  "prints ok out sys (print_clk b cs) (\<lambda>s. num_text clk_fmt [(syscon_read s 0x20 AND SYS_REG_CLKINFO_FREQ_MASK) div 1000000])"
proof -
  have p: "prints ok out sys (printf_lit b cs (cbytes ''           CLK: %ld MHz'' @ [10]) [v]) (\<lambda>_. num_text clk_fmt [v])" for v
    by (rule num_prints [OF formats(9,10) formats_args(5)]) (simp add: cbytes_def)
  have "0x20 \<in> syscon_offs" by (simp add: syscon_offs_def)
  from rd_prints [OF this p] show ?thesis by (simp add: print_clk_def prints_def SYS_REG_CLKINFO_def)
qed

lemma welcome_prints:
  "prints ok out sys (\<lambda>d. do {
     d2 \<leftarrow> printf_lit b cs ([10, 10] @ cbytes ''Welcome to Microwatt !'' @ [10, 10]) [] d;
     (sig, d3) \<leftarrow> readq b (SYSCON_BASE + 0) d2;
     d4 \<leftarrow> printf_lit b cs (cbytes '' Soc signature: %016llx'' @ [10]) [sig] d3;
     printf_lit b cs (cbytes ''  Soc features: '') [] d4 })
   (\<lambda>s. crlf ([10, 10] @ cbytes ''Welcome to Microwatt !'' @ [10, 10]) @ num_text sig_fmt [SIG_VALUE s] @ cbytes ''  Soc features: '')"
proof -
  have w: "prints ok out sys (printf_lit b cs ([10, 10] @ cbytes ''Welcome to Microwatt !'' @ [10, 10]) [])
      (\<lambda>_. crlf ([10, 10] @ cbytes ''Welcome to Microwatt !'' @ [10, 10]))"
    by (rule plain_prints) (simp_all add: cbytes_simps)
  have s: "prints ok out sys (printf_lit b cs (cbytes '' Soc signature: %016llx'' @ [10]) [v]) (\<lambda>_. num_text sig_fmt [v])" for v
    by (rule num_prints [OF formats(1,2) formats_args(1)]) (simp add: cbytes_def)
  have f: "prints ok out sys (printf_lit b cs (cbytes ''  Soc features: '') []) (\<lambda>_. cbytes ''  Soc features: '')"
    using plain_prints [of "cbytes ''  Soc features: ''"] by (simp add: cbytes_simps)
  have "0 \<in> syscon_offs" by (simp add: syscon_offs_def)
  from prints_bind [OF w rd_prints [OF this prints_bind [OF s f]]] show ?thesis by (simp add: syscon_read_def)
qed

end

text \<open>The texts for the values that the system controller reports.\<close>

lemma features_text_eq:
  "opt_text (reg_info s AND SYS_REG_INFO_HAS_UART \<noteq> 0) (cbytes ''UART '') @ opt_text (reg_info s AND SYS_REG_INFO_HAS_DRAM \<noteq> 0) (cbytes ''DRAM '') @
   opt_text (reg_info s AND SYS_REG_INFO_HAS_BRAM \<noteq> 0) (cbytes ''BRAM '') @ opt_text (reg_info s AND SYS_REG_INFO_HAS_SPI_FLASH \<noteq> 0) (cbytes ''SPIFLASH '') @
   opt_text (reg_info s AND SYS_REG_INFO_HAS_LITEETH \<noteq> 0) (cbytes ''ETHERNET '') @ opt_text (reg_info s AND SYS_REG_INFO_HAS_LITESDCARD \<noteq> 0) (cbytes ''SDCARD '') @
   [13, 10] = features_text s"
  unfolding reg_info_bits features_text_def ..

lemma bram_text_eq:
  "opt_text (reg_info s AND SYS_REG_INFO_HAS_BRAM \<noteq> 0) (num_text bram_fmt [(syscon_read s 0x10 AND SYS_REG_BRAMINFO_SIZE_MASK) div 1024]) = bram_text s"
proof -
  have "syscon_read s 0x10 = take_bit 52 (of_nat (BRAM_SIZE s))" by (simp add: syscon_read_def)
  then show ?thesis unfolding bram_text_def reg_info_bits by (simp only: size_mask)
qed

lemma dram_text_eq:
  "opt_text (reg_info s AND SYS_REG_INFO_HAS_DRAM \<noteq> 0)
     (num_text dram_fmt [(syscon_read s 0x18 AND SYS_REG_DRAMINFO_SIZE_MASK) div (1024 * 1024)] @
      num_text dram_init_fmt [syscon_read s 0x30 div 1024]) = dram_text s"
proof (cases "HAS_DRAM s")
  case True
  then have "syscon_read s 0x18 = take_bit 52 (of_nat (DRAM_SIZE s))" "syscon_read s 0x30 = take_bit 52 (of_nat (DRAM_INIT_SIZE s))"
    by (simp_all add: syscon_read_def)
  then show ?thesis unfolding dram_text_def reg_info_bits by (simp only: size_mask)
next
  case False
  then show ?thesis unfolding dram_text_def reg_info_bits by (simp only: opt_text_def if_False)
qed

lemma clk_text_eq: "num_text clk_fmt [(syscon_read s 0x20 AND SYS_REG_CLKINFO_FREQ_MASK) div 1000000] = clk_text s"
proof -
  have "syscon_read s 0x20 = take_bit 40 (of_nat (CLK_FREQ s))" by (simp add: syscon_read_def)
  then show ?thesis unfolding clk_text_def by (simp only: freq_mask)
qed

section \<open>Booting\<close>

text \<open>
  What the main program needs beyond the console: that the console can be initialised, and
  that the flash, where there is one, can be identified. \<open>ok0\<close> holds until it is.
\<close>

locale boot_machine = boot_io b cs out sys ok + pre: boot_io b cs out sys ok0
  for b :: "'d bus" and cs out sys ok ok0 +
  fixes start :: "'d \<Rightarrow> bool"
    and flash_text :: "u8 list"
  assumes init: "start d \<Longrightarrow> \<exists>d'. console_init b d = Some (cs, d') \<and> ok0 d' \<and> out d' = out d \<and> sys d' = sys d"
    and ok0_ok: "ok0 d \<Longrightarrow> ok d"
    and flash: "ok0 d \<Longrightarrow> HAS_SPI_FLASH (sys d) \<Longrightarrow>
      \<exists>r d'. check_flash b cs d = Some (r, d') \<and> ok d' \<and> out d' = out d @ flash_text \<and> sys d' = sys d"

text \<open>The DRAM initialisation: it is complete or not, prints a text and changes the memory.\<close>

definition sdram_spec ::
  "'d sdram \<Rightarrow> console \<Rightarrow> ('d \<Rightarrow> bool) \<Rightarrow> ('d \<Rightarrow> u8 list) \<Rightarrow> ('d \<Rightarrow> syscon) \<Rightarrow> u32 \<Rightarrow> u8 list \<Rightarrow> (heap \<Rightarrow> heap) \<Rightarrow> bool" where
  "sdram_spec sd cs ok out sys ready text mem \<longleftrightarrow>
     plain (LITEX_GIT_SHA1 sd) \<and> length (LITEX_GIT_SHA1 sd) < 128 \<and>
     (\<forall>d. ok d \<longrightarrow> ddrctrl_init_done_read sd d = Some (ready, d)) \<and>
     (\<forall>d h. ok d \<longrightarrow> (\<exists>d'. sdram_init sd cs d h = Some (d', mem h) \<and> ok d' \<and> out d' = out d @ text \<and> sys d' = sys d))"

definition litex_fmt :: "fitem list" where
  "litex_fmt = lits (cbytes ''LiteDRAM built from LiteX '') @ [Conv No_Flag [] M_int 115] @ lits [10]"

definition litex_text :: "u8 list \<Rightarrow> u8 list" where
  "litex_text sha = crlf (printf_text (\<lambda>_. sha) litex_fmt [0])"

definition setup_text :: "u8 list \<Rightarrow> u8 list \<Rightarrow> u32 \<Rightarrow> u8 list \<Rightarrow> syscon \<Rightarrow> u8 list" where
  "setup_text flash_text sha ready sdram_text s =
     welcome_text s @
     opt_text (HAS_SPI_FLASH s) (flash_text @ num_text flash_off_fmt [take_bit 32 (of_nat (SPI_FLASH_OFFSET s))]) @ [13, 10] @
     opt_text (HAS_DRAM s \<and> ready = 0) (litex_text sha @ sdram_text)"

definition setup_mem :: "u32 \<Rightarrow> (heap \<Rightarrow> heap) \<Rightarrow> syscon \<Rightarrow> heap \<Rightarrow> heap" where
  "setup_mem ready mem s h = (if HAS_DRAM s \<and> ready = 0 then mem h else h)"

text \<open>The control register after the firmware has cleared the alternative reset vector.\<close>

definition boot_sys :: "syscon \<Rightarrow> syscon" where
  "boot_sys s =
     (let v = syscon_read s 0x28 AND NOT SYS_REG_CTRL_ALT_RESET
      in syscon_write 0x2c (drop_bit 32 v) (syscon_write 0x28 (take_bit 32 v) s))"

definition flash_off :: "syscon \<Rightarrow> u32" where
  "flash_off s = (if HAS_SPI_FLASH s then of_nat (SPI_FLASH_OFFSET s) else 0)"

lemma bounded_lits_append: "bounded R strs (lits s @ its) ap = take R s @ bounded (R - length s) strs its ap"
proof (induction s arbitrary: R)
  case (Cons c s)
  then show ?case by (cases R; cases its) (auto simp: lits_def)
qed (simp add: lits_def)

lemma litex_print:
  assumes "plain sha" "length sha < 128"
  defines "fmt \<equiv> cbytes ''LiteDRAM built from LiteX %s'' @ [10]"
  shows "map_option snd (printf b cs (blk (fmt @ [0] @ sha @ [0])) 0 [of_nat (length fmt + 1)] d) =
    put_list (put_one b cs) (litex_text sha) d"
proof -
  let ?ro = "blk (fmt @ [0] @ sha @ [0])" and ?p = "of_nat (length fmt + 1) :: u64"
  have fmt: "fmt = fmt_bytes litex_fmt" "list_all item_ok litex_fmt" "list_all no_char litex_fmt" "length fmt < 128"
    by (simp_all add: fmt_def litex_fmt_def cbytes_simps is_conv_def)
  have "arr ?ro 0 ((fmt @ [0]) @ sha @ [0])"
    using assms(2) fmt(4) arr_blk [of "fmt @ [0] @ sha @ [0]"] by (simp add: addr_max_def)
  then have a: "arr ?ro 0 (fmt @ [0])" "arr ?ro ?p (sha @ [0])" unfolding arr_append by (simp_all add: arr_append)
  have "cstr ?ro 0 (fmt_bytes litex_fmt)" using a(1) fmt_nonzero [OF fmt(2)] fmt(1) by (simp add: cstr_arr)
  moreover have "args_ok ?ro (\<lambda>_. sha) litex_fmt [?p]"
    using a(2) assms(1,2) by (simp add: litex_fmt_def cstr_arr plain_def addr_max_def)
  moreover have "printf_text (\<lambda>_. sha) litex_fmt [?p] = printf_text (\<lambda>_. sha) litex_fmt [0]"
    by (simp add: printf_text_def litex_fmt_def bounded_lits_append conv_out_def)
  ultimately show ?thesis
    using printf_eq [OF fmt(2,3), of ?ro "\<lambda>_. sha" "[?p]" 0 b cs d] assms(1) by (simp add: litex_text_def plain_def)
qed

lemma flash_off_mask: "take_bit 32 x AND SYS_REG_SPI_INFO_FLASH_OFF_MASK = take_bit 32 x"
  by (simp add: SYS_REG_SPI_INFO_FLASH_OFF_MASK_def take_bit_eq_mask mask_numeral and.assoc)

context boot_machine
begin

lemma setup_flash_io:
  assumes "ok0 d"
  shows "\<exists>d'. setup_flash b cs (reg_info (sys d)) d = Some ((HAS_SPI_FLASH (sys d), flash_off (sys d)), d') \<and> ok d' \<and>
    out d' = out d @ opt_text (HAS_SPI_FLASH (sys d)) (flash_text @ num_text flash_off_fmt [take_bit 32 (of_nat (SPI_FLASH_OFFSET (sys d)))]) \<and>
    sys d' = sys d"
proof (cases "HAS_SPI_FLASH (sys d)")
  case False
  then have "\<not> reg_info (sys d) AND SYS_REG_INFO_HAS_SPI_FLASH \<noteq> 0" using reg_info_bits(4) by blast
  then show ?thesis using False assms ok0_ok by (simp add: setup_flash_def opt_text_def flash_off_def)
next
  case True
  then have has: "reg_info (sys d) AND SYS_REG_INFO_HAS_SPI_FLASH \<noteq> 0" using reg_info_bits(4) by blast
  let ?v = "take_bit 32 (of_nat (SPI_FLASH_OFFSET (sys d))) :: u64"
  have rd: "readq b (SYSCON_BASE + SYS_REG_SPI_INFO) d = Some (?v, d)"
    using pre.syscon_rd [OF assms, of "0x38"] by (simp add: syscon_offs_def SYS_REG_SPI_INFO_def syscon_read_def)
  have v: "ucast (?v AND SYS_REG_SPI_INFO_FLASH_OFF_MASK) = flash_off (sys d)" "ucast (flash_off (sys d)) = ?v"
    unfolding flash_off_mask using True by (auto simp: flash_off_def bit_eq_iff bit_simps)
  from flash [OF assms True] obtain r d2 where
    d2: "check_flash b cs d = Some (r, d2)" "ok d2" "out d2 = out d @ flash_text" "sys d2 = sys d" by blast
  have "prints ok out sys (printf_lit b cs (cbytes '' SPI FLASH OFF: 0x%x bytes'' @ [10]) [?v]) (\<lambda>_. num_text flash_off_fmt [?v])"
    by (rule num_prints [OF formats(11,12) formats_args(6)]) (simp add: cbytes_def)
  from printsD [OF this d2(2)] obtain d3 where
    d3: "printf_lit b cs (cbytes '' SPI FLASH OFF: 0x%x bytes'' @ [10]) [?v] d2 = Some d3" "ok d3" "out d3 = out d2 @ num_text flash_off_fmt [?v]"
      "sys d3 = sys d2" .
  have "setup_flash b cs (reg_info (sys d)) d = Some ((True, flash_off (sys d)), d3)"
    unfolding setup_flash_def using has by (simp add: rd d2(1) v d3(1))
  then show ?thesis using True d2 d3 by (simp add: opt_text_def)
qed

lemma setup_dram_io:
  assumes "ok d" "sdram_spec sd cs ok out sys ready text mem"
  shows "\<exists>d'. setup_dram b sd cs (reg_info (sys d)) d h = Some (d', setup_mem ready mem (sys d) h) \<and> ok d' \<and>
    out d' = out d @ opt_text (HAS_DRAM (sys d) \<and> ready = 0) (litex_text (LITEX_GIT_SHA1 sd) @ text) \<and> sys d' = sys d"
proof (cases "HAS_DRAM (sys d)")
  case False
  then have "\<not> reg_info (sys d) AND SYS_REG_INFO_HAS_DRAM \<noteq> 0" using reg_info_bits(2) by blast
  then show ?thesis using False assms by (simp add: setup_dram_def opt_text_def setup_mem_def)
next
  case True
  then have has: "reg_info (sys d) AND SYS_REG_INFO_HAS_DRAM \<noteq> 0" using reg_info_bits(2) by blast
  have sd: "plain (LITEX_GIT_SHA1 sd)" "length (LITEX_GIT_SHA1 sd) < 128" "ddrctrl_init_done_read sd d = Some (ready, d)"
    using assms by (auto simp: sdram_spec_def)
  show ?thesis
  proof (cases "ready = 0")
    case False
    then show ?thesis unfolding setup_dram_def using has sd(3) assms(1) by (simp add: opt_text_def setup_mem_def)
  next
    case 0: True
    let ?fmt = "cbytes ''LiteDRAM built from LiteX %s'' @ [10]"
    let ?p = "printf b cs (blk (?fmt @ [0] @ LITEX_GIT_SHA1 sd @ [0])) 0 [of_nat (length ?fmt + 1)] d"
    from printsD [OF put_list_prints [of "litex_text (LITEX_GIT_SHA1 sd)"] assms(1)] obtain d2 where
      d2: "put_list (put_one b cs) (litex_text (LITEX_GIT_SHA1 sd)) d = Some d2" "ok d2"
        "out d2 = out d @ litex_text (LITEX_GIT_SHA1 sd)" "sys d2 = sys d" .
    with litex_print [OF sd(1,2), of b cs d] obtain n where p: "?p = Some (n, d2)" by auto
    from assms(2) d2(2) obtain d3 where
      d3: "sdram_init sd cs d2 h = Some (d3, mem h)" "ok d3" "out d3 = out d2 @ text" "sys d3 = sys d2"
      unfolding sdram_spec_def by blast
    have "setup_dram b sd cs (reg_info (sys d)) d h = Some (d3, mem h)"
      unfolding setup_dram_def Let_def using has 0 by (simp only: sd(3) p d3(1) Option.bind.bind_lunit prod.case if_True not_False_eq_True simp_thms)
    then show ?thesis using True 0 d2 d3 by (simp add: opt_text_def setup_mem_def)
  qed
qed

lemma boot_setup:
  assumes "start d" "sdram_spec sd cs ok out sys ready text mem"
  shows "\<exists>d'. boot_main b sd l d h =
      boot_select b cs l (reg_info (sys d)) (HAS_SPI_FLASH (sys d)) (flash_off (sys d)) d' (setup_mem ready mem (sys d) h) \<and>
    ok d' \<and> out d' = out d @ setup_text flash_text (LITEX_GIT_SHA1 sd) ready text (sys d) \<and> sys d' = boot_sys (sys d)"
proof -
  let ?s = "sys d" and ?ftr = "reg_info (sys d)"
  from init [OF assms(1)] obtain d1 where d1: "console_init b d = Some (cs, d1)" "ok0 d1" "out d1 = out d" "sys d1 = ?s" by blast
  from printsD [OF pre.welcome_prints d1(2)] obtain d5 where
    d5: "do { d2 \<leftarrow> printf_lit b cs ([10, 10] @ cbytes ''Welcome to Microwatt !'' @ [10, 10]) [] d1;
       (sig, d3) \<leftarrow> readq b (SYSCON_BASE + 0) d2;
       d4 \<leftarrow> printf_lit b cs (cbytes '' Soc signature: %016llx'' @ [10]) [sig] d3;
       printf_lit b cs (cbytes ''  Soc features: '') [] d4 } = Some d5" "ok0 d5"
      "out d5 = out d1 @ crlf ([10, 10] @ cbytes ''Welcome to Microwatt !'' @ [10, 10]) @ num_text sig_fmt [SIG_VALUE ?s] @ cbytes ''  Soc features: ''"
      "sys d5 = ?s" unfolding d1(4) .
  have ftr: "readq b (SYSCON_BASE + SYS_REG_INFO) d5 = Some (?ftr, d5)"
    using pre.syscon_rd [OF d5(2), of 8] d5(4) by (simp add: syscon_offs_def SYS_REG_INFO_def syscon_read_def)
  from printsD [OF pre.features_prints [of ?ftr] d5(2)] obtain d7 where
    d7: "print_features b cs ?ftr d5 = Some d7" "ok0 d7" "out d7 = out d5 @ features_text ?s" "sys d7 = ?s"
    unfolding d5(4) features_text_eq .
  from printsD [OF pre.bram_prints [of ?ftr] d7(2)] obtain d8 where
    d8: "print_bram b cs ?ftr d7 = Some d8" "ok0 d8" "out d8 = out d7 @ bram_text ?s" "sys d8 = ?s"
    unfolding d7(4) bram_text_eq .
  from printsD [OF pre.dram_prints [of ?ftr] d8(2)] obtain d9 where
    d9: "print_dram b cs ?ftr d8 = Some d9" "ok0 d9" "out d9 = out d8 @ dram_text ?s" "sys d9 = ?s"
    unfolding d8(4) dram_text_eq .
  from printsD [OF pre.clk_prints d9(2)] obtain e1 where
    e1: "print_clk b cs d9 = Some e1" "ok0 e1" "out e1 = out d9 @ clk_text ?s" "sys e1 = ?s"
    unfolding d9(4) clk_text_eq .
  from setup_flash_io [OF e1(2)] obtain e2 where
    e2: "setup_flash b cs ?ftr e1 = Some ((HAS_SPI_FLASH ?s, flash_off ?s), e2)" "ok e2"
      "out e2 = out e1 @ opt_text (HAS_SPI_FLASH ?s) (flash_text @ num_text flash_off_fmt [take_bit 32 (of_nat (SPI_FLASH_OFFSET ?s))])" "sys e2 = ?s"
    unfolding e1(4) by blast
  have "prints ok out sys (printf_lit b cs [10] []) (\<lambda>_. [13, 10])" using plain_prints [of "[10]"] by (simp add: cbytes_simps)
  from printsD [OF this e2(2)] obtain e3 where
    e3: "printf_lit b cs [10] [] e2 = Some e3" "ok e3" "out e3 = out e2 @ [13, 10]" "sys e3 = ?s"
    unfolding e2(4) .
  from setup_dram_io [OF e3(2) assms(2), of h] obtain e4 where
    e4: "setup_dram b sd cs ?ftr e3 h = Some (e4, setup_mem ready mem ?s h)" "ok e4"
      "out e4 = out e3 @ opt_text (HAS_DRAM ?s \<and> ready = 0) (litex_text (LITEX_GIT_SHA1 sd) @ text)" "sys e4 = ?s"
    unfolding e3(4) by blast
  have ctrl: "readq b (SYSCON_BASE + SYS_REG_CTRL) e4 = Some (syscon_read ?s 0x28, e4)"
    using syscon_rd [OF e4(2), of "0x28"] e4(4) by (simp add: syscon_offs_def SYS_REG_CTRL_def)
  from syscon_wr [OF e4(2), of "syscon_read ?s 0x28 AND NOT SYS_REG_CTRL_ALT_RESET"] obtain e6 where
    e6: "writeq b (syscon_read ?s 0x28 AND NOT SYS_REG_CTRL_ALT_RESET) (SYSCON_BASE + SYS_REG_CTRL) e4 = Some e6" "ok e6" "out e6 = out e4"
      "sys e6 = boot_sys ?s" unfolding e4(4) boot_sys_def Let_def by blast
  obtain d2 sig d3 d4 where w: "printf_lit b cs ([10, 10] @ cbytes ''Welcome to Microwatt !'' @ [10, 10]) [] d1 = Some d2"
    "readq b (SYSCON_BASE + SYS_REG_SIGNATURE) d2 = Some (sig, d3)"
    "printf_lit b cs (cbytes '' Soc signature: %016llx'' @ [10]) [sig] d3 = Some d4"
    "printf_lit b cs (cbytes ''  Soc features: '') [] d4 = Some d5"
    using d5(1) unfolding SYS_REG_SIGNATURE_def by (simp only: bind_eq_Some_conv split_paired_Ex prod.case) blast
  have "boot_main b sd l d h = boot_select b cs l ?ftr (HAS_SPI_FLASH ?s) (flash_off ?s) e6 (setup_mem ready mem ?s h)"
    unfolding boot_main_def
    by (simp only: d1(1) w ftr d7(1) d8(1) d9(1) e1(1) e2(1) e3(1) e4(1) ctrl e6(1) Option.bind.bind_lunit prod.case)
  moreover have "out e6 = out d @ setup_text flash_text (LITEX_GIT_SHA1 sd) ready text ?s"
    by (simp only: e6(3) e4(3) e3(3) e2(3) e1(3) d9(3) d8(3) d7(3) d5(3) d1(3) setup_text_def welcome_text_def append_assoc)
  ultimately show ?thesis using e6(2,4) by blast
qed

end

section \<open>Where it boots from\<close>

text \<open>The payload behind the firmware, and the memory it is copied to.\<close>

definition payload_ok :: "heap \<Rightarrow> u8 list \<Rightarrow> bool" where
  "payload_ok h pl \<longleftrightarrow> length pl = 0xa000 \<and> arr h (DRAM_INIT_BASE + 0x6000) pl \<and> mapped h DRAM_BASE 0xa000"

definition payload_text :: "u8 list" where
  "payload_text = crlf (cbytes ''Copying payload to DRAM...'' @ [10]) @ crlf (cbytes ''Booting from DRAM...'' @ [10])"

lemma payload_disjoint: "region DRAM_BASE 0xa000 \<inter> region (DRAM_INIT_BASE + 0x6000) 0xa000 = {}"
proof -
  have "False" if "a \<in> region DRAM_BASE 0xa000" "a \<in> region (DRAM_INIT_BASE + 0x6000) 0xa000" for a
  proof -
    have "unat (a - DRAM_BASE) < 0xa000" "unat (a - (DRAM_INIT_BASE + 0x6000)) < 0xa000"
      using that by (simp_all add: region_iff addr_max_def)
    moreover obtain k where k: "a = DRAM_BASE + k" by (metis add.commute diff_add_cancel)
    ultimately have "unat k < 0xa000" "unat (k - 0xbf006000) < 0xa000" by (simp_all add: DRAM_BASE_def DRAM_INIT_BASE_def)
    then show False by (simp add: unat_sub_if' split: if_splits)
  qed
  then show ?thesis by blast
qed

context boot_io
begin

lemma boot_sdram_io:
  assumes "ok d" "payload_ok h pl"
  shows "\<exists>d'. boot_sdram b cs d h = Some (d', upd_bytes h DRAM_BASE pl) \<and> ok d' \<and> out d' = out d @ payload_text \<and> sys d' = sys d"
proof -
  have p: "prints ok out sys (printf_lit b cs (cbytes ''Copying payload to DRAM...'' @ [10]) []) (\<lambda>_. crlf (cbytes ''Copying payload to DRAM...'' @ [10]))"
    "prints ok out sys (printf_lit b cs (cbytes ''Booting from DRAM...'' @ [10]) []) (\<lambda>_. crlf (cbytes ''Booting from DRAM...'' @ [10]))"
    by (rule plain_prints; simp add: cbytes_simps)+
  from printsD [OF p(1) assms(1)] obtain d1 where
    d1: "printf_lit b cs (cbytes ''Copying payload to DRAM...'' @ [10]) [] d = Some d1" "ok d1"
      "out d1 = out d @ crlf (cbytes ''Copying payload to DRAM...'' @ [10])" "sys d1 = sys d" .
  from printsD [OF p(2) d1(2)] obtain d2 where
    d2: "printf_lit b cs (cbytes ''Booting from DRAM...'' @ [10]) [] d1 = Some d2" "ok d2"
      "out d2 = out d1 @ crlf (cbytes ''Booting from DRAM...'' @ [10])" "sys d2 = sys d1" .
  have len: "length pl = 0xa000" "arr h (DRAM_INIT_BASE + 0x6000) pl" "mapped h DRAM_BASE (length pl)"
    using assms(2) unfolding payload_ok_def by metis+
  have "length pl < addr_max" "(0x10000 - 0x6000 :: u64) = of_nat (length pl)" unfolding len(1) by (simp_all add: addr_max_def)
  moreover have "fwd_safe DRAM_BASE (DRAM_INIT_BASE + 0x6000) (length pl)" unfolding len(1) by (rule fwd_safe_disjoint [OF payload_disjoint])
  ultimately have "memcpy h DRAM_BASE (DRAM_INIT_BASE + 0x6000) (0x10000 - 0x6000) = Some (DRAM_BASE, upd_bytes h DRAM_BASE pl)"
    using memcpy_eq [OF len(2,3)] by metis
  then have "boot_sdram b cs d h = Some (d2, upd_bytes h DRAM_BASE pl)"
    unfolding boot_sdram_def by (simp only: d1(1) d2(1) Option.bind.bind_lunit prod.case)
  then show ?thesis using d1 d2 by (simp add: payload_text_def)
qed

end

end
