(* ===== verification/Spi_Flash.thy ===== *)
theory Spi_Flash
  imports Boot_Main
begin

text \<open>
  The SPI flash controller (\<^verbatim>\<open>spi_flash_ctrl.vhdl\<close>) as the boot firmware drives it, one register
  access at a time: the control and configuration registers, and the data register, which
  passes bytes to and from the flash while manual chip select is on. The flash chip itself is
  a parameter. \<open>fsoc_bus\<close> adds the controller to a bus of the simulated system on chip.
\<close>

section \<open>Definitions\<close>

text \<open>A chip takes a byte, gives a byte, and sees its select line go off.\<close>

record 'c chip =
  chip_tx :: "u8 \<Rightarrow> 'c \<Rightarrow> 'c"
  chip_rx :: "'c \<Rightarrow> u8 \<times> 'c"
  chip_off :: "'c \<Rightarrow> 'c"

record ('u, 'c) fsoc =
  f_soc :: "'u soc"
  ctrl_reg :: u16
  auto_cfg_reg :: "30 word"
  f_chip :: 'c

definition ctrl_cs :: "('u, 'c) fsoc \<Rightarrow> bool" where
  "ctrl_cs d = bit (ctrl_reg d) 1"

text \<open>
  Reads: a byte of the data register in manual mode, and the two registers as words. A read of
  the data register without chip select gives what the shifter last received, which is not modelled.
\<close>

definition spi_rd :: "'c chip \<Rightarrow> nat \<Rightarrow> u64 \<Rightarrow> ('u, 'c) fsoc \<Rightarrow> (u64 \<times> ('u, 'c) fsoc) option" where
  "spi_rd ch n off d =
     (if n = 1 \<and> off = SPI_REG_DATA then
        (if ctrl_cs d then (let (v, c) = chip_rx ch (f_chip d) in Some (ucast v, d\<lparr>f_chip := c\<rparr>)) else None)
      else if n = 4 \<and> off = SPI_REG_CTRL then Some (ucast (ctrl_reg d), d)
      else if n = 4 \<and> off = SPI_REG_AUTO_CFG then Some (ucast (auto_cfg_reg d), d)
      else None)"

text \<open>
  Writes: without chip select a write of the data register is acknowledged and dropped. A byte
  written to the control register replaces its low byte; the self-clearing reset bit is not modelled.
\<close>

definition spi_wr :: "'c chip \<Rightarrow> nat \<Rightarrow> u64 \<Rightarrow> u64 \<Rightarrow> ('u, 'c) fsoc \<Rightarrow> ('u, 'c) fsoc option" where
  "spi_wr ch n off v d =
     (if n = 1 \<and> off = SPI_REG_DATA then
        Some (if ctrl_cs d then d\<lparr>f_chip := chip_tx ch (ucast v) (f_chip d)\<rparr> else d)
      else if n = 1 \<and> off = SPI_REG_CTRL then
        (if bit v 0 then None
         else Some (d\<lparr>ctrl_reg := (ctrl_reg d AND NOT 0xff) OR ucast (take_bit 8 v),
           f_chip := (if ctrl_cs d \<and> \<not> bit v 1 then chip_off ch (f_chip d) else f_chip d)\<rparr>))
      else if n = 4 \<and> off = SPI_REG_AUTO_CFG then Some (d\<lparr>auto_cfg_reg := ucast v\<rparr>)
      else None)"

definition fsoc_bus :: "'u soc bus \<Rightarrow> 'c chip \<Rightarrow> ('u, 'c) fsoc bus" where
  "fsoc_bus b ch =
     \<lparr>bus_rd = (\<lambda>n a d. if in_window SPI_FCTRL_BASE a then spi_rd ch n (a - SPI_FCTRL_BASE) d
        else map_option (\<lambda>(v, s). (v, d\<lparr>f_soc := s\<rparr>)) (bus_rd b n a (f_soc d))),
      bus_wr = (\<lambda>n a v d. if in_window SPI_FCTRL_BASE a then spi_wr ch n (a - SPI_FCTRL_BASE) v d
        else map_option (\<lambda>s. d\<lparr>f_soc := s\<rparr>) (bus_wr b n a v (f_soc d)))\<rparr>"

section \<open>The rest of the system\<close>

text \<open>An access to the console or the system controller is carried out there and leaves the controller alone.\<close>

lemma io_not_spi: "io_addr a \<Longrightarrow> \<not> in_window SPI_FCTRL_BASE a"
  by (auto simp: io_addr_def in_window_def UART_BASE_def SYSCON_BASE_def SPI_FCTRL_BASE_def)

interpretation fs: bus_embedding "\<lambda>s. m\<lparr>f_soc := s\<rparr>" b "fsoc_bus b ch" for m :: "('u, 'c) fsoc" and b :: "'u soc bus" and ch
  by unfold_locales (simp_all add: fsoc_bus_def io_not_spi map_prod_def id_def)

lemma fs_put:
  assumes "con_ok std (f_soc d)"
  shows "\<exists>s. put_one (fsoc_bus soc_bus ch) (uart_console std) c d = Some (d\<lparr>f_soc := s\<rparr>) \<and> con_ok std s \<and>
    con_out s = con_out (f_soc d) @ [c] \<and> soc_sys s = soc_sys (f_soc d)"
proof -
  from con_put [OF assms, of c] obtain s where
    s: "put_one soc_bus (uart_console std) c (f_soc d) = Some s" "con_ok std s" "con_out s = con_out (f_soc d) @ [c]"
      "soc_sys s = soc_sys (f_soc d)" by blast
  from fs.put_one_embed [OF s(1), where m = d and ch = ch] s(2-4) show ?thesis by (intro exI [of _ s]) simp
qed

lemma fs_put_list:
  assumes "con_ok std (f_soc d)"
  shows "\<exists>s. put_list (put_one (fsoc_bus soc_bus ch) (uart_console std)) t d = Some (d\<lparr>f_soc := s\<rparr>) \<and> con_ok std s \<and>
    con_out s = con_out (f_soc d) @ t \<and> soc_sys s = soc_sys (f_soc d)"
  using assms
proof (induction t arbitrary: d)
  case Nil
  then show ?case by (intro exI [of _ "f_soc d"]) simp
next
  case (Cons c t)
  from fs_put [OF Cons.prems, of ch c] obtain s where
    s: "put_one (fsoc_bus soc_bus ch) (uart_console std) c d = Some (d\<lparr>f_soc := s\<rparr>)" "con_ok std s"
      "con_out s = con_out (f_soc d) @ [c]" "soc_sys s = soc_sys (f_soc d)" by blast
  with Cons.IH [of "d\<lparr>f_soc := s\<rparr>"] show ?case by auto
qed

lemma fs_plain:
  assumes "con_ok std (f_soc d)" "plain t" "length t < 128"
  obtains s where "printf_lit (fsoc_bus soc_bus ch) (uart_console std) t [] d = Some (d\<lparr>f_soc := s\<rparr>)" "con_ok std s"
    "con_out s = con_out (f_soc d) @ crlf t" "soc_sys s = soc_sys (f_soc d)"
  using fs_put_list [OF assms(1), of ch "crlf t"] unfolding printf_plain [OF assms(2,3)] by blast

lemma fs_num:
  assumes "con_ok std (f_soc d)" "fmt = fmt_bytes its" "list_all item_ok its" "args_num its ap" "length fmt < 200"
  obtains s where "printf_lit (fsoc_bus soc_bus ch) (uart_console std) fmt ap d = Some (d\<lparr>f_soc := s\<rparr>)" "con_ok std s"
    "con_out s = con_out (f_soc d) @ num_text its ap" "soc_sys s = soc_sys (f_soc d)"
  using fs_put_list [OF assms(1), of ch "num_text its ap"] unfolding printf_num [OF assms(2-5)] by blast

lemma fs_syscon_rd:
  "off \<in> syscon_offs \<Longrightarrow> readq (fsoc_bus soc_bus ch) (SYSCON_BASE + off) d = Some (syscon_read (soc_sys (f_soc d)) off, d)"
  using fs.acc(2) [OF io_syscon, where m = d and b = soc_bus and ch = ch and d = "f_soc d"] con_syscon [of off "f_soc d"] by simp

lemma fs_syscon_wr:
  "writeq (fsoc_bus soc_bus ch) v (SYSCON_BASE + SYS_REG_CTRL) d =
     Some (d\<lparr>f_soc := (f_soc d)\<lparr>soc_sys := syscon_write 0x2c (drop_bit 32 v) (syscon_write 0x28 (take_bit 32 v) (soc_sys (f_soc d)))\<rparr>\<rparr>)"
proof -
  have off: "0x28 \<in> syscon_offs" by (simp add: syscon_offs_def)
  have w: "in_window SYSCON_BASE (SYSCON_BASE + 0x28)" "in_window SYSCON_BASE (0x2c + SYSCON_BASE)"
    "(SYSCON_BASE + 0x28) AND 7 = 0" "(SYSCON_BASE + 0x28) AND 0x1fc = 0x28" "(0x2c + SYSCON_BASE) AND 0x1fc = 0x2c"
    by (simp_all add: in_window_def SYSCON_BASE_def)
  have "ucast (ucast v :: u32) = take_bit 32 v" "ucast (ucast (drop_bit 32 v) :: u32) = drop_bit 32 v"
    by (auto simp: bit_eq_iff bit_simps dest: bit_imp_le_length)
  then have "writeq soc_bus v (SYSCON_BASE + 0x28) s =
      Some (s\<lparr>soc_sys := syscon_write 0x2c (drop_bit 32 v) (syscon_write 0x28 (take_bit 32 v) (soc_sys s))\<rparr>)" for s
    by (simp add: writeq_def soc_bus_def soc_wr_def sio_wr_def w)
  then show ?thesis
    using fs.acc(4) [OF io_syscon [OF off], where m = d and b = soc_bus and ch = ch and y = v and d = "f_soc d"] by (simp add: SYS_REG_CTRL_def)
qed

lemma fs_init:
  assumes "uart_generated (f_soc d)"
  defines "std \<equiv> UART0_IS_16550 (soc_sys (f_soc d))"
  shows "\<exists>s. console_init (fsoc_bus soc_bus ch) d = Some (uart_console std, d\<lparr>f_soc := s\<rparr>) \<and> con_ok std s \<and>
    con_out s = con_out (f_soc d) \<and> soc_sys s = soc_sys (f_soc d)"
proof -
  from con_init [OF assms(1)] obtain s where
    s: "console_init soc_bus (f_soc d) = Some (uart_console std, s)" "con_ok std s" "con_out s = con_out (f_soc d)"
      "soc_sys s = soc_sys (f_soc d)" unfolding std_def by blast
  from fs.console_init_embed [OF s(1), where m = d and ch = ch] s(2-4) show ?thesis by (intro exI [of _ s]) simp
qed

section \<open>Commands to the flash\<close>

lemma spi_access:
  "writeb (fsoc_bus b ch) v (SPI_FCTRL_BASE + SPI_REG_CTRL) d = spi_wr ch 1 SPI_REG_CTRL (ucast v) d"
  "writeb (fsoc_bus b ch) v (SPI_FCTRL_BASE + SPI_REG_DATA) d = spi_wr ch 1 SPI_REG_DATA (ucast v) d"
  "readb (fsoc_bus b ch) (SPI_FCTRL_BASE + SPI_REG_DATA) d = map_option (\<lambda>(v, d'). (ucast v, d')) (spi_rd ch 1 SPI_REG_DATA d)"
  "readl (fsoc_bus b ch) (SPI_FCTRL_BASE + SPI_REG_AUTO_CFG) d = map_option (\<lambda>(v, d'). (ucast v, d')) (spi_rd ch 4 SPI_REG_AUTO_CFG d)"
  "writel (fsoc_bus b ch) w (SPI_FCTRL_BASE + SPI_REG_AUTO_CFG) d = spi_wr ch 4 SPI_REG_AUTO_CFG (ucast w) d"
  by (simp_all add: writeb_def readb_def readl_def writel_def fsoc_bus_def in_window_def SPI_FCTRL_BASE_def
      SPI_REG_CTRL_def SPI_REG_DATA_def SPI_REG_AUTO_CFG_def)

text \<open>The chip is selected, or not; the firmware writes the low byte of the control register only.\<close>

definition sel :: "('u, 'c) fsoc \<Rightarrow> 'c \<Rightarrow> ('u, 'c) fsoc" where
  "sel d c = d\<lparr>ctrl_reg := (ctrl_reg d AND NOT 0xff) OR 2, f_chip := c\<rparr>"

definition desel :: "('u, 'c) fsoc \<Rightarrow> 'c \<Rightarrow> ('u, 'c) fsoc" where
  "desel d c = d\<lparr>ctrl_reg := ctrl_reg d AND NOT 0xff, f_chip := c\<rparr>"

lemma ctrl_cs_sel: "ctrl_cs (sel d c)" "\<not> ctrl_cs (desel d c)"
proof -
  have "bit (2 :: u16) 1" "bit (0xff :: u16) 1" by (simp_all add: bit_numeral_rec)
  then show "ctrl_cs (sel d c)" "\<not> ctrl_cs (desel d c)"
    by (simp_all add: ctrl_cs_def sel_def desel_def bit_or_iff bit_and_iff bit_not_iff del: bit_numeral_rec)
qed

lemma low_byte: "((x AND - 256) OR 2) AND - 256 = x AND - 256" "(x AND - 256) AND - 256 = x AND - 256" for x :: u16
proof -
  have "(2 :: u16) AND - 256 = 0" by simp
  then show "((x AND - 256) OR 2) AND - 256 = x AND - 256" "(x AND - 256) AND - 256 = x AND - 256"
    by (simp_all only: bit.conj_disj_distrib2 and.assoc and.idem or.right_neutral)
qed

lemma desel_simps:
  "f_chip (desel d c) = c" "f_soc (desel d c) = f_soc d" "auto_cfg_reg (desel d c) = auto_cfg_reg d"
  "desel (desel d c) c' = desel d c'" "sel (desel d c) c' = sel d c'" "(desel d c)\<lparr>f_soc := s\<rparr> = desel (d\<lparr>f_soc := s\<rparr>) c"
  "(desel d c)\<lparr>auto_cfg_reg := a\<rparr> = desel (d\<lparr>auto_cfg_reg := a\<rparr>) c"
  by (simp_all add: desel_def sel_def low_byte)

lemma cs_on_eq: "\<not> ctrl_cs d \<Longrightarrow> fl_cs_on (fsoc_bus b ch) d = Some (sel d (f_chip d))"
  unfolding fl_cs_on_def spi_access by (simp add: spi_wr_def sel_def SPI_REG_CTRL_MANUAL_CS_def SPI_REG_CTRL_def SPI_REG_DATA_def)

lemma ctrl_0:
  "writeb (fsoc_bus b ch) 0 (SPI_FCTRL_BASE + SPI_REG_CTRL) (sel d c) = Some (desel d (chip_off ch c))"
  "writeb (fsoc_bus b ch) 0 (SPI_FCTRL_BASE + SPI_REG_CTRL) (desel d c) = Some (desel d c)"
  unfolding spi_access using ctrl_cs_sel [of d c]
  by (simp_all add: spi_wr_def SPI_REG_CTRL_def SPI_REG_DATA_def) (simp_all add: sel_def desel_def low_byte)

lemma data_tx:
  "writeb (fsoc_bus b ch) v (SPI_FCTRL_BASE + SPI_REG_DATA) (sel d c) = Some (sel d (chip_tx ch v c))"
  "writeb (fsoc_bus b ch) v (SPI_FCTRL_BASE + SPI_REG_DATA) (desel d c) = Some (desel d c)"
  unfolding spi_access using ctrl_cs_sel [of d c] by (simp_all add: spi_wr_def) (simp add: sel_def)

lemma data_rx:
  "readb (fsoc_bus b ch) (SPI_FCTRL_BASE + SPI_REG_DATA) (sel d c) = Some (fst (chip_rx ch c), sel d (snd (chip_rx ch c)))"
  unfolding spi_access using ctrl_cs_sel(1) [of d c] by (simp add: spi_rd_def split_def Let_def) (simp add: sel_def)

lemmas spi_cmd = cs_on_eq ctrl_cs_sel desel_simps fl_cs_off_def ctrl_0 data_tx data_rx

text \<open>
  What the firmware relies on in a flash chip. \<open>st\<close> is \<open>None\<close> while a command is under way, and
  otherwise tells how often the chip will still report a write in progress and what is in the
  register with its quad mode bit. Every chip answers the identification command. A chip of
  Spansion or ISSI also answers the command that reads the register, reports a write in progress in
  bit 0 of its status, and has the quad mode bit set after it was written with write enable.
\<close>

type_synonym 'c chip_state = "'c \<Rightarrow> (nat \<times> u8) option"

definition answers_id :: "'c chip \<Rightarrow> 'c chip_state \<Rightarrow> u8 \<times> u8 \<times> u8 \<Rightarrow> bool" where
  "answers_id ch st ids \<longleftrightarrow> (\<forall>c r. st c = Some (0, r) \<longrightarrow>
     (let c1 = chip_tx ch SPI_CMD_RDID c; (v0, c2) = chip_rx ch c1; (v1, c3) = chip_rx ch c2; (v2, c4) = chip_rx ch c3
      in (v0, v1, v2) = ids \<and> st (chip_off ch c4) = Some (0, r)))"

definition answers_reg :: "'c chip \<Rightarrow> 'c chip_state \<Rightarrow> u8 \<Rightarrow> bool" where
  "answers_reg ch st cmd \<longleftrightarrow> (\<forall>c r. st c = Some (0, r) \<longrightarrow>
     (let (v, c') = chip_rx ch (chip_tx ch cmd c) in v = r \<and> st (chip_off ch c') = Some (0, r)))"

definition reports_wip :: "'c chip \<Rightarrow> 'c chip_state \<Rightarrow> bool" where
  "reports_wip ch st \<longleftrightarrow> (\<forall>c w r. st c = Some (w, r) \<longrightarrow>
     (let (v, c') = chip_rx ch (chip_tx ch SPI_CMD_RDSR c) in (v AND 1 \<noteq> 0) = (0 < w) \<and> st (chip_off ch c') = Some (w - 1, r)))"

definition takes_quad :: "'c chip \<Rightarrow> 'c chip_state \<Rightarrow> u8 list \<Rightarrow> u8 \<Rightarrow> bool" where
  "takes_quad ch st before q \<longleftrightarrow> (\<forall>c r. st c = Some (0, r) \<longrightarrow>
     (let c1 = chip_off ch (chip_tx ch SPI_CMD_WREN c); c2 = fold (chip_tx ch) (SPI_CMD_WWR # before @ [r OR q]) c1
      in \<exists>w r'. st (chip_off ch c2) = Some (w, r') \<and> r' AND q \<noteq> 0))"

definition flash_chip :: "'c chip \<Rightarrow> 'c chip_state \<Rightarrow> u8 \<times> u8 \<times> u8 \<Rightarrow> bool" where
  "flash_chip ch st ids \<longleftrightarrow> answers_id ch st ids \<and>
     (is_spansion ids \<longrightarrow> answers_reg ch st SPI_CMD_RDCR \<and> reports_wip ch st \<and> takes_quad ch st [0] 0x02) \<and>
     (is_issi ids \<longrightarrow> answers_reg ch st SPI_CMD_RDSR \<and> reports_wip ch st \<and> takes_quad ch st [] 0x40)"

lemma read_flash_id_eq:
  assumes "answers_id ch st ids" "\<not> ctrl_cs d" "st (f_chip d) = Some (0, r)"
  obtains c where "read_flash_id (fsoc_bus b ch) d = Some (ids, desel d c)" "st c = Some (0, r)"
proof -
  let ?c1 = "chip_tx ch SPI_CMD_RDID (f_chip d)"
  let ?c2 = "snd (chip_rx ch ?c1)" let ?c3 = "snd (chip_rx ch ?c2)" let ?c4 = "snd (chip_rx ch ?c3)"
  have id: "ids = (fst (chip_rx ch ?c1), fst (chip_rx ch ?c2), fst (chip_rx ch ?c3))" "st (chip_off ch ?c4) = Some (0, r)"
    using assms(1,3) by (auto simp: answers_id_def Let_def split_def)
  have "read_flash_id (fsoc_bus b ch) d = Some (ids, desel d (chip_off ch ?c4))"
    unfolding read_flash_id_def id(1) using assms(2) by (simp add: spi_cmd)
  with id(2) show ?thesis by (rule that [rotated])
qed

lemma wait_wip_eq:
  assumes "reports_wip ch st"
  shows "st c = Some (w, r) \<Longrightarrow> \<exists>c'. wait_wip (fsoc_bus b ch) (desel d c) = Some (desel d c') \<and> st c' = Some (0, r)"
proof (induction w arbitrary: c)
  case 0
  let ?x = "chip_rx ch (chip_tx ch SPI_CMD_RDSR c)"
  have "fst ?x AND 1 = 0" "st (chip_off ch (snd ?x)) = Some (0, r)"
    using assms 0 by (fastforce simp: reports_wip_def Let_def split_def)+
  then show ?case
    unfolding wait_wip_def
    by (intro exI [of _ "chip_off ch (snd ?x)"], subst poll_while.simps) (simp add: wait_wip_round_def spi_cmd)
next
  case (Suc w)
  let ?x = "chip_rx ch (chip_tx ch SPI_CMD_RDSR c)"
  have x: "fst ?x AND 1 \<noteq> 0" "st (chip_off ch (snd ?x)) = Some (w, r)"
    using assms Suc.prems by (fastforce simp: reports_wip_def Let_def split_def)+
  from Suc.IH [OF x(2)] x(1) show ?case
    unfolding wait_wip_def by (subst poll_while.simps) (simp add: wait_wip_round_def spi_cmd)
qed

section \<open>Identifying the flash\<close>

text \<open>What is printed about a flash, and how the automatic mode is configured for it.\<close>

definition id_fmt :: "fitem list" where
  "id_fmt = lits (cbytes ''  SPI FLASH ID: '') @ [hex_02, hex_02, hex_02]"

definition cf1_fmt :: "fitem list" where
  "cf1_fmt = lits (cbytes '' Cypress/Spansion (CF1='') @ [hex_02] @ lits (cbytes '')'')"

definition id_missing :: "u8 \<times> u8 \<times> u8 \<Rightarrow> bool" where
  "id_missing ids \<longleftrightarrow> (case ids of (id0, id1, id2) \<Rightarrow> id0 OR id1 OR id2 = 0 \<or> id0 AND id1 AND id2 = 0xff)"

definition spansion_text :: "u8 \<Rightarrow> u8 list" where
  "spansion_text r = num_text cf1_fmt [ucast r] @ opt_text (r AND 0x02 = 0) (cbytes ''  enabling QUAD'')"

definition issi_text :: "u8 \<Rightarrow> u8 list" where
  "issi_text r = cbytes '' ISSI'' @ opt_text (r AND 0x40 = 0) (cbytes '' [enabling quad]'')"

definition kind_text :: "u8 \<times> u8 \<times> u8 \<Rightarrow> u8 \<Rightarrow> u8 list" where
  "kind_text ids r =
     (if is_spansion ids then spansion_text r @ cbytes '' [quad IO mode]''
      else if is_micron ids then cbytes '' Micron [quad IO mode]''
      else if is_issi ids then issi_text r @ cbytes '' [quad IO mode]''
      else []) @ [13, 10]"

definition flash_text :: "u8 \<times> u8 \<times> u8 \<Rightarrow> u8 \<Rightarrow> u8 list" where
  "flash_text ids r = (case ids of (id0, id1, id2) \<Rightarrow> num_text id_fmt [ucast id0, ucast id1, ucast id2]) @
     opt_text (\<not> id_missing ids) (kind_text ids r)"

definition issi_autocfg :: u32 where
  "issi_autocfg = ucast SPI_CMD_QUAD_FREAD_4BA OR push_bit SPI_REG_AUTO_CFG_DUMMIES_SHIFT 0x07 OR
     SPI_REG_AUT_CFG_MODE_QUAD OR SPI_REG_AUTO_CFG_ADDR4 OR push_bit SPI_REG_AUTO_CFG_CSTOUT_SHIFT 0x20"

text \<open>The clock divider of the board is kept.\<close>

definition quad_cfg :: "u32 \<Rightarrow> 30 word \<Rightarrow> 30 word" where
  "quad_cfg autocfg cfg = ucast ((ucast cfg AND SPI_REG_AUTO_CFG_CKDIV_MASK) OR autocfg)"

definition flash_cfg :: "u8 \<times> u8 \<times> u8 \<Rightarrow> 30 word \<Rightarrow> 30 word" where
  "flash_cfg ids cfg =
     (if is_spansion ids \<or> is_micron ids then quad_cfg default_autocfg cfg
      else if is_issi ids then quad_cfg issi_autocfg cfg
      else cfg)"

definition quad_on :: "u8 \<times> u8 \<times> u8 \<Rightarrow> u8 \<Rightarrow> bool" where
  "quad_on ids r \<longleftrightarrow> (is_spansion ids \<longrightarrow> r AND 0x02 \<noteq> 0) \<and> (is_issi ids \<longrightarrow> r AND 0x40 \<noteq> 0)"

lemma flash_formats:
  "cbytes ''  SPI FLASH ID: %02x%02x%02x'' = fmt_bytes id_fmt" "list_all item_ok id_fmt" "args_num id_fmt [u, v, w]"
  "length (cbytes ''  SPI FLASH ID: %02x%02x%02x'') < 200"
  "cbytes '' Cypress/Spansion (CF1=%02x)'' = fmt_bytes cf1_fmt" "list_all item_ok cf1_fmt" "args_num cf1_fmt [u]"
  "length (cbytes '' Cypress/Spansion (CF1=%02x)'') < 200"
  by (simp_all add: id_fmt_def cf1_fmt_def cbytes_simps is_conv_def is_dig_def)

lemma flash_kinds:
  "is_spansion ids \<Longrightarrow> \<not> is_micron ids \<and> \<not> is_issi ids \<and> \<not> id_missing ids"
  "is_micron ids \<Longrightarrow> \<not> is_spansion ids \<and> \<not> is_issi ids \<and> \<not> id_missing ids"
  "is_issi ids \<Longrightarrow> \<not> is_spansion ids \<and> \<not> is_micron ids \<and> \<not> id_missing ids"
proof -
  have "bit (157 OR y) 0" "\<not> bit (157 AND y) 1" "bit (255 :: u8) 1" for y :: u8
    by (simp_all add: bit_or_iff bit_and_iff bit_numeral_rec)
  then have "157 OR y \<noteq> 0" "157 AND y \<noteq> 255" for y :: u8 by (force dest: arg_cong [where f = "\<lambda>w. bit w 0"] arg_cong [where f = "\<lambda>w. bit w 1"])+
  then show "is_spansion ids \<Longrightarrow> \<not> is_micron ids \<and> \<not> is_issi ids \<and> \<not> id_missing ids"
    "is_micron ids \<Longrightarrow> \<not> is_spansion ids \<and> \<not> is_issi ids \<and> \<not> id_missing ids"
    "is_issi ids \<Longrightarrow> \<not> is_spansion ids \<and> \<not> is_micron ids \<and> \<not> id_missing ids"
    by (auto simp: is_spansion_def is_micron_def is_issi_def id_missing_def split: prod.splits)
qed

lemma set_autocfg_eq: "set_autocfg (fsoc_bus b ch) cfg d = Some (d\<lparr>auto_cfg_reg := quad_cfg cfg (auto_cfg_reg d)\<rparr>)"
proof -
  have "ucast (ucast (auto_cfg_reg d) :: u64) = (ucast (auto_cfg_reg d) :: u32)" by (auto simp: bit_eq_iff bit_simps)
  moreover have "ucast (ucast (x :: u32) :: u64) = (ucast x :: 30 word)" for x by (auto simp: bit_eq_iff bit_simps)
  ultimately show ?thesis
    unfolding set_autocfg_def spi_access by (simp add: spi_rd_def spi_wr_def SPI_REG_AUTO_CFG_def SPI_REG_CTRL_def SPI_REG_DATA_def quad_cfg_def)
qed

text \<open>Setting the quad mode bit: write enable, the write and waiting until it is done.\<close>

lemma quad_write:
  assumes "reports_wip ch st" "takes_quad ch st before q" "st c = Some (0, r)"
  obtains c' r' where
    "wait_wip (fsoc_bus b ch) (desel d (chip_off ch (fold (chip_tx ch) (SPI_CMD_WWR # before @ [r OR q]) (chip_off ch (chip_tx ch SPI_CMD_WREN c))))) =
       Some (desel d c')" "st c' = Some (0, r')" "r' AND q \<noteq> 0"
proof -
  from assms(2,3) obtain w r' where
    "st (chip_off ch (fold (chip_tx ch) (SPI_CMD_WWR # before @ [r OR q]) (chip_off ch (chip_tx ch SPI_CMD_WREN c)))) = Some (w, r')"
    "r' AND q \<noteq> 0" unfolding takes_quad_def Let_def by blast
  with wait_wip_eq [OF assms(1)] that show ?thesis by blast
qed

lemma spansion_eq:
  assumes "answers_reg ch st SPI_CMD_RDCR" "reports_wip ch st" "takes_quad ch st [0] 0x02" "st c = Some (0, r)" "con_ok std (f_soc d)"
  obtains s c' r' where
    "check_spansion_quad_mode (fsoc_bus soc_bus ch) (uart_console std) (desel d c) = Some (desel (d\<lparr>f_soc := s\<rparr>) c')"
    "st c' = Some (0, r')" "r' AND 0x02 \<noteq> 0" "con_ok std s" "con_out s = con_out (f_soc d) @ spansion_text r" "soc_sys s = soc_sys (f_soc d)"
proof -
  let ?b = "fsoc_bus soc_bus ch" and ?cs = "uart_console std" and ?x = "chip_rx ch (chip_tx ch SPI_CMD_RDCR c)"
  have x: "fst ?x = r" "st (chip_off ch (snd ?x)) = Some (0, r)" using assms(1,4) by (auto simp: answers_reg_def Let_def split_def)
  let ?d1 = "desel d (chip_off ch (snd ?x))"
  have "con_ok std (f_soc ?d1)" using assms(5) by (simp add: desel_simps)
  from fs_num [OF this flash_formats(5-8), where ch = ch] obtain s where
    1: "printf_lit ?b ?cs (cbytes '' Cypress/Spansion (CF1=%02x)'') [ucast r] ?d1 = Some (desel (d\<lparr>f_soc := s\<rparr>) (chip_off ch (snd ?x)))"
      "con_ok std s" "con_out s = con_out (f_soc d) @ num_text cf1_fmt [ucast r]" "soc_sys s = soc_sys (f_soc d)"
    unfolding desel_simps by blast
  show ?thesis
  proof (cases "r AND 0x02 = 0")
    case False
    then have "check_spansion_quad_mode ?b ?cs (desel d c) = Some (desel (d\<lparr>f_soc := s\<rparr>) (chip_off ch (snd ?x)))"
      unfolding check_spansion_quad_mode_def by (simp add: spi_cmd x(1) 1(1))
    from that [OF this x(2) False 1(2)] 1(3,4) False show ?thesis by (simp add: spansion_text_def opt_text_def)
  next
    case True
    let ?d2 = "desel (d\<lparr>f_soc := s\<rparr>) (chip_off ch (snd ?x))"
    have "con_ok std (f_soc ?d2)" using 1(2) by (simp add: desel_simps)
    from fs_plain [OF this, where ch = ch and t = "cbytes ''  enabling QUAD''"] obtain s' where
      2: "printf_lit ?b ?cs (cbytes ''  enabling QUAD'') [] ?d2 = Some (desel (d\<lparr>f_soc := s'\<rparr>) (chip_off ch (snd ?x)))"
        "con_ok std s'" "con_out s' = con_out s @ cbytes ''  enabling QUAD''" "soc_sys s' = soc_sys s"
      by (auto simp: desel_simps cbytes_simps)
    from quad_write [OF assms(2,3) x(2)] obtain c' r' where
      3: "wait_wip ?b (desel (d\<lparr>f_soc := s'\<rparr>) (chip_off ch (fold (chip_tx ch) (SPI_CMD_WWR # [0] @ [r OR 0x02])
            (chip_off ch (chip_tx ch SPI_CMD_WREN (chip_off ch (snd ?x))))))) = Some (desel (d\<lparr>f_soc := s'\<rparr>) c')"
        "st c' = Some (0, r')" "r' AND 0x02 \<noteq> 0" by blast
    have "check_spansion_quad_mode ?b ?cs (desel d c) = Some (desel (d\<lparr>f_soc := s'\<rparr>) c')"
      unfolding check_spansion_quad_mode_def send_wren_def using True 3(1) by (simp add: spi_cmd x(1) 1(1) 2(1))
    from that [OF this 3(2,3) 2(2)] 1(3,4) 2(3,4) True show ?thesis by (simp add: spansion_text_def opt_text_def)
  qed
qed

lemma issi_eq:
  assumes "answers_reg ch st SPI_CMD_RDSR" "reports_wip ch st" "takes_quad ch st [] 0x40" "st c = Some (0, r)" "con_ok std (f_soc d)"
  obtains s c' r' where
    "check_enable_issi_quad (fsoc_bus soc_bus ch) (uart_console std) (desel d c) = Some (issi_autocfg, desel (d\<lparr>f_soc := s\<rparr>) c')"
    "st c' = Some (0, r')" "r' AND 0x40 \<noteq> 0" "con_ok std s"
    "con_out s = con_out (f_soc d) @ opt_text (r AND 0x40 = 0) (cbytes '' [enabling quad]'')" "soc_sys s = soc_sys (f_soc d)"
proof -
  let ?b = "fsoc_bus soc_bus ch" and ?cs = "uart_console std" and ?x = "chip_rx ch (chip_tx ch SPI_CMD_RDSR c)"
  have x: "fst ?x = r" "st (chip_off ch (snd ?x)) = Some (0, r)" using assms(1,4) by (auto simp: answers_reg_def Let_def split_def)
  let ?d1 = "desel d (chip_off ch (snd ?x))"
  show ?thesis
  proof (cases "r AND 0x40 = 0")
    case False
    then have "check_enable_issi_quad ?b ?cs (desel d c) = Some (issi_autocfg, desel (d\<lparr>f_soc := f_soc d\<rparr>) (chip_off ch (snd ?x)))"
      unfolding check_enable_issi_quad_def issi_autocfg_def by (simp add: spi_cmd x(1))
    from that [OF this x(2) False assms(5)] False show ?thesis by (simp add: opt_text_def)
  next
    case True
    have "con_ok std (f_soc ?d1)" using assms(5) by (simp add: desel_simps)
    from fs_plain [OF this, where ch = ch and t = "cbytes '' [enabling quad]''"] obtain s where
      2: "printf_lit ?b ?cs (cbytes '' [enabling quad]'') [] ?d1 = Some (desel (d\<lparr>f_soc := s\<rparr>) (chip_off ch (snd ?x)))"
        "con_ok std s" "con_out s = con_out (f_soc d) @ cbytes '' [enabling quad]''" "soc_sys s = soc_sys (f_soc d)"
      by (auto simp: desel_simps cbytes_simps)
    from quad_write [OF assms(2,3) x(2)] obtain c' r' where
      3: "wait_wip ?b (desel (d\<lparr>f_soc := s\<rparr>) (chip_off ch (fold (chip_tx ch) (SPI_CMD_WWR # [] @ [r OR 0x40])
            (chip_off ch (chip_tx ch SPI_CMD_WREN (chip_off ch (snd ?x))))))) = Some (desel (d\<lparr>f_soc := s\<rparr>) c')"
        "st c' = Some (0, r')" "r' AND 0x40 \<noteq> 0" by blast
    have "check_enable_issi_quad ?b ?cs (desel d c) = Some (issi_autocfg, desel (d\<lparr>f_soc := s\<rparr>) c')"
      unfolding check_enable_issi_quad_def send_wren_def issi_autocfg_def using True 3(1) by (simp add: spi_cmd x(1) 2(1))
    from that [OF this 3(2,3) 2(2)] 2(3,4) True show ?thesis by (simp add: opt_text_def)
  qed
qed

lemma check_flash_kind:
  assumes "flash_chip ch st ids" "st c = Some (0, r)" "con_ok std (f_soc d)"
  defines "b \<equiv> fsoc_bus soc_bus ch" and "cs \<equiv> uart_console std"
  obtains s c' r' d3 d4 where
    "(if is_spansion ids then check_spansion_quad_mode b cs (desel d c) else Some (desel d c)) = Some d3"
    "printf_if b cs (is_micron ids) (cbytes '' Micron'') d3 = Some d4"
    "(if is_issi ids then do { d5 \<leftarrow> printf_lit b cs (cbytes '' ISSI'') [] d4; check_enable_issi_quad b cs d5 }
      else Some (default_autocfg, d4)) = Some (if is_issi ids then issi_autocfg else default_autocfg, desel (d\<lparr>f_soc := s\<rparr>) c')"
    "st c' = Some (0, r')" "quad_on ids r'" "con_ok std s" "soc_sys s = soc_sys (f_soc d)"
    "con_out s = con_out (f_soc d) @ (if is_spansion ids then spansion_text r else if is_micron ids then cbytes '' Micron'' else if is_issi ids then issi_text r else [])"
proof -
  consider (S) "is_spansion ids" | (M) "is_micron ids" | (I) "is_issi ids" | (N) "\<not> is_spansion ids" "\<not> is_micron ids" "\<not> is_issi ids" by blast
  then show ?thesis
  proof cases
    case S
    then have n: "\<not> is_micron ids" "\<not> is_issi ids" using flash_kinds(1) by blast+
    from S assms(1) have "answers_reg ch st SPI_CMD_RDCR" "reports_wip ch st" "takes_quad ch st [0] 0x02" by (simp_all add: flash_chip_def)
    from spansion_eq [OF this assms(2,3)] obtain s c' r' where
      "check_spansion_quad_mode b cs (desel d c) = Some (desel (d\<lparr>f_soc := s\<rparr>) c')" "st c' = Some (0, r')" "r' AND 0x02 \<noteq> 0" "con_ok std s"
      "con_out s = con_out (f_soc d) @ spansion_text r" "soc_sys s = soc_sys (f_soc d)" unfolding b_def cs_def by blast
    with that [of "desel (d\<lparr>f_soc := s\<rparr>) c'" "desel (d\<lparr>f_soc := s\<rparr>) c'" s c' r'] S n show ?thesis by (simp add: printf_if_def quad_on_def)
  next
    case M
    then have n: "\<not> is_spansion ids" "\<not> is_issi ids" using flash_kinds(2) by blast+
    have "con_ok std (f_soc (desel d c))" using assms(3) by (simp add: desel_simps)
    from fs_plain [OF this, where ch = ch and t = "cbytes '' Micron''"] obtain s where
      "printf_lit b cs (cbytes '' Micron'') [] (desel d c) = Some (desel (d\<lparr>f_soc := s\<rparr>) c)" "con_ok std s"
      "con_out s = con_out (f_soc d) @ cbytes '' Micron''" "soc_sys s = soc_sys (f_soc d)"
      unfolding b_def cs_def by (auto simp: desel_simps cbytes_simps)
    with that [of "desel d c" "desel (d\<lparr>f_soc := s\<rparr>) c" s c r] M n assms(2) show ?thesis by (simp add: printf_if_def quad_on_def)
  next
    case I
    then have n: "\<not> is_spansion ids" "\<not> is_micron ids" using flash_kinds(3) by blast+
    have "con_ok std (f_soc (desel d c))" using assms(3) by (simp add: desel_simps)
    from fs_plain [OF this, where ch = ch and t = "cbytes '' ISSI''"] obtain s where
      1: "printf_lit b cs (cbytes '' ISSI'') [] (desel d c) = Some (desel (d\<lparr>f_soc := s\<rparr>) c)" "con_ok std s"
      "con_out s = con_out (f_soc d) @ cbytes '' ISSI''" "soc_sys s = soc_sys (f_soc d)"
      unfolding b_def cs_def by (auto simp: desel_simps cbytes_simps)
    from I assms(1) have "answers_reg ch st SPI_CMD_RDSR" "reports_wip ch st" "takes_quad ch st [] 0x40" by (simp_all add: flash_chip_def)
    from issi_eq [OF this assms(2), of std "d\<lparr>f_soc := s\<rparr>"] 1(2) obtain s' c' r' where
      2: "check_enable_issi_quad b cs (desel (d\<lparr>f_soc := s\<rparr>) c) = Some (issi_autocfg, desel (d\<lparr>f_soc := s'\<rparr>) c')" "st c' = Some (0, r')"
        "r' AND 0x40 \<noteq> 0" "con_ok std s'" "con_out s' = con_out s @ opt_text (r AND 0x40 = 0) (cbytes '' [enabling quad]'')" "soc_sys s' = soc_sys s"
      unfolding b_def cs_def by auto
    with that [of "desel d c" "desel d c" s' c' r'] I n 1 show ?thesis by (simp add: printf_if_def quad_on_def issi_text_def)
  next
    case N
    with that [of "desel d c" "desel d c" "f_soc d" c r] assms(2,3) show ?thesis by (simp add: printf_if_def quad_on_def)
  qed
qed

lemma micron_text: "cbytes '' Micron [quad IO mode]'' = cbytes '' Micron'' @ cbytes '' [quad IO mode]''"
  by (simp add: cbytes_def)

definition is_quad :: "u8 \<times> u8 \<times> u8 \<Rightarrow> bool" where
  "is_quad ids \<longleftrightarrow> is_spansion ids \<or> is_micron ids \<or> is_issi ids"

lemma quad_step:
  assumes "con_ok std (f_soc d)"
  shows "\<exists>s. (if is_quad ids then do {
        d7 \<leftarrow> printf_lit (fsoc_bus soc_bus ch) (uart_console std) (cbytes '' [quad IO mode]'') [] (desel d c);
        set_autocfg (fsoc_bus soc_bus ch) (if is_issi ids then issi_autocfg else default_autocfg) d7 } else Some (desel d c)) =
      Some (desel (d\<lparr>f_soc := s, auto_cfg_reg := flash_cfg ids (auto_cfg_reg d)\<rparr>) c) \<and> con_ok std s \<and>
    con_out s = con_out (f_soc d) @ opt_text (is_quad ids) (cbytes '' [quad IO mode]'') \<and> soc_sys s = soc_sys (f_soc d)"
proof (cases "is_quad ids")
  case True
  have "con_ok std (f_soc (desel d c))" using assms by (simp add: desel_simps)
  from fs_plain [OF this, where ch = ch and t = "cbytes '' [quad IO mode]''"] obtain s where
    s: "printf_lit (fsoc_bus soc_bus ch) (uart_console std) (cbytes '' [quad IO mode]'') [] (desel d c) = Some (desel (d\<lparr>f_soc := s\<rparr>) c)"
      "con_ok std s" "con_out s = con_out (f_soc d) @ cbytes '' [quad IO mode]''" "soc_sys s = soc_sys (f_soc d)"
    by (auto simp: desel_simps cbytes_simps)
  have "(if is_issi ids then quad_cfg issi_autocfg else quad_cfg default_autocfg) (auto_cfg_reg d) = flash_cfg ids (auto_cfg_reg d)"
    using True flash_kinds(3) [of ids] by (auto simp: flash_cfg_def is_quad_def)
  then show ?thesis using True s by (intro exI [of _ s]) (auto simp: set_autocfg_eq desel_simps opt_text_def)
next
  case False
  then show ?thesis using assms by (intro exI [of _ "f_soc d"]) (simp add: opt_text_def flash_cfg_def is_quad_def)
qed

lemma check_flash_eq:
  assumes "flash_chip ch st ids" "\<not> ctrl_cs d" "st (f_chip d) = Some (0, r)" "con_ok std (f_soc d)"
  shows "\<exists>d' r'. check_flash (fsoc_bus soc_bus ch) (uart_console std) d = Some (\<not> id_missing ids, d') \<and>
    \<not> ctrl_cs d' \<and> st (f_chip d') = Some (0, r') \<and> quad_on ids r' \<and> con_ok std (f_soc d') \<and>
    con_out (f_soc d') = con_out (f_soc d) @ flash_text ids r \<and> soc_sys (f_soc d') = soc_sys (f_soc d) \<and>
    auto_cfg_reg d' = flash_cfg ids (auto_cfg_reg d)"
proof -
  let ?b = "fsoc_bus soc_bus ch" and ?cs = "uart_console std"
  obtain id0 id1 id2 where ids: "ids = (id0, id1, id2)" by (cases ids)
  have "answers_id ch st ids" using assms(1) by (simp add: flash_chip_def)
  from read_flash_id_eq [OF this assms(2,3), of soc_bus] obtain c where
    1: "read_flash_id ?b d = Some ((id0, id1, id2), desel d c)" "st c = Some (0, r)" unfolding ids by blast
  have "con_ok std (f_soc (desel d c))" using assms(4) by (simp add: desel_simps)
  from fs_num [OF this flash_formats(1-4), where ch = ch] obtain s where
    2: "printf_lit ?b ?cs (cbytes ''  SPI FLASH ID: %02x%02x%02x'') [ucast id0, ucast id1, ucast id2] (desel d c) = Some (desel (d\<lparr>f_soc := s\<rparr>) c)"
      "con_ok std s" "con_out s = con_out (f_soc d) @ num_text id_fmt [ucast id0, ucast id1, ucast id2]" "soc_sys s = soc_sys (f_soc d)"
    unfolding desel_simps by blast
  have miss: "id_missing ids \<longleftrightarrow> id0 OR id1 OR id2 = 0 \<or> id0 AND id1 AND id2 = 0xff" by (simp add: id_missing_def ids)
  show ?thesis
  proof (cases "id_missing ids")
    case True
    then have n: "\<not> is_spansion ids" "\<not> is_micron ids" "\<not> is_issi ids" using flash_kinds [of ids] by blast+
    have "check_flash ?b ?cs d = Some (False, desel (d\<lparr>f_soc := s\<rparr>) c)"
      unfolding check_flash_def 1(1) using True miss by (simp add: 2(1))
    then show ?thesis using True n 1(2) 2
      by (intro exI [of _ "desel (d\<lparr>f_soc := s\<rparr>) c"] exI [of _ r])
        (simp add: ctrl_cs_sel desel_simps flash_text_def opt_text_def ids flash_cfg_def quad_on_def)
  next
    case False
    then have m: "\<not> (id0 OR id1 OR id2 = 0 \<or> id0 AND id1 AND id2 = 0xff)" using miss by blast
    let ?d = "d\<lparr>f_soc := s\<rparr>" and ?cfg = "if is_issi ids then issi_autocfg else default_autocfg"
    have "con_ok std (f_soc ?d)" using 2(2) by simp
    then obtain s4 c' r' d3 d4 where
      3: "(if is_spansion ids then check_spansion_quad_mode ?b ?cs (desel ?d c) else Some (desel ?d c)) = Some d3"
        "printf_if ?b ?cs (is_micron ids) (cbytes '' Micron'') d3 = Some d4"
        "(if is_issi ids then do { d5 \<leftarrow> printf_lit ?b ?cs (cbytes '' ISSI'') [] d4; check_enable_issi_quad ?b ?cs d5 }
          else Some (default_autocfg, d4)) = Some (?cfg, desel (?d\<lparr>f_soc := s4\<rparr>) c')"
      and 4: "st c' = Some (0, r')" "quad_on ids r'" "con_ok std s4" "soc_sys s4 = soc_sys (f_soc ?d)"
        "con_out s4 = con_out (f_soc ?d) @ (if is_spansion ids then spansion_text r else if is_micron ids then cbytes '' Micron'' else if is_issi ids then issi_text r else [])"
      by (rule check_flash_kind [OF assms(1) 1(2)])
    have "?d\<lparr>f_soc := s4\<rparr> = d\<lparr>f_soc := s4\<rparr>" by simp
    note 3 = 3 [unfolded this]
    let ?e = "desel (d\<lparr>f_soc := s4\<rparr>) c'" and ?a = "flash_cfg ids (auto_cfg_reg d)"
    from quad_step [of std "d\<lparr>f_soc := s4\<rparr>" ids ch c'] 4(3) obtain s6 where
      6: "(if is_quad ids then do { d7 \<leftarrow> printf_lit ?b ?cs (cbytes '' [quad IO mode]'') [] ?e; set_autocfg ?b ?cfg d7 } else Some ?e) =
          Some (desel (d\<lparr>f_soc := s6, auto_cfg_reg := ?a\<rparr>) c')" "con_ok std s6"
        "con_out s6 = con_out s4 @ opt_text (is_quad ids) (cbytes '' [quad IO mode]'')" "soc_sys s6 = soc_sys s4" by auto
    let ?e6 = "desel (d\<lparr>f_soc := s6, auto_cfg_reg := ?a\<rparr>) c'"
    have "con_ok std (f_soc ?e6)" using 6(2) by (simp add: desel_simps)
    from fs_plain [OF this, where ch = ch and t = "[10]"] obtain s7 where
      7: "printf_lit ?b ?cs [10] [] ?e6 = Some (?e6\<lparr>f_soc := s7\<rparr>)" "con_ok std s7" "con_out s7 = con_out s6 @ [13, 10]" "soc_sys s7 = soc_sys s6"
      by (auto simp: desel_simps cbytes_simps)
    have "check_flash ?b ?cs d = Some (True, ?e6\<lparr>f_soc := s7\<rparr>)"
      unfolding check_flash_def 1(1) using m
      by (simp only: 2(1) 3 [unfolded ids] 6(1) [unfolded ids is_quad_def] 7(1) [unfolded ids] Option.bind.bind_lunit prod.case if_False ids)
    moreover have "flash_text ids r = num_text id_fmt [ucast id0, ucast id1, ucast id2] @ kind_text ids r"
      using False by (simp add: flash_text_def ids opt_text_def)
    then have "con_out s7 = con_out (f_soc d) @ flash_text ids r"
      using 2(3) 4(5) 6(3) 7(3) by (auto simp: kind_text_def opt_text_def is_quad_def micron_text)
    ultimately show ?thesis using False 2(4) 4(1,2,4) 6(4) 7(2,4)
      by (intro exI [of _ "?e6\<lparr>f_soc := s7\<rparr>"] exI [of _ r']) (simp add: ctrl_cs_sel desel_simps)
  qed
qed

section \<open>The machine the firmware runs on\<close>

text \<open>
  With a flash: the console is set up, and the chip is idle, with \<open>r\<close> in the register with its quad
  mode bit until it is identified. Without one nothing is asked of the chip.
\<close>

definition flash_ok :: "'c chip \<Rightarrow> 'c chip_state \<Rightarrow> u8 \<times> u8 \<times> u8 \<Rightarrow> u8 set \<Rightarrow> bool \<Rightarrow> (uart0, 'c) fsoc \<Rightarrow> bool" where
  "flash_ok ch st ids R std d \<longleftrightarrow>
     con_ok std (f_soc d) \<and> flash_chip ch st ids \<and> \<not> ctrl_cs d \<and> (\<exists>r\<in>R. st (f_chip d) = Some (0, r))"

definition no_flash_ok :: "bool \<Rightarrow> (uart0, 'c) fsoc \<Rightarrow> bool" where
  "no_flash_ok std d \<longleftrightarrow> con_ok std (f_soc d) \<and> \<not> HAS_SPI_FLASH (soc_sys (f_soc d))"

definition flash_start :: "'c chip \<Rightarrow> 'c chip_state \<Rightarrow> u8 \<times> u8 \<times> u8 \<Rightarrow> u8 \<Rightarrow> bool \<Rightarrow> (uart0, 'c) fsoc \<Rightarrow> bool" where
  "flash_start ch st ids r std d \<longleftrightarrow> uart_generated (f_soc d) \<and> std = UART0_IS_16550 (soc_sys (f_soc d)) \<and>
     flash_chip ch st ids \<and> \<not> ctrl_cs d \<and> st (f_chip d) = Some (0, r)"

definition no_flash_start :: "bool \<Rightarrow> (uart0, 'c) fsoc \<Rightarrow> bool" where
  "no_flash_start std d \<longleftrightarrow> uart_generated (f_soc d) \<and> std = UART0_IS_16550 (soc_sys (f_soc d)) \<and> \<not> HAS_SPI_FLASH (soc_sys (f_soc d))"

abbreviation fsoc_out :: "(uart0, 'c) fsoc \<Rightarrow> u8 list" where
  "fsoc_out \<equiv> \<lambda>d. con_out (f_soc d)"

abbreviation fsoc_sys :: "('u, 'c) fsoc \<Rightarrow> syscon" where
  "fsoc_sys \<equiv> \<lambda>d. soc_sys (f_soc d)"

lemma ctrl_cs_f_soc [simp]: "ctrl_cs (d\<lparr>f_soc := s\<rparr>) = ctrl_cs d"
  by (simp add: ctrl_cs_def)

lemma con_set_sys [simp]: "con_ok std (s\<lparr>soc_sys := y\<rparr>) = con_ok std s" "con_out (s\<lparr>soc_sys := y\<rparr>) = con_out s"
  by (simp_all add: con_ok_def con_out_def)

lemma syscon_write_flash [simp]: "HAS_SPI_FLASH (syscon_write r v s) = HAS_SPI_FLASH s"
  by (simp add: syscon_write_def Let_def)

lemma flash_io: "boot_io (fsoc_bus soc_bus ch) (uart_console std) fsoc_out fsoc_sys (flash_ok ch st ids R std)"
proof
  fix d :: "(uart0, 'a) fsoc"
  show "\<exists>d'. put_one (fsoc_bus soc_bus ch) (uart_console std) c d = Some d' \<and> flash_ok ch st ids R std d' \<and>
      fsoc_out d' = fsoc_out d @ [c] \<and> fsoc_sys d' = fsoc_sys d" if "flash_ok ch st ids R std d" for c
    using fs_put [of std d ch c] that by (auto simp: flash_ok_def)
  show "readq (fsoc_bus soc_bus ch) (SYSCON_BASE + off) d = Some (syscon_read (fsoc_sys d) off, d)" if "off \<in> syscon_offs" for off
    using that by (rule fs_syscon_rd)
  show "\<exists>d'. writeq (fsoc_bus soc_bus ch) v (SYSCON_BASE + SYS_REG_CTRL) d = Some d' \<and> flash_ok ch st ids R std d' \<and>
      fsoc_out d' = fsoc_out d \<and> fsoc_sys d' = syscon_write 0x2c (drop_bit 32 v) (syscon_write 0x28 (take_bit 32 v) (fsoc_sys d))"
    if "flash_ok ch st ids R std d" for v
    unfolding fs_syscon_wr using that by (simp add: flash_ok_def)
qed

interpretation fsoc: boot_machine "fsoc_bus soc_bus ch" "uart_console std" fsoc_out fsoc_sys "flash_ok ch st ids UNIV std"
  "flash_ok ch st ids {r} std" "flash_start ch st ids r std" "flash_text ids r" for ch std st ids r
proof (intro boot_machine.intro flash_io boot_machine_axioms.intro)
  fix d :: "(uart0, 'a) fsoc"
  show "\<exists>d'. console_init (fsoc_bus soc_bus ch) d = Some (uart_console std, d') \<and> flash_ok ch st ids {r} std d' \<and>
      fsoc_out d' = fsoc_out d \<and> fsoc_sys d' = fsoc_sys d" if "flash_start ch st ids r std d"
    using fs_init [of d ch] that by (auto simp: flash_start_def flash_ok_def)
  show "flash_ok ch st ids UNIV std d" if "flash_ok ch st ids {r} std d" using that by (simp add: flash_ok_def)
  show "\<exists>q d'. check_flash (fsoc_bus soc_bus ch) (uart_console std) d = Some (q, d') \<and> flash_ok ch st ids UNIV std d' \<and>
      fsoc_out d' = fsoc_out d @ flash_text ids r \<and> fsoc_sys d' = fsoc_sys d" if "flash_ok ch st ids {r} std d"
    using check_flash_eq [of ch st ids d r std] that unfolding flash_ok_def by blast
qed

lemma no_flash_io: "boot_io (fsoc_bus soc_bus ch) (uart_console std) fsoc_out fsoc_sys (no_flash_ok std)"
proof
  fix d :: "(uart0, 'a) fsoc"
  show "\<exists>d'. put_one (fsoc_bus soc_bus ch) (uart_console std) c d = Some d' \<and> no_flash_ok std d' \<and>
      fsoc_out d' = fsoc_out d @ [c] \<and> fsoc_sys d' = fsoc_sys d" if "no_flash_ok std d" for c
    using fs_put [of std d ch c] that by (auto simp: no_flash_ok_def)
  show "readq (fsoc_bus soc_bus ch) (SYSCON_BASE + off) d = Some (syscon_read (fsoc_sys d) off, d)" if "off \<in> syscon_offs" for off
    using that by (rule fs_syscon_rd)
  show "\<exists>d'. writeq (fsoc_bus soc_bus ch) v (SYSCON_BASE + SYS_REG_CTRL) d = Some d' \<and> no_flash_ok std d' \<and>
      fsoc_out d' = fsoc_out d \<and> fsoc_sys d' = syscon_write 0x2c (drop_bit 32 v) (syscon_write 0x28 (take_bit 32 v) (fsoc_sys d))"
    if "no_flash_ok std d" for v
    unfolding fs_syscon_wr using that by (simp add: no_flash_ok_def)
qed

interpretation bare: boot_machine "fsoc_bus soc_bus ch" "uart_console std" fsoc_out fsoc_sys "no_flash_ok std" "no_flash_ok std"
  "no_flash_start std" "[]" for ch std
proof (intro boot_machine.intro no_flash_io boot_machine_axioms.intro)
  fix d :: "(uart0, 'a) fsoc"
  show "\<exists>d'. console_init (fsoc_bus soc_bus ch) d = Some (uart_console std, d') \<and> no_flash_ok std d' \<and>
      fsoc_out d' = fsoc_out d \<and> fsoc_sys d' = fsoc_sys d" if "no_flash_start std d"
    using fs_init [of d ch] that by (auto simp: no_flash_start_def no_flash_ok_def)
qed (simp_all add: no_flash_ok_def)

end
