(* ===== verification/Boot_System.thy ===== *)
theory Boot_System
  imports Spi_Flash
begin

text \<open>
  The boot firmware on the simulated system on chip with an SPI flash controller: which of the
  three boot paths is taken, what reaches memory and what is printed.
\<close>

section \<open>The demonstration machine\<close>

text \<open>
  A chip that answers the identification command of a Micron flash; a Spansion chip with its
  quad mode bit off, which reports a write in progress twice; and a complete DRAM.
\<close>

definition micron :: "u8 list chip" where
  "micron = \<lparr>chip_tx = (\<lambda>v c. [0x20, 0xba, 0x18]), chip_rx = (\<lambda>c. (hd c, tl c)), chip_off = (\<lambda>c. [])\<rparr>"

definition spansion :: "(u8 list \<times> u8 \<times> nat) chip" where
  "spansion = \<lparr>chip_tx = (\<lambda>v (l, r, w). (l @ [v], r, w)),
     chip_rx = (\<lambda>(l, r, w). (if l = [SPI_CMD_RDID] then 0x01 else if l = [SPI_CMD_RDID, 0] then 0x20 else if l = [SPI_CMD_RDID, 0, 0] then 0x18
       else if l = [SPI_CMD_RDCR] then r else if l = [SPI_CMD_RDSR] \<and> 0 < w then 1 else 0, (l @ [0], r, w))),
     chip_off = (\<lambda>(l, r, w). if length l = 3 \<and> hd l = SPI_CMD_WWR then ([], l ! 2, 2) else if l \<noteq> [] \<and> hd l = SPI_CMD_RDSR then ([], r, w - 1)
       else ([], r, w))\<rparr>"

definition spansion_st :: "(u8 list \<times> u8 \<times> nat) chip_state" where
  "spansion_st c = (case c of (l, r, w) \<Rightarrow> if l = [] then Some (w, r) else None)"

definition sdram_done :: "'d sdram" where
  "sdram_done = \<lparr>ddrctrl_init_done_read = (\<lambda>d. Some (1, d)), sdram_init = (\<lambda>cs d h. Some (d, h)), LITEX_GIT_SHA1 = [97]\<rparr>"

definition demo_boot :: "bool \<Rightarrow> bool \<Rightarrow> nat \<Rightarrow> 'c \<Rightarrow> (uart0, 'c) fsoc" where
  "demo_boot std fl bram c = \<lparr>f_soc = (demo_soc std [])\<lparr>soc_sys := (demo_syscon std)\<lparr>BRAM_SIZE := bram, HAS_DRAM := True, HAS_SPI_FLASH := fl\<rparr>\<rparr>,
     ctrl_reg = 0x200, auto_cfg_reg = 0x20020003, f_chip = c\<rparr>"

lemma micron_ok: "flash_chip micron (\<lambda>_. Some (0, 0)) (0x20, 0xba, 0x18)"
  by (simp add: flash_chip_def answers_id_def micron_def is_spansion_def is_issi_def)

lemmas SPI_CMD_defs = SPI_CMD_RDID_def SPI_CMD_RDCR_def SPI_CMD_RDSR_def SPI_CMD_WREN_def SPI_CMD_WWR_def

lemma spansion_ok: "flash_chip spansion spansion_st (0x01, 0x20, 0x18)"
proof -
  have "(r OR 2) AND 2 \<noteq> 0" for r :: u8
  proof -
    have "bit ((r OR 2) AND 2) 1" by (simp add: bit_or_iff bit_and_iff bit_numeral_rec)
    then show ?thesis by auto
  qed
  then show ?thesis
    by (auto simp: flash_chip_def answers_id_def answers_reg_def reports_wip_def takes_quad_def is_issi_def spansion_def spansion_st_def
        SPI_CMD_defs split: prod.splits if_splits)
qed

lemma demo_boot_simps [simp]:
  "BRAM_SIZE (soc_sys (f_soc (demo_boot std fl bram c))) = bram" "HAS_DRAM (soc_sys (f_soc (demo_boot std fl bram c)))"
  "HAS_SPI_FLASH (soc_sys (f_soc (demo_boot std fl bram c))) = fl" "UART0_IS_16550 (soc_sys (f_soc (demo_boot std fl bram c))) = std"
  "SPI_FLASH_OFFSET (soc_sys (f_soc (demo_boot std fl bram c))) = 0" "f_chip (demo_boot std fl bram c) = c"
  "uart_generated (f_soc (demo_boot std fl bram c))" "\<not> ctrl_cs (demo_boot std fl bram c)"
proof -
  have "is_16550 (soc_uart (demo_soc std [])) = std" by (simp add: demo_soc_def)
  then show "uart_generated (f_soc (demo_boot std fl bram c))" by (simp add: uart_generated_def demo_boot_def demo_syscon_def)
qed (simp_all add: demo_boot_def demo_syscon_def ctrl_cs_def bit_numeral_rec)

lemma demo_start:
  "flash_start micron (\<lambda>_. Some (0, 0)) (0x20, 0xba, 0x18) 0 std (demo_boot std fl bram c)"
  "flash_start spansion spansion_st (0x01, 0x20, 0x18) r std (demo_boot std fl bram ([], r, 0))"
  "no_flash_start std (demo_boot std False bram c)"
  using micron_ok spansion_ok by (simp_all add: flash_start_def no_flash_start_def spansion_st_def)

lemma sdram_done_ok: "sdram_spec sdram_done cs ok out sys 1 [] id"
  by (simp add: sdram_spec_def sdram_done_def plain_def)

section \<open>Correctness\<close>

lemma boot_sys_ctrl: "\<not> bit (reg_ctrl (boot_sys s)) 3"
proof -
  have "\<not> bit (syscon_read s 0x28 AND NOT SYS_REG_CTRL_ALT_RESET) 3" by (simp add: SYS_REG_CTRL_ALT_RESET_def bit_simps)
  then show ?thesis
    unfolding boot_sys_def Let_def by (auto simp: syscon_write_def Let_def bit_simps)
qed

text \<open>
  C5. A machine without block memory, with either UART, whose flash answers to its identification (a chip
  of Spansion or ISSI also to the commands that read and set its quad mode bit) and holds a
  little-endian ppc64 ELF image with loadable program headers only, whose entry point is not
  the all-ones value the loader returns on failure, and whose segments lie outside of the flash and the local structures
  and are mapped: the firmware reports the machine, identifies the flash, and
  returns the entry point of the image after it has copied every segment, in order, to its
  address. Compared with the memory after the DRAM initialisation, nothing outside of the two
  local structures changes but the segments, and the alternative reset vector is off.
\<close>

theorem boot_from_flash:
  assumes "flash_start ch st ids r std d" "BRAM_SIZE (fsoc_sys d) = 0" "HAS_SPI_FLASH (fsoc_sys d)"
    and "sdram_spec sd (uart_console std) (flash_ok ch st ids UNIV std) fsoc_out fsoc_sys ready text mem"
    and "locals_ok (setup_mem ready mem (fsoc_sys d) h) l"
    and "elf_image (setup_mem ready mem (fsoc_sys d) h) l (flash_off (fsoc_sys d)) e segs" "e_entry e \<noteq> minus_1ul"
  shows "\<exists>d' h'. boot_main (fsoc_bus soc_bus ch) sd l d h = Some (e_entry e, d', h') \<and>
    (\<forall>a. a \<notin> local_space l \<longrightarrow> h' a = load_segs segs (setup_mem ready mem (fsoc_sys d) h) a) \<and>
    fsoc_out d' = fsoc_out d @ setup_text (flash_text ids r) (LITEX_GIT_SHA1 sd) ready text (fsoc_sys d) @ flash_boot_text e segs \<and>
    \<not> bit (reg_ctrl (fsoc_sys d')) 3"
proof -
  let ?h = "setup_mem ready mem (fsoc_sys d) h" and ?s = "fsoc_sys d" and ?b = "fsoc_bus soc_bus ch" and ?cs = "uart_console std"
  from fsoc.boot_setup [OF assms(1,4), of l h] obtain d1 where
    d1: "boot_main ?b sd l d h = boot_select ?b ?cs l (reg_info ?s) (HAS_SPI_FLASH ?s) (flash_off ?s) d1 ?h"
      "flash_ok ch st ids UNIV std d1" "fsoc_out d1 = fsoc_out d @ setup_text (flash_text ids r) (LITEX_GIT_SHA1 sd) ready text ?s"
      "fsoc_sys d1 = boot_sys ?s" by blast
  from fsoc.boot_flash_loads_io [OF assms(5,6) d1(2)] obtain d2 h2 where
    2: "boot_flash ?b ?cs l (flash_off ?s) d1 ?h = Some (e_entry e, d2, h2)" "fsoc_out d2 = fsoc_out d1 @ flash_boot_text e segs"
      "fsoc_sys d2 = fsoc_sys d1" "\<forall>a. a \<notin> local_space l \<longrightarrow> h2 a = load_segs segs ?h a" by blast
  have "\<not> reg_info ?s AND SYS_REG_INFO_HAS_BRAM \<noteq> 0" unfolding reg_info_bits using assms(2) by blast
  then have "boot_main ?b sd l d h = Some (e_entry e, d2, h2)"
    unfolding d1(1) boot_select_def using assms(3,7) by (simp add: 2(1))
  with 2(2-4) d1(3,4) boot_sys_ctrl [of ?s] show ?thesis by (intro exI [of _ d2] exI [of _ h2]) simp
qed

text \<open>An image with one segment of two bytes, and a memory that holds it.\<close>

definition demo_ehdr :: Elf64_Ehdr where
  "demo_ehdr = \<lparr>e_ident = [0x7f, 69, 76, 70, 2, 1, 1, 0, 0, 0, 0, 0, 0, 0, 0, 0], e_type = 2, e_machine = 21, e_version = 1,
     e_entry = 0x40000000, e_phoff = 64, e_shoff = 0, e_flags = 0, e_ehsize = 64, e_phentsize = 56, e_phnum = 1,
     e_shentsize = 0, e_shnum = 0, e_shstrndx = 0\<rparr>"

definition demo_phdr :: Elf64_Phdr where
  "demo_phdr = \<lparr>p_type = 1, p_flags = 5, p_offset = 120, p_vaddr = 0x40000000, p_paddr = 0, p_filesz = 2, p_memsz = 2, p_align = 8\<rparr>"

definition demo_locals :: locals where
  "demo_locals = \<lparr>ehdr_at = 0x1000, ph_at = 0x2000\<rparr>"

definition demo_image :: "u8 list" where
  "demo_image = Ehdr_bytes demo_ehdr @ Phdr_bytes demo_phdr @ [1, 2]"

definition demo_mem :: heap where
  "demo_mem = (\<lambda>a. if 0xf0000000 \<le> a \<and> a < 0xf000007a then Some (demo_image ! unat (a - 0xf0000000))
     else if a < 0x3000 \<or> 0x40000000 \<le> a \<and> a < 0x40000002 then Some 0 else None)"

lemma length_demo_ehdr: "length (e_ident demo_ehdr) = EI_NIDENT"
  by (simp add: demo_ehdr_def EI_NIDENT_def)

lemma length_demo_image: "length demo_image = 122"
  using length_Ehdr_bytes [OF length_demo_ehdr] by (simp add: demo_image_def SIZEOF_EHDR_def SIZEOF_PHDR_def)

lemma small_region: "a \<in> region p n \<Longrightarrow> unat p + n < addr_max \<Longrightarrow> unat p \<le> unat a \<and> unat a < unat p + n"
  by (auto simp: region_def unat_add_of_nat)

lemma demo_flash: "arr demo_mem 0xf0000000 demo_image"
proof -
  have "demo_mem (0xf0000000 + of_nat i) = Some (demo_image ! i)" if "i < 122" for i
  proof -
    have u: "unat (0xf0000000 + of_nat i :: u64) = 0xf0000000 + i" using that by (subst unat_add_of_nat) (simp_all add: addr_max_def)
    then have "0xf0000000 \<le> (0xf0000000 + of_nat i :: u64)" "(0xf0000000 + of_nat i :: u64) < 0xf000007a"
      using that by (simp_all add: word_le_nat_alt word_less_nat_alt)
    moreover have "unat (of_nat i :: u64) = i" using that by (simp add: unat_of_nat_addr addr_max_def)
    ultimately show ?thesis by (simp add: demo_mem_def)
  qed
  then show ?thesis by (simp add: arr_nth length_demo_image)
qed

lemma flash_addr_eq: "unat off < 0x10000000 \<Longrightarrow> flash_addr off = 0xf0000000 + ucast off"
proof -
  assume "unat off < 0x10000000"
  then have "unat ((0xf0000000 :: u32) + off) = 0xf0000000 + unat off" by (simp add: unat_word_ariths)
  moreover have "unat ((0xf0000000 :: u64) + ucast off) = 0xf0000000 + unat off"
    using \<open>unat off < 0x10000000\<close> by (simp add: unat_word_ariths unsigned_ucast_eq take_bit_nat_eq_self)
  ultimately show ?thesis using \<open>unat off < 0x10000000\<close>
    by (simp add: flash_addr_def SPI_FLASH_BASE_def word_unat_eq_iff unsigned_ucast_eq take_bit_nat_eq_self)
qed

lemma flash_region: "unat off + n \<le> 0x10000000 \<Longrightarrow> 0 < n \<Longrightarrow> region (flash_addr off) n \<subseteq> flash_space"
proof
  fix a assume n: "unat off + n \<le> 0x10000000" "0 < n" and a: "a \<in> region (flash_addr off) n"
  have u: "unat (flash_addr off) = 0xf0000000 + unat off"
    using n by (subst flash_addr_eq) (simp_all add: unat_word_ariths unsigned_ucast_eq take_bit_nat_eq_self)
  from small_region [OF a] n u show "a \<in> flash_space"
    by (simp add: flash_space_def word_le_nat_alt word_less_nat_alt addr_max_def)
qed

lemma demo_mem_mapped:
  "unat p + n \<le> 0x3000 \<or> 0x40000000 \<le> unat p \<and> unat p + n \<le> 0x40000002 \<Longrightarrow> mapped demo_mem p n"
proof -
  assume p: "unat p + n \<le> 0x3000 \<or> 0x40000000 \<le> unat p \<and> unat p + n \<le> 0x40000002"
  have "a \<in> dom demo_mem" if "a \<in> region p n" for a
    using small_region [OF that] p by (auto simp: demo_mem_def word_le_nat_alt word_less_nat_alt addr_max_def)
  then show ?thesis by (auto simp: mapped_def)
qed

lemma demo_disjoint:
  "local_space demo_locals \<inter> flash_space = {}" "region 0x1000 SIZEOF_EHDR \<inter> region 0x2000 SIZEOF_PHDR = {}"
  "region 0x40000000 2 \<inter> (flash_space \<union> local_space demo_locals) = {}"
proof -
  have 1: "0x1000 \<le> unat a \<and> unat a < 0x1040" if "a \<in> region 0x1000 SIZEOF_EHDR" for a
    using small_region [OF that] by (simp add: SIZEOF_EHDR_def addr_max_def)
  have 2: "0x2000 \<le> unat a \<and> unat a < 0x2038" if "a \<in> region 0x2000 SIZEOF_PHDR" for a
    using small_region [OF that] by (simp add: SIZEOF_PHDR_def addr_max_def)
  have 3: "0x40000000 \<le> unat a \<and> unat a < 0x40000002" if "a \<in> region 0x40000000 2" for a
    using small_region [OF that] by (simp add: addr_max_def)
  have 4: "0xf0000000 \<le> unat a" if "a \<in> flash_space" for a using that by (simp add: flash_space_def word_le_nat_alt)
  show "local_space demo_locals \<inter> flash_space = {}" "region 0x1000 SIZEOF_EHDR \<inter> region 0x2000 SIZEOF_PHDR = {}"
    "region 0x40000000 2 \<inter> (flash_space \<union> local_space demo_locals) = {}"
    using 1 2 3 4 by (fastforce simp: local_space_def demo_locals_def)+
qed

lemma demo_locals_ok: "locals_ok demo_mem demo_locals"
  using demo_disjoint demo_mem_mapped [of "0x1000" SIZEOF_EHDR] demo_mem_mapped [of "0x2000" SIZEOF_PHDR]
  by (simp add: locals_ok_def demo_locals_def SIZEOF_EHDR_def SIZEOF_PHDR_def del: mapped_numeral)

lemma demo_in_flash:
  "in_flash demo_mem 0 (Ehdr_bytes demo_ehdr)" "in_flash demo_mem 64 (Phdr_bytes demo_phdr)" "in_flash demo_mem 120 [1, 2]"
proof -
  have len: "length (Ehdr_bytes demo_ehdr) = 64" "length (Phdr_bytes demo_phdr) = 56"
    using length_Ehdr_bytes [OF length_demo_ehdr] by (simp_all add: SIZEOF_EHDR_def SIZEOF_PHDR_def)
  have a: "arr demo_mem 0xf0000000 (Ehdr_bytes demo_ehdr)" "arr demo_mem 0xf0000040 (Phdr_bytes demo_phdr)" "arr demo_mem 0xf0000078 [1, 2]"
    using demo_flash unfolding demo_image_def arr_append len by simp_all
  show "in_flash demo_mem 0 (Ehdr_bytes demo_ehdr)" "in_flash demo_mem 64 (Phdr_bytes demo_phdr)" "in_flash demo_mem 120 [1, 2]"
    unfolding in_flash_def len using a flash_region [of 0 64] flash_region [of 64 56]
    by (simp_all add: flash_addr_eq) (simp add: flash_space_def)
qed

lemma demo_elf: "elf_image demo_mem demo_locals 0 demo_ehdr [(demo_phdr, [1, 2])]"
proof -
  have f: "e_phoff demo_ehdr = 64" "e_phnum demo_ehdr = 1" "p_offset demo_phdr = 120" "p_vaddr demo_phdr = 0x40000000" "p_filesz demo_phdr = 2"
    "p_type demo_phdr = PT_LOAD" by (simp_all add: demo_ehdr_def demo_phdr_def PT_LOAD_def)
  have "seg_ok demo_mem demo_locals 0 (demo_phdr, [1, 2])"
    using demo_in_flash(3) demo_disjoint(3) [unfolded numeral_2_eq_2] demo_mem_mapped [of "0x40000000" "Suc (Suc 0)"]
    by (simp add: seg_ok_def f del: region_Suc)
  moreover have "IS_ELF demo_ehdr \<and> e_ident demo_ehdr ! EI_CLASS = ELFCLASS64 \<and> e_ident demo_ehdr ! EI_DATA = ELFDATA2LSB \<and>
      e_machine demo_ehdr = EM_PPC64"
    by (simp add: demo_ehdr_def IS_ELF_def EI_MAG0_def EI_MAG1_def EI_MAG2_def EI_MAG3_def EI_CLASS_def EI_DATA_def
        ELFMAG0_def ELFMAG1_def ELFMAG2_def ELFMAG3_def ELFCLASS64_def ELFDATA2LSB_def EM_PPC64_def)
  ultimately show ?thesis
    unfolding elf_image_def using demo_in_flash(1,2) length_demo_ehdr by (simp add: f)
qed

theorem boot_from_flash_witness:
  "\<exists>d' h'. boot_main (fsoc_bus soc_bus spansion) sdram_done demo_locals (demo_boot True True 0 ([], 0, 0)) demo_mem = Some (0x40000000, d', h') \<and>
     h' 0x40000000 = Some 1 \<and> h' 0x40000001 = Some 2"
proof -
  let ?d = "demo_boot True True 0 ([], 0 :: u8, 0 :: nat) :: (uart0, u8 list \<times> u8 \<times> nat) fsoc"
  have mem: "setup_mem 1 id (fsoc_sys ?d) demo_mem = demo_mem" "flash_off (fsoc_sys ?d) = 0"
    by (simp_all add: setup_mem_def flash_off_def)
  have ne: "e_entry demo_ehdr \<noteq> minus_1ul" and entry: "e_entry demo_ehdr = 0x40000000" by (simp_all add: demo_ehdr_def minus_1ul_def)
  have demo: "BRAM_SIZE (fsoc_sys ?d) = 0" "HAS_SPI_FLASH (fsoc_sys ?d)" by simp_all
  have im: "locals_ok (setup_mem 1 id (fsoc_sys ?d) demo_mem) demo_locals"
    "elf_image (setup_mem 1 id (fsoc_sys ?d) demo_mem) demo_locals (flash_off (fsoc_sys ?d)) demo_ehdr [(demo_phdr, [1, 2])]"
    unfolding mem by (rule demo_locals_ok demo_elf)+
  from boot_from_flash [OF demo_start(2) demo sdram_done_ok im ne] obtain d' h' where
    b: "boot_main (fsoc_bus soc_bus spansion) sdram_done demo_locals ?d demo_mem = Some (0x40000000, d', h')"
      "\<forall>a. a \<notin> local_space demo_locals \<longrightarrow> h' a = load_segs [(demo_phdr, [1, 2])] demo_mem a" unfolding mem entry by blast
  have "0x40000000 \<in> region 0x40000000 2" "0x40000001 \<in> region (0x40000000 :: u64) 2"
    by (simp_all add: region_iff addr_max_def)
  then have "0x40000000 \<notin> local_space demo_locals" "0x40000001 \<notin> local_space demo_locals" using demo_disjoint(3) by blast+
  with b show ?thesis by (simp add: upd_bytes_def demo_phdr_def)
qed


text \<open>A memory that is zero but for the payload, which is all sevens.\<close>

definition demo_payload :: heap where
  "demo_payload = (\<lambda>a. Some (if 0xff006000 \<le> a \<and> a < 0xff010000 then 7 else 0))"

lemma demo_payload_mapped: "mapped demo_payload p n"
  by (auto simp: mapped_def demo_payload_def)

lemma demo_payload_ok: "payload_ok demo_payload (replicate 0xa000 7)"
proof -
  have p: "demo_payload (DRAM_INIT_BASE + 0x6000 + of_nat i) = Some 7" if "i < 0xa000" for i
  proof -
    have "unat (0xff006000 + of_nat i :: u64) = 0xff006000 + i" using that by (subst unat_add_of_nat) (simp_all add: addr_max_def)
    then show ?thesis using that by (simp add: DRAM_INIT_BASE_def demo_payload_def word_le_nat_alt word_less_nat_alt)
  qed
  have a: "n \<le> 0xa000 \<Longrightarrow> arr demo_payload (DRAM_INIT_BASE + 0x6000) (replicate n 7)" for n
    using p by (simp add: arr_nth)
  show ?thesis unfolding payload_ok_def by (intro conjI length_replicate demo_payload_mapped a order_refl)
qed


text \<open>
  C20. Without a flash, with either UART and whatever is attached to the flash controller, the firmware
  boots from block memory where there is some, leaving memory as the DRAM initialisation left it, and
  otherwise from the payload, which it copies to the DRAM.
\<close>

theorem boot_without_flash:
  assumes "no_flash_start std d" "sdram_spec sd (uart_console std) (no_flash_ok std) fsoc_out fsoc_sys ready text mem"
    and "h1 = setup_mem ready mem (fsoc_sys d) h" "BRAM_SIZE (fsoc_sys d) = 0 \<longrightarrow> payload_ok h1 pl"
  shows "\<exists>d'. boot_main (fsoc_bus soc_bus ch) sd l d h =
      Some (0, d', if BRAM_SIZE (fsoc_sys d) = 0 then upd_bytes h1 DRAM_BASE pl else h1) \<and>
    fsoc_out d' = fsoc_out d @ setup_text [] (LITEX_GIT_SHA1 sd) ready text (fsoc_sys d) @
      (if BRAM_SIZE (fsoc_sys d) = 0 then payload_text else cbytes ''Booting from BRAM...'' @ [13, 10]) \<and>
    \<not> bit (reg_ctrl (fsoc_sys d')) 3"
proof -
  let ?s = "fsoc_sys d" and ?b = "fsoc_bus soc_bus ch" and ?cs = "uart_console std"
  have nf: "\<not> HAS_SPI_FLASH ?s" using assms(1) by (simp add: no_flash_start_def)
  from bare.boot_setup [OF assms(1,2), of ch l h, folded assms(3)] obtain d1 where
    d1: "boot_main ?b sd l d h = boot_select ?b ?cs l (reg_info ?s) (HAS_SPI_FLASH ?s) (flash_off ?s) d1 h1"
      "no_flash_ok std d1" "fsoc_out d1 = fsoc_out d @ setup_text [] (LITEX_GIT_SHA1 sd) ready text ?s" "fsoc_sys d1 = boot_sys ?s" by blast
  show ?thesis
  proof (cases "BRAM_SIZE ?s = 0")
    case True
    from bare.boot_sdram_io [OF d1(2)] assms(4) True obtain d2 where
      2: "boot_sdram ?b ?cs d1 h1 = Some (d2, upd_bytes h1 DRAM_BASE pl)" "fsoc_out d2 = fsoc_out d1 @ payload_text"
        "fsoc_sys d2 = fsoc_sys d1" by blast
    have "\<not> reg_info ?s AND SYS_REG_INFO_HAS_BRAM \<noteq> 0" unfolding reg_info_bits using True by blast
    then have "boot_main ?b sd l d h = Some (0, d2, upd_bytes h1 DRAM_BASE pl)"
      unfolding d1(1) boot_select_def using nf by (simp add: 2(1))
    then show ?thesis using True 2 d1 boot_sys_ctrl [of ?s] by simp
  next
    case False
    have "prints (no_flash_ok std) fsoc_out fsoc_sys (printf_lit ?b ?cs (cbytes ''Booting from BRAM...'' @ [10]) [])
        (\<lambda>_. crlf (cbytes ''Booting from BRAM...'' @ [10]))"
      by (rule bare.plain_prints) (simp_all add: cbytes_simps)
    from printsD [OF this d1(2)] obtain d2 where
      2: "printf_lit ?b ?cs (cbytes ''Booting from BRAM...'' @ [10]) [] d1 = Some d2"
        "fsoc_out d2 = fsoc_out d1 @ crlf (cbytes ''Booting from BRAM...'' @ [10])" "fsoc_sys d2 = fsoc_sys d1" by blast
    have "reg_info ?s AND SYS_REG_INFO_HAS_BRAM \<noteq> 0" unfolding reg_info_bits using False by blast
    then have "boot_main ?b sd l d h = Some (0, d2, h1)" unfolding d1(1) boot_select_def by (simp add: 2(1))
    moreover have "crlf (cbytes ''Booting from BRAM...'' @ [10]) = cbytes ''Booting from BRAM...'' @ [13, 10]" by (simp add: cbytes_simps)
    ultimately show ?thesis using False 2 d1 boot_sys_ctrl [of ?s] by simp
  qed
qed

theorem boot_without_flash_witness:
  "\<exists>d'. boot_main (fsoc_bus soc_bus micron) sdram_done demo_locals (demo_boot True False 0 []) demo_payload =
      Some (0, d', upd_bytes demo_payload DRAM_BASE (replicate 0xa000 7)) \<and> \<not> bit (reg_ctrl (fsoc_sys d')) 3"
proof -
  let ?d = "demo_boot True False 0 [] :: (uart0, u8 list) fsoc"
  have mem: "demo_payload = setup_mem 1 id (fsoc_sys ?d) demo_payload" by (simp add: setup_mem_def)
  have bram: "BRAM_SIZE (fsoc_sys ?d) = 0" by simp
  have pl: "BRAM_SIZE (fsoc_sys ?d) = 0 \<longrightarrow> payload_ok demo_payload (replicate 0xa000 7)" using demo_payload_ok by blast
  from boot_without_flash [OF demo_start(3) sdram_done_ok mem pl, of micron demo_locals, unfolded bram] show ?thesis
    by (simp only: simp_thms if_True) blast
qed

lemma autocfg_values: "default_autocfg = 0x20001f6b" "issi_autocfg = 0x20003f6c"
  by (simp_all add: default_autocfg_def issi_autocfg_def SPI_CMD_QUAD_FREAD_def SPI_CMD_QUAD_FREAD_4BA_def SPI_REG_AUTO_CFG_DUMMIES_SHIFT_def
      SPI_REG_AUT_CFG_MODE_QUAD_def SPI_REG_AUTO_CFG_CSTOUT_SHIFT_def SPI_REG_AUTO_CFG_ADDR4_def)

lemma quad_cfg_fields:
  fixes cfg :: "30 word" and a :: u32
  shows "take_bit 16 (quad_cfg a cfg) = take_bit 16 (ucast a)" "drop_bit 24 (quad_cfg a cfg) = drop_bit 24 (ucast a)"
    "take_bit 8 (drop_bit 16 (quad_cfg a cfg)) = take_bit 8 (drop_bit 16 cfg) OR take_bit 8 (drop_bit 16 (ucast a))"
proof -
  have m: "SPI_REG_AUTO_CFG_CKDIV_MASK = push_bit 16 (mask 8)"
    by (simp add: SPI_REG_AUTO_CFG_CKDIV_MASK_def SPI_REG_AUTO_CFG_CKDIV_SHIFT_def mask_numeral)
  have q: "quad_cfg a cfg = (cfg AND push_bit 16 (mask 8)) OR ucast a"
    unfolding quad_cfg_def m by (simp add: bit_eq_iff) (auto simp: bit_simps)
  show "take_bit 16 (quad_cfg a cfg) = take_bit 16 (ucast a)" "drop_bit 24 (quad_cfg a cfg) = drop_bit 24 (ucast a)"
    "take_bit 8 (drop_bit 16 (quad_cfg a cfg)) = take_bit 8 (drop_bit 16 cfg) OR take_bit 8 (drop_bit 16 (ucast a))"
    unfolding q by (rule bit_word_eqI; auto simp: bit_simps)+
qed

lemma flash_cfg_fields:
  "take_bit 16 (flash_cfg ids cfg) = (if is_issi ids then 0x3f6c else if is_quad ids then 0x1f6b else take_bit 16 cfg)"
  "drop_bit 24 (flash_cfg ids cfg) = (if is_quad ids then 0x20 else drop_bit 24 cfg)"
  "take_bit 8 (drop_bit 16 (flash_cfg ids cfg)) = take_bit 8 (drop_bit 16 cfg)"
proof -
  have "ucast (0x20001f6b :: u32) = (0x20001f6b :: 30 word)" "ucast (0x20003f6c :: u32) = (0x20003f6c :: 30 word)" by simp_all
  moreover have "take_bit 16 (0x20001f6b :: 30 word) = 0x1f6b" "take_bit 16 (0x20003f6c :: 30 word) = 0x3f6c"
    "drop_bit 24 (0x20001f6b :: 30 word) = 0x20" "drop_bit 24 (0x20003f6c :: 30 word) = 0x20"
    "take_bit 8 (drop_bit 16 (0x20001f6b :: 30 word)) = 0" "take_bit 8 (drop_bit 16 (0x20003f6c :: 30 word)) = 0"
    by (simp_all add: take_bit_eq_mod drop_bit_eq_div)
  ultimately show
    "take_bit 16 (flash_cfg ids cfg) = (if is_issi ids then 0x3f6c else if is_quad ids then 0x1f6b else take_bit 16 cfg)"
    "drop_bit 24 (flash_cfg ids cfg) = (if is_quad ids then 0x20 else drop_bit 24 cfg)"
    "take_bit 8 (drop_bit 16 (flash_cfg ids cfg)) = take_bit 8 (drop_bit 16 cfg)"
    using flash_kinds(3) [of ids] by (auto simp: flash_cfg_def is_quad_def quad_cfg_fields autocfg_values)
qed



text \<open>
  A program header that is not loadable stops the loop from making progress: \<open>continue\<close> skips the
  step to the next header, so the same header is read again until the count is used up, and
  the segments behind it are not loaded, although the boot is reported as successful.
\<close>

theorem phdr_loop_stuck:
  assumes "loading h0 l e h" "locals_ok h0 l" "length (e_ident e) = EI_NIDENT" "in_flash h0 poff (Phdr_bytes ph)" "p_type ph \<noteq> PT_LOAD"
    and "i + n = unat (e_phnum e)"
  shows "\<exists>h'. phdr_loop b cs l offset (of_nat i) poff d h = Some (d, h') \<and> (\<forall>a. a \<notin> local_space l \<longrightarrow> h' a = h a)"
  using assms(1,6)
proof (induction n arbitrary: i h)
  case 0
  have e: "load_ehdr h (ehdr_at l) = Some e" using "0.prems"(1) assms(3) by (intro load_ehdr_arr) (simp_all add: loading_def)
  have "unat (e_phnum e) < 2 ^ 16" using unsigned_less [of "e_phnum e", where ?'a = nat] by simp
  then have "\<not> (of_nat i :: u32) < ucast (e_phnum e)"
    using "0.prems"(2) by (simp add: word_less_nat_alt unsigned_of_nat unsigned_ucast_eq take_bit_nat_eq_self)
  then show ?case using e by (subst phdr_loop.simps) simp
next
  case (Suc n)
  have e: "load_ehdr h (ehdr_at l) = Some e" using Suc.prems(1) assms(3) by (intro load_ehdr_arr) (simp_all add: loading_def)
  have "unat (e_phnum e) < 2 ^ 16" using unsigned_less [of "e_phnum e", where ?'a = nat] by simp
  then have i: "(of_nat i :: u32) < ucast (e_phnum e)"
    using Suc.prems(2) by (simp add: word_less_nat_alt unsigned_of_nat unsigned_ucast_eq take_bit_nat_eq_self)
  have i1: "(of_nat i :: u32) + 1 = of_nat (i + 1)" by simp
  let ?h1 = "upd_bytes h (ph_at l) (Phdr_bytes ph)"
  note r = phdr_read [OF Suc.prems(1) assms(2-4)]
  have "phdr_loop b cs l offset (of_nat i) poff d h = phdr_loop b cs l offset (of_nat (i + 1)) poff d ?h1"
    by (subst phdr_loop.simps) (simp only: e i i1 r(1,2) assms(5) Option.bind.bind_lunit if_True if_False not_True_eq_False not_False_eq_True)
  moreover from Suc.IH [OF r(3), of "i + 1"] Suc.prems(2) obtain h' where
    "phdr_loop b cs l offset (of_nat (i + 1)) poff d ?h1 = Some (d, h')" "\<forall>a. a \<notin> local_space l \<longrightarrow> h' a = ?h1 a" by auto
  ultimately show ?case using r(4) by auto
qed

end
