(* ===== verification/Uart_Verilator.thy ===== *)
theory Uart_Verilator
  imports Sim_Console
begin

text \<open>
  \<^verbatim>\<open>verilator/uart-verilator.c\<close> and \<^verbatim>\<open>verilator/microwatt-verilator.cpp\<close>: the serial line of the
  Verilator simulation. \<open>uart_tx\<close> is called with the level of the transmit line in every
  clock and prints the bytes it decodes; \<open>uart_rx\<close> returns the level of the receive line in
  every clock, and sends what is typed. The statics of each direction are one record.

  The clock frequency is a macro set by the build, here the argument \<open>clk\<close>. The tolerance
  test of \<open>is_error\<close> is in floating point in the source, on the quotient of two integers far
  below $2^{48}$; it is given by the equivalent comparison of integers (a quotient that
  differs from $0.05$ or $0.95$ differs by at least one part in twenty bit widths, more than
  the rounding). The verilated design is not part of the sources: the record \<open>vtop\<close> is what
  the driver uses of it.
\<close>

section \<open>Transmit line\<close>

datatype uart_state = IDLE | START_BIT | BITS | STOP_BIT | ERROR

datatype uart_out = Written u8 | Error_msg uart_state nat u64

record utx =
  tx_state :: uart_state
  tx_countbits :: u64
  tx_bits :: u8
  tx_byte :: u8
  tx_prev :: u8
  tx_out :: "uart_out list"

definition utx_init :: utx where
  "utx_init = \<lparr>tx_state = IDLE, tx_countbits = 0, tx_bits = 0, tx_byte = 0, tx_prev = 0, tx_out = []\<rparr>"

definition BAUD :: nat where "BAUD = 115200"

definition BITWIDTH :: "nat \<Rightarrow> nat" where
  "BITWIDTH clk = (clk + BAUD div 2) div BAUD"

definition is_error :: "nat \<Rightarrow> u64 \<Rightarrow> bool" where
  "is_error clk bits \<longleftrightarrow>
     BITWIDTH clk \<noteq> 0 \<and> 20 * unat bits \<le> 19 * BITWIDTH clk \<and> BITWIDTH clk \<le> 20 * unat bits"

text \<open>The common end of the three error branches: a message, and two bit times of silence.\<close>

definition tx_fail :: "nat \<Rightarrow> uart_state \<Rightarrow> utx \<Rightarrow> utx" where
  "tx_fail clk st s = s\<lparr>tx_out := tx_out s @ [Error_msg st (BITWIDTH clk) (tx_countbits s)],
     tx_countbits := of_nat (BITWIDTH clk * 2), tx_state := ERROR\<rparr>"

definition tx_write :: "utx \<Rightarrow> utx" where
  "tx_write s = s\<lparr>tx_out := tx_out s @ [Written (tx_byte s)], tx_state := IDLE\<rparr>"

definition tx_idle :: "nat \<Rightarrow> u8 \<Rightarrow> utx \<Rightarrow> utx" where
  "tx_idle clk tx s =
     (if tx = 0 then s\<lparr>tx_state := START_BIT, tx_countbits := of_nat (BITWIDTH clk), tx_bits := 0, tx_byte := 0\<rparr> else s)"

definition tx_start :: "nat \<Rightarrow> u8 \<Rightarrow> utx \<Rightarrow> utx" where
  "tx_start clk tx s =
     (let s1 = s\<lparr>tx_countbits := tx_countbits s - 1\<rparr> in
      if tx = 1 \<and> is_error clk (tx_countbits s1) then tx_fail clk START_BIT s1
      else if tx_countbits s1 = 0 then s1\<lparr>tx_state := BITS, tx_countbits := of_nat (BITWIDTH clk)\<rparr>
      else s1)"

definition tx_data :: "nat \<Rightarrow> u8 \<Rightarrow> utx \<Rightarrow> utx" where
  "tx_data clk tx s =
     (let s1 = s\<lparr>tx_countbits := tx_countbits s - 1\<rparr>;
          s2 = (if tx_countbits s1 = of_nat (BITWIDTH clk div 2)
                then s1\<lparr>tx_byte := tx_byte s1 OR push_bit (unat (tx_bits s1)) tx, tx_bits := tx_bits s1 + 1\<rparr> else s1)
      in if tx \<noteq> tx_prev s2 \<and> is_error clk (tx_countbits s2) then tx_fail clk BITS s2
         else if tx_countbits s2 = 0 then
           (if tx_bits s2 = 8 then s2\<lparr>tx_state := STOP_BIT\<rparr> else s2)\<lparr>tx_countbits := of_nat (BITWIDTH clk)\<rparr>
         else s2)"

text \<open>There is no \<open>break\<close> after the byte has been written early.\<close>

definition tx_stop :: "nat \<Rightarrow> u8 \<Rightarrow> utx \<Rightarrow> utx" where
  "tx_stop clk tx s =
     (let s1 = s\<lparr>tx_countbits := tx_countbits s - 1\<rparr> in
      if tx = 0 \<and> is_error clk (tx_countbits s1) then tx_fail clk STOP_BIT s1
      else
        let s2 = (if tx = 0 then tx_write s1 else s1)
        in if tx_countbits s2 = 0 then tx_write s2 else s2)"

definition tx_error :: "utx \<Rightarrow> utx" where
  "tx_error s =
     (let s1 = s\<lparr>tx_countbits := tx_countbits s - 1\<rparr> in if tx_countbits s1 = 0 then s1\<lparr>tx_state := IDLE\<rparr> else s1)"

definition uart_tx :: "nat \<Rightarrow> u8 \<Rightarrow> utx \<Rightarrow> utx" where
  "uart_tx clk tx s =
     (case tx_state s of
        IDLE \<Rightarrow> tx_idle clk tx s
      | START_BIT \<Rightarrow> tx_start clk tx s
      | BITS \<Rightarrow> tx_data clk tx s
      | STOP_BIT \<Rightarrow> tx_stop clk tx s
      | ERROR \<Rightarrow> tx_error s)\<lparr>tx_prev := tx\<rparr>"

section \<open>Receive line\<close>

definition uart_disable_raw_mode :: "host \<Rightarrow> host" where
  "uart_disable_raw_mode s = s\<lparr>h_raw := False\<rparr>"

definition uart_enable_raw_mode :: "host \<Rightarrow> host" where
  "uart_enable_raw_mode s = (if \<not> h_initialized s then s\<lparr>h_raw := True, h_initialized := True\<rparr> else s)"

definition nonblocking_read :: "host \<Rightarrow> (u8 option \<times> host) sim" where
  "nonblocking_read s =
     (let s1 = uart_enable_raw_mode s;
          (ready, i) = host_poll (h_in s1)
      in if \<not> ready then ret (None, s1\<lparr>h_in := i\<rparr>)
         else case i of
             [] \<Rightarrow> sim_exit 1
           | (_, c) # rest \<Rightarrow> ret (Some c, s1\<lparr>h_in := rest\<rparr>))"

record urx =
  rx_state :: uart_state
  rx_char :: u8
  rx_countbits :: u64
  rx_bit :: u8
  rx :: u8
  rx_sometimes :: u64

definition urx_init :: urx where
  "urx_init = \<lparr>rx_state = IDLE, rx_char = 0, rx_countbits = 0, rx_bit = 0, rx = 1, rx_sometimes = 0\<rparr>"

definition RX_INTERVAL :: u64 where "RX_INTERVAL = 10000"

definition rx_idle :: "nat \<Rightarrow> urx \<times> host \<Rightarrow> (urx \<times> host) sim" where
  "rx_idle clk = (\<lambda>(s, w).
     let s1 = s\<lparr>rx_sometimes := rx_sometimes s + 1\<rparr> in
     if RX_INTERVAL \<le> rx_sometimes s then
       let s2 = s1\<lparr>rx_sometimes := 0\<rparr> in
       bindS (nonblocking_read w) (\<lambda>(r, w'). ret (case r of
           Some c \<Rightarrow> s2\<lparr>rx_state := START_BIT, rx_char := c, rx_countbits := of_nat (BITWIDTH clk), rx_bit := 0, rx := 0\<rparr>
         | None \<Rightarrow> s2, w'))
     else ret (s1, w))"

definition rx_step :: "nat \<Rightarrow> urx \<Rightarrow> urx" where
  "rx_step clk s =
     (let s1 = s\<lparr>rx_countbits := rx_countbits s - 1\<rparr> in
      if rx_countbits s1 \<noteq> 0 then s1
      else case rx_state s of
          START_BIT \<Rightarrow> s1\<lparr>rx_state := BITS, rx_countbits := of_nat (BITWIDTH clk), rx := rx_char s AND 1\<rparr>
        | BITS \<Rightarrow>
            let s2 = s1\<lparr>rx_bit := rx_bit s + 1\<rparr> in
            (if rx_bit s2 = 8 then s2\<lparr>rx := 1, rx_state := STOP_BIT\<rparr>
             else s2\<lparr>rx := drop_bit (unat (rx_bit s2)) (rx_char s) AND 1\<rparr>)\<lparr>rx_countbits := of_nat (BITWIDTH clk)\<rparr>
        | _ \<Rightarrow> s1\<lparr>rx_state := IDLE\<rparr>)"

definition uart_rx :: "nat \<Rightarrow> urx \<times> host \<Rightarrow> (u8 \<times> urx \<times> host) sim" where
  "uart_rx clk st =
     bindS (if rx_state (fst st) = IDLE then rx_idle clk st
            else if rx_state (fst st) = ERROR then ret st
            else ret (rx_step clk (fst st), snd st))
       (\<lambda>st'. ret (rx (fst st'), st'))"

section \<open>The simulation loop\<close>

text \<open>What the driver uses of the verilated design.\<close>

record 't vtop =
  v_eval :: "'t \<Rightarrow> 't"
  v_clk :: "bool \<Rightarrow> 't \<Rightarrow> 't"
  v_rst :: "bool \<Rightarrow> 't \<Rightarrow> 't"
  v_rxd :: "u8 \<Rightarrow> 't \<Rightarrow> 't"
  v_txd :: "'t \<Rightarrow> u8"
  v_finish :: "'t \<Rightarrow> bool"

definition tick :: "'t vtop \<Rightarrow> 't \<times> u64 \<Rightarrow> 't \<times> u64" where
  "tick v = (\<lambda>(tp, main_time).
     let tp1 = v_eval v (v_clk v True tp);
         main_time1 = main_time + 1;
         tp2 = v_eval v (v_clk v False tp1)
     in (tp2, main_time1 + 1))"

record 't verilator =
  vs_top :: "'t \<times> u64"
  vs_tx :: utx
  vs_rx :: "urx \<times> host"

definition verilator_round :: "'t vtop \<Rightarrow> nat \<Rightarrow> 't verilator \<Rightarrow> 't verilator sim" where
  "verilator_round v clk s =
     (let t1 = tick v (vs_top s);
          tx1 = uart_tx clk (v_txd v (fst t1)) (vs_tx s)
      in bindS (uart_rx clk (vs_rx s)) (\<lambda>(r, st).
           ret \<lparr>vs_top = (v_rxd v r (fst t1), snd t1), vs_tx = tx1, vs_rx = st\<rparr>))"

text \<open>At most \<open>n\<close> rounds of the loop: the number of rounds is decided by the design.\<close>

primrec verilator_loop :: "'t vtop \<Rightarrow> nat \<Rightarrow> nat \<Rightarrow> 't verilator \<Rightarrow> 't verilator sim" where
  "verilator_loop v clk 0 s = ret s"
| "verilator_loop v clk (Suc n) s =
     (if v_finish v (fst (vs_top s)) then ret s
      else bindS (verilator_round v clk s) (verilator_loop v clk n))"

definition verilator_main :: "'t vtop \<Rightarrow> nat \<Rightarrow> nat \<Rightarrow> 't \<Rightarrow> host \<Rightarrow> 't verilator sim" where
  "verilator_main v clk n tp w =
     (let (t, tm) = (tick v ^^ 5) (v_rst v False tp, 0)
      in verilator_loop v clk n \<lparr>vs_top = (v_rst v True t, tm), vs_tx = utx_init, vs_rx = (urx_init, w)\<rparr>)"

section \<open>Decoding a frame\<close>

text \<open>
  The receiver is followed clock by clock: \<open>tx_at\<close> is its state after sample \<open>t\<close> of a frame
  that carries \<open>c\<close>, where \<open>f\<close> is the line and \<open>W\<close> the bit width.
\<close>

definition nbits :: "nat \<Rightarrow> nat \<Rightarrow> nat" where
  "nbits W t = min 8 ((t + W div 2) div W - 1)"

definition tx_at :: "nat \<Rightarrow> (nat \<Rightarrow> u8) \<Rightarrow> u8 \<Rightarrow> nat \<Rightarrow> utx \<Rightarrow> utx" where
  "tx_at W f c t s = s\<lparr>tx_state := (if t < W then START_BIT else if t < 9 * W then BITS else STOP_BIT),
     tx_countbits := of_nat (W - t mod W), tx_bits := of_nat (nbits W t), tx_byte := take_bit (nbits W t) c, tx_prev := f t\<rparr>"

text \<open>
  What the line has to satisfy: the sample taken in each data bit is right, and the line
  changes only close to where bits begin and end. Sample \<open>e\<close> is the first after the stop bit.
\<close>

definition good_cb :: "nat \<Rightarrow> nat \<Rightarrow> bool" where
  "good_cb W n \<longleftrightarrow> 19 * W < 20 * n \<or> 20 * n < W"

definition left_at :: "nat \<Rightarrow> nat \<Rightarrow> nat" where
  "left_at W t = W - 1 - (t - 1) mod W"

definition tolerable :: "nat \<Rightarrow> (nat \<Rightarrow> u8) \<Rightarrow> u8 \<Rightarrow> nat \<Rightarrow> bool" where
  "tolerable W f c e \<longleftrightarrow> f 0 = 0 \<and>
     (\<forall>t \<in> {1..W}. f t = 1 \<longrightarrow> good_cb W (left_at W t)) \<and>
     (\<forall>t \<in> {W<..9 * W}. f t \<noteq> f (t - 1) \<longrightarrow> good_cb W (left_at W t)) \<and>
     (\<forall>k < 8. f ((k + 2) * W - W div 2) = of_bool (bit c k)) \<and>
     (\<forall>t \<in> {9 * W<..<e}. f t = 1)"

lemma of_nat_u64_eq: "a < 2 ^ 64 \<Longrightarrow> b < 2 ^ 64 \<Longrightarrow> (of_nat a :: u64) = of_nat b \<longleftrightarrow> a = b"
  by (metis unat_of_nat_addr addr_max_def)

lemma of_nat_dec: "0 < n \<Longrightarrow> (of_nat n :: u64) - 1 = of_nat (n - 1)"
  by (simp add: of_nat_diff)

lemma is_error_good:
  assumes "n < 2 ^ 64"
  shows "is_error clk (of_nat n) \<longleftrightarrow> BITWIDTH clk \<noteq> 0 \<and> \<not> good_cb (BITWIDTH clk) n"
proof -
  have "unat (of_nat n :: u64) = n" using assms by (simp add: unat_of_nat_addr addr_max_def)
  then show ?thesis by (auto simp: is_error_def good_cb_def)
qed

lemma left_at_Suc: "left_at W (Suc t) = W - t mod W - 1"
  by (simp add: left_at_def)

lemma next_left:
  assumes "0 < W"
  shows "W - Suc t mod W = (if W - t mod W - 1 = 0 then W else W - t mod W - 1)"
    "W - t mod W - 1 = 0 \<longleftrightarrow> Suc t mod W = 0"
proof -
  obtain r where r: "t mod W = r" "r < W" using assms by auto
  then show "W - Suc t mod W = (if W - t mod W - 1 = 0 then W else W - t mod W - 1)"
    "W - t mod W - 1 = 0 \<longleftrightarrow> Suc t mod W = 0"
    by (auto simp: mod_Suc)
qed

lemma nbits_mult: "0 < W \<Longrightarrow> nbits W (q * W) = min 8 (q - 1)"
  by (simp add: nbits_def div_mult_self3)

text \<open>One clock in each state, with \<open>n\<close> clocks of the bit left after it.\<close>

lemma uart_tx_start:
  assumes "tx_state s = START_BIT" "tx_countbits s = of_nat (Suc n)" "n < 2 ^ 64" "tx = 1 \<longrightarrow> good_cb (BITWIDTH clk) n"
  shows "uart_tx clk tx s = s\<lparr>tx_state := (if n = 0 then BITS else START_BIT),
    tx_countbits := of_nat (if n = 0 then BITWIDTH clk else n), tx_prev := tx\<rparr>"
  using assms of_nat_u64_eq [of n 0] by (auto simp: uart_tx_def tx_start_def is_error_good Let_def)

lemma uart_tx_bits:
  assumes "tx_state s = BITS" "tx_countbits s = of_nat (Suc n)" "n < 2 ^ 64" "tx \<noteq> tx_prev s \<longrightarrow> good_cb (BITWIDTH clk) n"
    "BITWIDTH clk < 2 ^ 64" "n = BITWIDTH clk div 2 \<longrightarrow> n \<noteq> 0"
  shows "uart_tx clk tx s =
    s\<lparr>tx_byte := (if n = BITWIDTH clk div 2 then tx_byte s OR push_bit (unat (tx_bits s)) tx else tx_byte s),
      tx_bits := (if n = BITWIDTH clk div 2 then tx_bits s + 1 else tx_bits s),
      tx_state := (if n = 0 \<and> tx_bits s = 8 then STOP_BIT else BITS),
      tx_countbits := of_nat (if n = 0 then BITWIDTH clk else n), tx_prev := tx\<rparr>"
proof -
  have "(of_nat n :: u64) = of_nat (BITWIDTH clk div 2) \<longleftrightarrow> n = BITWIDTH clk div 2" "(of_nat n :: u64) = 0 \<longleftrightarrow> n = 0"
    using of_nat_u64_eq [of n "BITWIDTH clk div 2"] of_nat_u64_eq [of n 0] assms(3,5) by auto
  with assms show ?thesis by (cases "n = BITWIDTH clk div 2") (auto simp: uart_tx_def tx_data_def is_error_good Let_def)
qed

lemma uart_tx_stop:
  assumes "tx_state s = STOP_BIT" "tx_countbits s = of_nat (Suc n)" "n < 2 ^ 64" "tx \<noteq> 0"
  shows "uart_tx clk tx s = s\<lparr>tx_countbits := of_nat n,
    tx_out := tx_out s @ (if n = 0 then [Written (tx_byte s)] else []),
    tx_state := (if n = 0 then IDLE else STOP_BIT), tx_prev := tx\<rparr>"
  using assms of_nat_u64_eq [of n 0] by (auto simp: uart_tx_def tx_stop_def tx_write_def Let_def)

lemma uart_tx_stop_early:
  assumes "tx_state s = STOP_BIT" "tx_countbits s = of_nat (Suc n)" "n < 2 ^ 64" "good_cb (BITWIDTH clk) n"
  shows "uart_tx clk 0 s = s\<lparr>tx_countbits := of_nat n,
    tx_out := tx_out s @ (if n = 0 then [Written (tx_byte s), Written (tx_byte s)] else [Written (tx_byte s)]),
    tx_state := IDLE, tx_prev := 0\<rparr>"
  using assms of_nat_u64_eq [of n 0] by (auto simp: uart_tx_def tx_stop_def tx_write_def is_error_good Let_def)

lemma nbits_start:
  assumes "t \<le> W" "2 \<le> W"
  shows "nbits W t = 0"
proof -
  have "(t + W div 2) div W < 2" using assms by (intro less_mult_imp_div_less) simp
  then show ?thesis by (simp add: nbits_def)
qed

lemma left_at_count: "0 < W \<Longrightarrow> W - t mod W = Suc (left_at W (Suc t))" "0 < W \<Longrightarrow> left_at W t < W"
  using mod_less_divisor [of W t] by (simp_all add: left_at_def Suc_diff_Suc)

lemma left_at_next: "0 < W \<Longrightarrow> (if left_at W (Suc t) = 0 then W else left_at W (Suc t)) = W - Suc t mod W"
  using next_left [of W t] by (simp add: left_at_Suc)

lemma left_at_zero: "0 < W \<Longrightarrow> left_at W (Suc t) = 0 \<longleftrightarrow> Suc t mod W = 0"
  using next_left [of W t] by (simp add: left_at_Suc)

lemma tx_at_simps:
  "tx_state (tx_at W f c t s) = (if t < W then START_BIT else if t < 9 * W then BITS else STOP_BIT)"
  "tx_bits (tx_at W f c t s) = of_nat (nbits W t)" "tx_byte (tx_at W f c t s) = take_bit (nbits W t) c"
  "tx_prev (tx_at W f c t s) = f t" "tx_out (tx_at W f c t s) = tx_out s"
  by (simp_all add: tx_at_def)

lemma tx_at_count: "0 < W \<Longrightarrow> tx_countbits (tx_at W f c t s) = of_nat (Suc (left_at W (Suc t)))"
  using left_at_count(1) [of W t] by (simp add: tx_at_def)

lemma tx_step_start:
  assumes W: "W = BITWIDTH clk" "2 \<le> W" "W < 2 ^ 64" and f: "tolerable W f c e" and t: "t < W"
  shows "uart_tx clk (f (Suc t)) (tx_at W f c t s) = tx_at W f c (Suc t) s"
proof -
  let ?n = "left_at W (Suc t)"
  have W0: "0 < W" using W(2) by simp
  have n: "?n < 2 ^ 64" using left_at_count(2) [OF W0] W(3) by (rule less_trans)
  have ok: "f (Suc t) = 1 \<longrightarrow> good_cb (BITWIDTH clk) ?n" using f t by (auto simp: tolerable_def W(1))
  have z: "?n = 0 \<longleftrightarrow> \<not> Suc t < W" using t W(2) by (auto simp: left_at_def)
  have "tx_state (tx_at W f c t s) = START_BIT" using t by (simp add: tx_at_simps)
  note uart_tx_start [OF this tx_at_count [OF W0] n ok]
  moreover have "nbits W t = 0" "nbits W (Suc t) = 0" using nbits_start [of _ W] t W(2) by simp_all
  ultimately show ?thesis
    using t W(2) unfolding W(1) [symmetric] left_at_next [OF W0] by (simp add: tx_at_def z)
qed

lemma nbits_step:
  assumes W: "2 \<le> W" and t: "W \<le> t" "t < 9 * W"
  shows "nbits W (Suc t) = (if left_at W (Suc t) = W div 2 then Suc (nbits W t) else nbits W t)"
    and "left_at W (Suc t) = W div 2 \<Longrightarrow> nbits W t < 8 \<and> (nbits W t + 2) * W - W div 2 = Suc t"
proof -
  obtain q r where qr: "t = q * W + r" "r < W" and r: "r = t mod W" 
    using W that [of "t div W" "t mod W"] by simp
  have q: "q < 9" using le_less_trans [of "q * W" t "9 * W"] t(2) qr(1) by simp
  have q1: "1 \<le> q" using t(1) qr by (cases q) auto
  let ?h = "W div 2"
  have h: "0 < ?h" "?h < W" "2 * ?h \<le> W" using W by auto
  have cnt: "(q * W + r' + ?h) div W = (if W \<le> r' + ?h then Suc q else q)" if "r' \<le> W" for r'
  proof -
    have "(q * W + r' + ?h) div W = q + (r' + ?h) div W" using W by (simp add: add.assoc)
    moreover have "(r' + ?h) div W = (if W \<le> r' + ?h then 1 else 0)" using that h by (auto simp: le_div_geq)
    ultimately show ?thesis by simp
  qed
  have left: "left_at W (Suc t) = ?h \<longleftrightarrow> Suc r + ?h = W" using qr(2) by (auto simp: left_at_def r [symmetric])
  show 1: "nbits W (Suc t) = (if left_at W (Suc t) = ?h then Suc (nbits W t) else nbits W t)"
    using cnt [of r] cnt [of "Suc r"] qr q q1 left h by (auto simp: nbits_def)
  show "left_at W (Suc t) = ?h \<Longrightarrow> nbits W t < 8 \<and> (nbits W t + 2) * W - ?h = Suc t"
    using cnt [of r] qr q q1 left h by (auto simp: nbits_def)
qed

lemma take_bit_Suc_or: "take_bit n c OR push_bit n (of_bool (bit c n)) = take_bit (Suc n) c" for c :: u8
  by (rule bit_word_eqI) (auto simp: bit_simps less_Suc_eq)

lemma nbits_stop: "0 < W \<Longrightarrow> 9 * W \<le> t \<Longrightarrow> nbits W t = 8"
  using div_le_mono [of "9 * W" "t + W div 2" W] by (simp add: nbits_def)

lemma tx_last_bit:
  assumes W: "2 \<le> W" and t: "W \<le> t" "t < 9 * W"
  shows "left_at W (Suc t) = 0 \<and> (of_nat (nbits W t) :: u8) = 8 \<longleftrightarrow> Suc t = 9 * W"
proof
  assume z: "left_at W (Suc t) = 0 \<and> (of_nat (nbits W t) :: u8) = 8"
  then obtain k where k: "Suc t = k * W" using left_at_zero [of W t] W by (auto simp: mod_eq_0_iff_dvd mult.commute elim: dvdE)
  have "nbits W t = nbits W (Suc t)" using nbits_step(1) [OF W t] z W by auto
  then have n: "nbits W t = min 8 (k - 1)" using nbits_mult [of W k] W k by simp
  have "nbits W t = unat (of_nat (nbits W t) :: u8)" by (simp add: n unat_of_nat take_bit_nat_eq_self)
  with z have "nbits W t = 8" by simp
  with n have "9 \<le> k" by (simp add: min_def split: if_splits)
  then have "9 * W \<le> k * W" by simp
  with t(2) k show "Suc t = 9 * W" by linarith
next
  assume e: "Suc t = 9 * W"
  then have "left_at W (Suc t) = 0" using left_at_zero [of W t] W by simp
  moreover have "W div 2 \<noteq> 0" using W by simp
  ultimately have "nbits W (Suc t) = nbits W t" using nbits_step(1) [OF W t] by metis
  with \<open>left_at W (Suc t) = 0\<close> show "left_at W (Suc t) = 0 \<and> (of_nat (nbits W t) :: u8) = 8"
    using e nbits_stop [of W "Suc t"] W by simp
qed

lemma tx_step_bits:
  assumes W: "W = BITWIDTH clk" "2 \<le> W" "W < 2 ^ 64" and f: "tolerable W f c e" and t: "W \<le> t" "t < 9 * W"
  shows "uart_tx clk (f (Suc t)) (tx_at W f c t s) = tx_at W f c (Suc t) s"
proof -
  let ?n = "left_at W (Suc t)" and ?b = "nbits W t"
  have W0: "0 < W" using W(2) by simp
  have n: "?n < 2 ^ 64" using left_at_count(2) [OF W0] W(3) by (rule less_trans)
  have ok: "f (Suc t) \<noteq> tx_prev (tx_at W f c t s) \<longrightarrow> good_cb (BITWIDTH clk) ?n"
    using f t by (auto simp: tolerable_def W(1) tx_at_simps)
  have st: "tx_state (tx_at W f c t s) = BITS" using t by (simp add: tx_at_simps)
  have W2: "?n = BITWIDTH clk div 2 \<longrightarrow> ?n \<noteq> 0" using W by simp
  have step: "nbits W (Suc t) = (if ?n = W div 2 then Suc ?b else ?b)" by (rule nbits_step [OF W(2) t])
  have byte: "take_bit ?b c OR push_bit (unat (of_nat ?b :: u8)) (f (Suc t)) = take_bit (Suc ?b) c" if "?n = W div 2"
    using nbits_step(2) [OF W(2) t that] f by (auto simp: tolerable_def take_bit_Suc_or unat_of_nat)
  have z: "?n = 0 \<and> (of_nat ?b :: u8) = 8 \<longleftrightarrow> \<not> Suc t < 9 * W"
    using tx_last_bit [OF W(2) t] t by auto
  show ?thesis
    unfolding uart_tx_bits [OF st tx_at_count [OF W0] n ok W(3) [unfolded W(1)] W2]
    unfolding W(1) [symmetric] left_at_next [OF W0] tx_at_simps z
    using byte step t by (cases "?n = W div 2") (simp_all add: tx_at_def)
qed

lemma tx_step_stop:
  assumes W: "W = BITWIDTH clk" "2 \<le> W" "W < 2 ^ 64" and f: "tolerable W f c e" and t: "9 * W \<le> t" "Suc t < e" "e \<le> 10 * W"
  shows "uart_tx clk (f (Suc t)) (tx_at W f c t s) = tx_at W f c (Suc t) s"
proof -
  let ?n = "left_at W (Suc t)"
  have W0: "0 < W" using W(2) by simp
  have n: "?n < 2 ^ 64" using left_at_count(2) [OF W0] W(3) by (rule less_trans)
  have st: "tx_state (tx_at W f c t s) = STOP_BIT" using t W0 by (simp add: tx_at_simps)
  have f1: "f (Suc t) \<noteq> 0" using f t by (simp add: tolerable_def)
  have z: "?n \<noteq> 0"
  proof
    assume "?n = 0"
    then obtain k where "Suc t = W * k" using left_at_zero [OF W0] by (auto simp: mod_eq_0_iff_dvd elim: dvdE)
    then have "W * 9 < W * k" "W * k < W * 10" using t by linarith+
    then show False by simp
  qed
  have b: "nbits W t = 8" "nbits W (Suc t) = 8" using nbits_stop [of W] W0 t by simp_all
  have "W - Suc t mod W = ?n" using z left_at_next [OF W0, of t] by simp
  with z t W0 uart_tx_stop [OF st tx_at_count [OF W0] n f1] show ?thesis by (simp add: tx_at_def b del: of_nat_diff)
qed

lemma tx_frame:
  assumes W: "W = BITWIDTH clk" "2 \<le> W" "W < 2 ^ 64" and f: "tolerable W f c e" and s: "tx_state s = IDLE"
    and e: "9 * W < e" "e \<le> 10 * W"
  shows "t < e \<Longrightarrow> fold (uart_tx clk) (map f [0..<Suc t]) s = tx_at W f c t s"
proof (induction t)
  case 0
  have "f 0 = 0" "nbits W 0 = 0" using f nbits_start [of 0 W] W(2) by (auto simp: tolerable_def)
  then show ?case using s W by (simp add: uart_tx_def tx_idle_def tx_at_def)
next
  case (Suc t)
  have "fold (uart_tx clk) (map f [0..<Suc (Suc t)]) s = uart_tx clk (f (Suc t)) (tx_at W f c t s)"
    using Suc by simp
  also have "\<dots> = tx_at W f c (Suc t) s"
    using tx_step_start [OF W f, of t] tx_step_bits [OF W f, of t] tx_step_stop [OF W f _ Suc.prems e(2)]
    by (cases "t < W"; cases "t < 9 * W") auto
  finally show ?case .
qed

lemma tx_frame_last:
  assumes W: "W = BITWIDTH clk" "2 \<le> W" "W < 2 ^ 64" and f: "tolerable W f c e" and s: "tx_state s = IDLE"
    and e: "9 * W < e" "e \<le> 10 * W"
  defines "s' \<equiv> fold (uart_tx clk) (map f [0..<e]) s"
  shows "tx_state s' = STOP_BIT" "tx_countbits s' = of_nat (Suc (10 * W - e))" "tx_byte s' = c" "tx_out s' = tx_out s"
proof -
  obtain t where t: "e = Suc t" "9 * W \<le> t" using e by (cases e) auto
  have s': "s' = tx_at W f c t s" using tx_frame [OF W f s e, of t] t by (simp add: s'_def)
  obtain r where r: "t = 9 * W + r" using t(2) by (auto simp: le_iff_add)
  have "r < W" using t(1) e r by simp
  then have "left_at W (Suc t) = 10 * W - e" by (simp add: left_at_def r t(1))
  moreover have "take_bit 8 c = c" by (rule bit_word_eqI) (auto simp: bit_simps dest: bit_imp_le_length)
  ultimately show "tx_state s' = STOP_BIT" "tx_countbits s' = of_nat (Suc (10 * W - e))" "tx_byte s' = c" "tx_out s' = tx_out s"
    using t W tx_at_count [of W f c t s] nbits_stop [of W t] by (simp_all add: s' tx_at_simps)
qed

section \<open>Frames\<close>

text \<open>
  The level of the line \<open>t\<close> clocks after a start bit begins, when every bit lasts \<open>B\<close> clocks:
  a start bit, eight data bits with the lowest first, and the stop bit, which is also the
  level of an idle line.
\<close>

definition lvl :: "nat \<Rightarrow> u8 \<Rightarrow> nat \<Rightarrow> u8" where
  "lvl B c t = (if t < B then 0 else if t < 9 * B then of_bool (bit c (t div B - 1)) else 1)"

definition frame :: "nat \<Rightarrow> u8 \<Rightarrow> u8 list" where
  "frame B c = map (lvl B c) [0..<10 * B]"

lemma lvl_change:
  assumes "lvl B c (Suc u) \<noteq> lvl B c u" "0 < B"
  obtains j where "Suc u = j * B" "1 \<le> j" "j \<le> 9"
proof -
  have le: "Suc u \<le> 9 * B" using assms(1) by (auto simp: lvl_def split: if_splits)
  have "B dvd Suc u"
  proof (rule ccontr)
    assume "\<not> B dvd Suc u"
    then have "Suc u div B = u div B" "Suc u \<noteq> B" "Suc u \<noteq> 9 * B" by (auto simp: div_Suc mod_eq_0_iff_dvd)
    with assms(1) show False by (auto simp: lvl_def split: if_splits)
  qed
  then obtain j where j: "Suc u = j * B" by (metis dvd_def mult.commute)
  with le assms(2) that [of j] show ?thesis by (cases j) auto
qed

lemma left_at_early:
  assumes "t + x = j * W" "x < W" "1 \<le> j"
  shows "left_at W t = x"
proof -
  obtain i where "j = Suc i" using assms(3) by (cases j) auto
  then have t: "t - 1 = i * W + (W - x - 1)" using assms by auto
  have "(t - 1) mod W = W - x - 1" unfolding t using assms(2) by (simp only: mod_mult_self3) simp
  then show ?thesis using assms by (simp add: left_at_def)
qed

lemma lvl_tolerable:
  assumes B: "B \<le> W" "20 * (10 * (W - B) + 1) < W" and d: "d \<le> 1" and e: "9 * W < e"
  shows "tolerable W (\<lambda>i. lvl B c (i + d)) c e"
proof -
  let ?f = "\<lambda>i. lvl B c (i + d)"
  obtain D where D: "W = B + D" "20 * (10 * D + 1) < W" using B by (metis diff_add_inverse le_iff_add)
  then have B0: "1 < B" by simp
  have near: "j * W - j * B + d \<le> 9 * D + 1" if "j \<le> 9" for j
  proof -
    have "j * W - j * B = j * D" by (simp add: D(1) add_mult_distrib2)
    with mult_le_mono1 [OF that, of D] d show ?thesis by linarith
  qed
  have 1: "\<forall>t \<in> {1..W}. ?f t = 1 \<longrightarrow> good_cb W (left_at W t)"
  proof (intro ballI impI)
    fix t assume t: "t \<in> {1..W}" and "?f t = 1"
    then have "B \<le> t + d" by (auto simp: lvl_def split: if_splits)
    moreover have "left_at W t = W - t" using t by (auto simp: left_at_def)
    ultimately show "good_cb W (left_at W t)" using d D by (auto simp: good_cb_def)
  qed
  have 2: "\<forall>t \<in> {W<..9 * W}. ?f t \<noteq> ?f (t - 1) \<longrightarrow> good_cb W (left_at W t)"
  proof (intro ballI impI)
    fix t assume t: "t \<in> {W<..9 * W}" and "?f t \<noteq> ?f (t - 1)"
    then have "lvl B c (Suc (t - 1 + d)) \<noteq> lvl B c (t - 1 + d)" by (cases t) auto
    then obtain j where j: "Suc (t - 1 + d) = j * B" "1 \<le> j" "j \<le> 9" using B0 by (elim lvl_change) auto
    have "t + d = j * B" "j * B \<le> j * W" using j(1) t mult_le_mono2 [OF B(1), of j] by (cases t; simp)+
    then have "t + (j * W - j * B + d) = j * W" by linarith
    then have "left_at W t = j * W - j * B + d" using near [OF j(3)] D j(2) by (intro left_at_early [of _ _ j]) auto
    then show "good_cb W (left_at W t)" using near [OF j(3)] D by (auto simp: good_cb_def)
  qed
  have 3: "\<forall>k < 8. ?f ((k + 2) * W - W div 2) = of_bool (bit c k)"
  proof (intro allI impI)
    fix k :: nat assume k: "k < 8"
    let ?u = "(k + 2) * W - W div 2 + d"
    have "(k + 2) * W - (k + 2) * B + d \<le> 9 * D + 1" using near [of "k + 2"] k by simp
    then have u: "(k + 1) * B \<le> ?u" "?u < (k + 2) * B" using D by (auto simp: algebra_simps)
    have "(k + 2) * B \<le> 9 * B" using k by (intro mult_le_mono1) simp
    with u(2) have "?u < 9 * B" by (rule less_le_trans)
    moreover have "\<not> ?u < B" using u(1) le_trans [of B "(k + 1) * B" ?u] by simp
    moreover have "?u div B = k + 1" using u by (intro div_nat_eqI) (simp_all add: mult.commute)
    ultimately show "?f ((k + 2) * W - W div 2) = of_bool (bit c k)" by (simp only: lvl_def if_False if_True add_diff_cancel_right')
  qed
  have "?f 0 = 0" "\<forall>t \<in> {9 * W<..<e}. ?f t = 1" using d B0 B(1) by (auto simp: lvl_def)
  with 1 2 3 show ?thesis by (auto simp: tolerable_def)
qed

section \<open>Streams of frames\<close>

lemma tx_idle_ones: "tx_state s = IDLE \<Longrightarrow>
  tx_state (fold (uart_tx clk) (replicate n 1) s) = IDLE \<and> tx_out (fold (uart_tx clk) (replicate n 1) s) = tx_out s"
  by (induction n arbitrary: s) (auto simp: uart_tx_def tx_idle_def)

lemma drop_frame_ones:
  assumes "10 * B \<le> n + d" "d \<le> 10 * B"
  shows "map (\<lambda>i. lvl B c (i + d)) [0..<n] = drop d (frame B c @ replicate (n + d - 10 * B) 1)"
  using assms by (intro nth_equalityI) (auto simp: frame_def nth_append lvl_def add.commute)

text \<open>A frame and an idle line long enough for the stop bit to be counted down.\<close>

lemma tx_frame_gap:
  fixes c :: u8
  assumes W: "W = BITWIDTH clk" "W < 2 ^ 64" and B: "B \<le> W" "20 * (10 * (W - B) + 1) < W" and d: "d \<le> 1"
    and s: "tx_state s = IDLE" and g: "10 * W + d < 10 * B + g"
  defines "s' \<equiv> fold (uart_tx clk) (drop d (frame B c @ replicate g 1)) s"
  shows "tx_state s' = IDLE \<and> tx_out s' = tx_out s @ [Written c]"
proof -
  let ?f = "\<lambda>i. lvl B c (i + d)" and ?n = "10 * B + g - d"
  have W2: "2 \<le> W" using B by simp
  have tol: "tolerable W ?f c (10 * W)" using lvl_tolerable [OF B d, of "10 * W"] W2 by simp
  note last = tx_frame_last [OF W(1) W2 W(2) tol s]
  let ?s = "fold (uart_tx clk) (map ?f [0..<10 * W]) s"
  have one: "?f i = 1" if "10 * W \<le> i" for i using that B(1) W2 by (simp add: lvl_def)
  have ones: "map ?f [10 * W..<?n] = replicate (Suc (?n - 10 * W - 1)) 1"
    using g by (intro nth_equalityI) (simp_all add: one del: replicate_Suc)
  have "drop d (frame B c @ replicate g 1) = map ?f [0..<?n]"
    using drop_frame_ones [of B ?n d c] g d B W2 by simp
  also have "\<dots> = map ?f [0..<10 * W] @ 1 # replicate (?n - 10 * W - 1) 1"
    using ones upt_add_eq_append [of 0 "10 * W" "?n - 10 * W"] g by simp
  finally have s': "s' = fold (uart_tx clk) (replicate (?n - 10 * W - 1) 1) (uart_tx clk 1 ?s)" by (simp add: s'_def)
  have "uart_tx clk 1 ?s = ?s\<lparr>tx_countbits := 0, tx_out := tx_out ?s @ [Written (tx_byte ?s)], tx_state := IDLE, tx_prev := 1\<rparr>"
    using last W2 by (subst uart_tx_stop [of _ 0]) simp_all
  with last W2 tx_idle_ones [of "uart_tx clk 1 ?s" clk "?n - 10 * W - 1"] show ?thesis by (simp add: s')
qed

text \<open>A frame that is followed early by the next start bit.\<close>

lemma tx_frame_early:
  fixes c :: u8
  assumes W: "W = BITWIDTH clk" "W < 2 ^ 64" and B: "B \<le> W" "20 * (10 * (W - B) + 1) < W" and d: "d \<le> 1"
    and s: "tx_state s = IDLE" and g: "10 * B + g < 10 * W"
  defines "s' \<equiv> fold (uart_tx clk) (drop d (frame B c @ replicate g 1) @ [0]) s"
  shows "tx_state s' = IDLE \<and> tx_out s' = tx_out s @ [Written c]"
proof -
  let ?f = "\<lambda>i. lvl B c (i + d)" and ?n = "10 * B + g - d"
  have W2: "2 \<le> W" using B by simp
  have e: "9 * W < ?n" "?n \<le> 10 * W" using B g d by simp_all
  have tol: "tolerable W ?f c ?n" using lvl_tolerable [OF B d e(1)] by simp
  note last = tx_frame_last [OF W(1) W2 W(2) tol s e]
  have "drop d (frame B c @ replicate g 1) = map ?f [0..<?n]"
    using drop_frame_ones [of B ?n d c] g d B W2 by simp
  then have s': "s' = uart_tx clk 0 (fold (uart_tx clk) (map ?f [0..<?n]) s)" by (simp add: s'_def)
  have "good_cb (BITWIDTH clk) (10 * W - ?n)" 
    unfolding good_cb_def W(1) [symmetric] using B g d by (intro disjI2) simp
  with last have "s' = (fold (uart_tx clk) (map ?f [0..<?n]) s)\<lparr>tx_countbits := of_nat (10 * W - ?n),
      tx_out := tx_out s @ [Written c], tx_state := IDLE, tx_prev := 0\<rparr>"
    using g d B W(2) by (subst s', subst uart_tx_stop_early [of _ "10 * W - ?n"]) auto
  then show ?thesis by simp
qed

text \<open>Frames with idle gaps: \<open>(c, g)\<close> is a byte and the number of idle clocks after its stop bit.\<close>

definition line :: "nat \<Rightarrow> (u8 \<times> nat) list \<Rightarrow> u8 list" where
  "line B fs = concat (map (\<lambda>(c, g). frame B c @ replicate g 1) fs)"

lemma line_Cons: "line B ((c, g) # fs) = frame B c @ replicate g 1 @ line B fs"
  by (simp add: line_def)

lemma tx_stream:
  assumes W: "W = BITWIDTH clk" "W < 2 ^ 64" and B: "B \<le> W" "20 * (10 * (W - B) + 1) < W"
  defines "run fs d s \<equiv> fold (uart_tx clk) (drop d (line B fs @ replicate W 1)) s"
  shows "\<forall>(c, g) \<in> set (butlast fs). 10 * B + g < 10 * W \<or> 10 * W + 1 < 10 * B + g \<Longrightarrow> tx_state s = IDLE \<Longrightarrow> d \<le> 1 \<Longrightarrow>
    (d = 1 \<longrightarrow> fs \<noteq> []) \<Longrightarrow> tx_state (run fs d s) = IDLE \<and> tx_out (run fs d s) = tx_out s @ map (\<lambda>(c, g). Written c) fs"
proof (induction fs arbitrary: s d)
  case Nil
  then show ?case using tx_idle_ones [of s clk W] by (cases d) (auto simp: run_def line_def)
next
  case (Cons f fs)
  obtain c g where f: "f = (c, g)" by fastforce
  have B0: "1 < B" using B by simp
  have drop: "drop d (frame B c @ xs @ ys) = drop d (frame B c @ xs) @ ys" for xs ys
    using Cons.prems(3) B0 by (simp add: frame_def)
  show ?case
  proof (cases fs)
    case Nil
    have "line B (f # fs) @ replicate W 1 = frame B c @ replicate (g + W) 1" by (simp add: f Nil line_def replicate_add)
    with tx_frame_gap [OF W B Cons.prems(3,2), of "g + W" c] B Cons.prems(3) show ?thesis by (simp add: run_def f Nil)
  next
    case (Cons f' fs')
    obtain c' g' where f': "f' = (c', g')" by fastforce
    have ok: "10 * B + g < 10 * W \<or> 10 * W + 1 < 10 * B + g"
      "\<forall>(c, g) \<in> set (butlast fs). 10 * B + g < 10 * W \<or> 10 * W + 1 < 10 * B + g"
      using Cons.prems(1) Cons by (auto simp: f)
    have stream: "drop d (line B (f # fs) @ replicate W 1) = drop d (frame B c @ replicate g 1) @ line B fs @ replicate W 1"
      by (simp only: f line_Cons append_assoc drop)
    show ?thesis
    proof (cases "10 * B + g < 10 * W")
      case True
      have "line B fs @ replicate W 1 = [0] @ drop 1 (line B fs @ replicate W 1)"
        using B0 by (simp add: Cons f' line_Cons frame_def lvl_def upt_conv_Cons)
      then have "run (f # fs) d s = run fs 1 (fold (uart_tx clk) (drop d (frame B c @ replicate g 1) @ [0]) s)"
        unfolding run_def stream by (metis append_assoc comp_apply fold_append)
      with tx_frame_early [OF W B Cons.prems(3,2) True, of c] Cons.IH [OF ok(2), of _ 1] show ?thesis by (simp add: Cons f)
    next
      case False
      with ok have "10 * W + d < 10 * B + g" using Cons.prems(3) by simp
      note gap = tx_frame_gap [OF W B Cons.prems(3,2) this, of c]
      have "run (f # fs) d s = run fs 0 (fold (uart_tx clk) (drop d (frame B c @ replicate g 1)) s)"
        unfolding run_def stream by (metis comp_apply fold_append drop_0)
      with gap Cons.IH [OF ok(2), of _ 0] show ?thesis by (simp add: f)
    qed
  qed
qed

section \<open>Sending\<close>

primrec uart_rx_run :: "nat \<Rightarrow> nat \<Rightarrow> urx \<times> host \<Rightarrow> (u8 list \<times> urx \<times> host) sim" where
  "uart_rx_run clk 0 st = ret ([], st)"
| "uart_rx_run clk (Suc n) st =
     bindS (uart_rx clk st) (\<lambda>(r, st'). bindS (uart_rx_run clk n st') (\<lambda>(rs, st''). ret (r # rs, st'')))"

definition rx_at :: "nat \<Rightarrow> u8 \<Rightarrow> nat \<Rightarrow> urx \<Rightarrow> urx" where
  "rx_at W c t s = s\<lparr>rx_state := (if t < W then START_BIT else if t < 9 * W then BITS else STOP_BIT), rx_char := c,
     rx_countbits := of_nat (W - t mod W), rx_bit := of_nat (min 8 (t div W - 1)), rx := lvl W c t\<rparr>"

lemma drop_bit_and_one: "drop_bit k c AND 1 = of_bool (bit c k)" for c :: u8
  by (rule bit_word_eqI) (auto simp: bit_simps)

lemma rx_step_count:
  assumes "rx_countbits s = of_nat (Suc n)" "n < 2 ^ 64" "n \<noteq> 0"
  shows "rx_step clk s = s\<lparr>rx_countbits := of_nat n\<rparr>"
  using assms of_nat_u64_eq [of n 0] by (simp add: rx_step_def Let_def)

lemma rx_at_step:
  assumes W: "W = BITWIDTH clk" "2 \<le> W" "W < 2 ^ 64" and t: "Suc t < 10 * W"
  shows "rx_step clk (rx_at W c t s) = rx_at W c (Suc t) s"
proof (cases "left_at W (Suc t) = 0")
  case False
  let ?n = "left_at W (Suc t)"
  have W0: "0 < W" using W(2) by simp
  have n: "?n < 2 ^ 64" using left_at_count(2) [OF W0] W(3) by (rule less_trans)
  have cnt: "rx_countbits (rx_at W c t s) = of_nat (Suc ?n)" using left_at_count(1) [OF W0, of t] by (simp add: rx_at_def)
  have m: "Suc t mod W \<noteq> 0" "W - Suc t mod W = ?n" using False left_at_zero [OF W0] left_at_next [OF W0, of t] by simp_all
  then have d: "Suc t div W = t div W" "Suc t \<noteq> W" "Suc t \<noteq> 9 * W" by (auto simp: div_Suc)
  then have "t < W \<longleftrightarrow> Suc t < W" "t < 9 * W \<longleftrightarrow> Suc t < 9 * W" by auto
  with rx_step_count [OF cnt n False] m d show ?thesis by (simp add: rx_at_def lvl_def del: of_nat_diff)
next
  case True
  have W0: "0 < W" using W(2) by simp
  obtain q where q: "Suc t = q * W" using True left_at_zero [OF W0, of t] by (metis mod_eq_0_iff_dvd dvd_def mult.commute)
  then have q10: "q < 10" "1 \<le> q" using t by (auto simp: Suc_le_eq intro: gr0I)
  have td: "t div W = q - 1"
    using q W0 q10 by (intro div_nat_eqI) (auto simp: mult.commute diff_mult_distrib2)
  have cnt: "rx_countbits (rx_at W c t s) = 1" using left_at_count(1) [OF W0, of t] True by (simp add: rx_at_def)
  have nine: "q = 1 \<or> q = 2 \<or> q = 3 \<or> q = 4 \<or> q = 5 \<or> q = 6 \<or> q = 7 \<or> q = 8 \<or> q = 9" using q10 by arith
  have st: "(t < W \<longleftrightarrow> q = 1) \<and> t < 9 * W \<and> \<not> Suc t < W \<and> (Suc t < 9 * W \<longleftrightarrow> q < 9)"
    using nine q W0 by (elim disjE) auto
  from nine show ?thesis
    using cnt td st W0
    by (elim disjE) (simp_all add: rx_step_def rx_at_def lvl_def q drop_bit_and_one drop_bit_and_one [of 0, simplified] bit_drop_bit_eq
        W(1) [symmetric])
qed

lemma uart_rx_run_append:
  "uart_rx_run clk m st = ret (xs, st') \<Longrightarrow> uart_rx_run clk n st' = ret (ys, st'') \<Longrightarrow>
   uart_rx_run clk (m + n) st = ret (xs @ ys, st'')"
proof (induction m arbitrary: st xs)
  case (Suc m)
  from Suc.prems(1) obtain r st1 zs where
    1: "uart_rx clk st = ret (r, st1)" "uart_rx_run clk m st1 = ret (zs, st')" "xs = r # zs"
    by (auto simp: bindS_def ret_def split: option.splits sum.splits)
  with Suc.IH [OF 1(2) Suc.prems(2)] show ?case by simp
qed (simp add: ret_def)

lemma uart_rx_run_1: "uart_rx_run clk 1 st = bindS (uart_rx clk st) (\<lambda>(r, st'). ret ([r], st'))"
  by simp

lemma rx_frame:
  assumes W: "W = BITWIDTH clk" "2 \<le> W" "W < 2 ^ 64"
  shows "t + n < 10 * W \<Longrightarrow>
    uart_rx_run clk n (rx_at W c t s, w) = ret (map (lvl W c) [Suc t..<Suc (t + n)], (rx_at W c (t + n) s, w))"
proof (induction n arbitrary: t)
  case (Suc n)
  have "uart_rx clk (rx_at W c t s, w) = ret (lvl W c (Suc t), (rx_at W c (Suc t) s, w))"
    using rx_at_step [OF W, of t c s] Suc.prems by (simp add: uart_rx_def) (simp add: rx_at_def)
  moreover have "[Suc t..<Suc (t + Suc n)] = Suc t # [Suc (Suc t)..<Suc (Suc t + n)]"
    by (subst upt_conv_Cons) simp_all
  ultimately show ?case using Suc.IH [of "Suc t"] Suc.prems by (simp del: upt_Suc)
qed simp

lemma rx_frame_end:
  assumes W: "W = BITWIDTH clk" "2 \<le> W"
  shows "uart_rx clk (rx_at W c (10 * W - 1) s, w) =
    ret (1, (rx_at W c (10 * W - 1) s)\<lparr>rx_countbits := 0, rx_state := IDLE\<rparr>, w)"
proof -
  have "left_at W (Suc (10 * W - 1)) = 0" using left_at_zero [of W "10 * W - 1"] W by simp
  then have "rx_countbits (rx_at W c (10 * W - 1) s) = 1" "rx_state (rx_at W c (10 * W - 1) s) = STOP_BIT" "lvl W c (10 * W - 1) = 1"
    using left_at_count(1) [of W "10 * W - 1"] W(2) by (auto simp: rx_at_def lvl_def)
  then show ?thesis by (simp add: uart_rx_def rx_step_def) (simp add: rx_at_def)
qed

lemma rx_wait_poll:
  assumes "rx_state s = IDLE" "rx s = 1"
  shows "j + k \<le> 10000 \<Longrightarrow> uart_rx_run clk k (s\<lparr>rx_sometimes := of_nat j\<rparr>, w) = ret (replicate k 1, (s\<lparr>rx_sometimes := of_nat (j + k)\<rparr>, w))"
proof (induction k arbitrary: j)
  case (Suc k)
  have "\<not> (10000 :: u64) \<le> of_nat j" using Suc.prems of_nat_le_addr [of 10000 j] by (simp add: addr_max_def)
  with Suc.IH [of "Suc j"] Suc.prems assms show ?case
    by (simp add: uart_rx_def rx_idle_def RX_INTERVAL_def add.commute)
qed simp

lemma rx_wait_byte:
  assumes "rx_state s = IDLE" "rx s = 1"
  shows "h_in w = (n, c) # rest \<Longrightarrow> \<exists>m w'. uart_rx_run clk m (s\<lparr>rx_sometimes := 0\<rparr>, w) =
    ret (replicate m 1, (s\<lparr>rx_sometimes := RX_INTERVAL\<rparr>, w')) \<and> h_in w' = (0, c) # rest"
proof (induction n arbitrary: w)
  case 0
  have "uart_rx_run clk 10000 (s\<lparr>rx_sometimes := 0\<rparr>, w) = ret (replicate 10000 1, (s\<lparr>rx_sometimes := RX_INTERVAL\<rparr>, w))"
    using rx_wait_poll [OF assms, of 0 10000 clk w] by (simp add: RX_INTERVAL_def)
  with 0 show ?case by blast
next
  case (Suc n)
  let ?w = "(uart_enable_raw_mode w)\<lparr>h_in := (n, c) # rest\<rparr>"
  have 1: "uart_rx_run clk 10000 (s\<lparr>rx_sometimes := 0\<rparr>, w) = ret (replicate 10000 1, (s\<lparr>rx_sometimes := RX_INTERVAL\<rparr>, w))"
    using rx_wait_poll [OF assms, of 0 10000 clk w] by (simp add: RX_INTERVAL_def)
  have 2: "uart_rx_run clk 1 (s\<lparr>rx_sometimes := RX_INTERVAL\<rparr>, w) = ret ([1], (s\<lparr>rx_sometimes := 0\<rparr>, ?w))"
    using assms Suc.prems by (simp add: uart_rx_def rx_idle_def nonblocking_read_def host_poll_def uart_enable_raw_mode_def)
  from Suc.IH [of ?w] obtain m w' where
    3: "uart_rx_run clk m (s\<lparr>rx_sometimes := 0\<rparr>, ?w) = ret (replicate m 1, (s\<lparr>rx_sometimes := RX_INTERVAL\<rparr>, w'))"
      "h_in w' = (0, c) # rest" by auto
  have rep: "replicate a x @ [x] @ replicate b x = replicate (a + (1 + b)) x" for a b and x :: u8
    by (induction a) auto
  from uart_rx_run_append [OF 1 uart_rx_run_append [OF 2 3(1)]]
  have "uart_rx_run clk (10000 + (1 + m)) (s\<lparr>rx_sometimes := 0\<rparr>, w) =
      ret (replicate (10000 + (1 + m)) 1, (s\<lparr>rx_sometimes := RX_INTERVAL\<rparr>, w'))"
    unfolding rep .
  with 3(2) show ?case by blast
qed

lemma rx_byte:
  assumes W: "W = BITWIDTH clk" "2 \<le> W" "W < 2 ^ 64" and s: "rx_state s = IDLE" "rx s = 1"
    and w: "h_in w = (n, c) # rest"
  shows "\<exists>m k s' w'. uart_rx_run clk m (s\<lparr>rx_sometimes := 0\<rparr>, w) =
    ret (replicate k 1 @ frame W c @ [1], (s'\<lparr>rx_sometimes := 0\<rparr>, w')) \<and> rx_state s' = IDLE \<and> rx s' = 1 \<and> h_in w' = rest"
proof -
  from rx_wait_byte [OF s w, of clk] obtain k w1 where
    1: "uart_rx_run clk k (s\<lparr>rx_sometimes := 0\<rparr>, w) = ret (replicate k 1, (s\<lparr>rx_sometimes := RX_INTERVAL\<rparr>, w1))"
      "h_in w1 = (0, c) # rest" by blast
  let ?w = "(uart_enable_raw_mode w1)\<lparr>h_in := rest\<rparr>" and ?s = "s\<lparr>rx_sometimes := 0\<rparr>"
  have 2: "uart_rx_run clk 1 (s\<lparr>rx_sometimes := RX_INTERVAL\<rparr>, w1) = ret ([0], (rx_at W c 0 ?s, ?w))"
    using s 1(2) W by (simp add: uart_rx_def rx_idle_def nonblocking_read_def host_poll_def uart_enable_raw_mode_def rx_at_def lvl_def)
  have 3: "uart_rx_run clk (10 * W - 1) (rx_at W c 0 ?s, ?w) = ret (map (lvl W c) [1..<10 * W], (rx_at W c (10 * W - 1) ?s, ?w))"
    using rx_frame [OF W, of 0 "10 * W - 1" c ?s ?w] W(2) by simp
  let ?s' = "(rx_at W c (10 * W - 1) ?s)\<lparr>rx_countbits := 0, rx_state := IDLE\<rparr>"
  have 4: "uart_rx_run clk 1 (rx_at W c (10 * W - 1) ?s, ?w) = ret ([1], (?s', ?w))"
    using rx_frame_end [OF W(1,2), of c ?s ?w] by simp
  have fr: "frame W c = [0] @ map (lvl W c) [1..<10 * W]" using W(2) by (simp add: frame_def upt_conv_Cons lvl_def)
  have "?s' = ?s'\<lparr>rx_sometimes := 0\<rparr>" "rx_state ?s' = IDLE" "rx ?s' = 1" using W(2) by (simp_all add: rx_at_def lvl_def)
  with uart_rx_run_append [OF 1(1) uart_rx_run_append [OF 2 uart_rx_run_append [OF 3 4]]] show ?thesis
    unfolding fr by (intro exI [of _ "k + (1 + (10 * W - 1 + 1))"] exI [of _ k] exI [of _ ?s'] exI [of _ ?w]) simp
qed

section \<open>Loopback\<close>

text \<open>A design that connects its serial output to its serial input.\<close>

definition wire :: "u8 vtop" where
  "wire = \<lparr>v_eval = \<lambda>l. l, v_clk = \<lambda>b l. l, v_rst = \<lambda>b l. l, v_rxd = \<lambda>r l. r, v_txd = \<lambda>l. l, v_finish = \<lambda>l. False\<rparr>"

lemma wire_loop:
  "uart_rx_run clk n st = ret (xs, st') \<Longrightarrow>
   \<exists>l' tm'. verilator_loop wire clk n \<lparr>vs_top = (l, tm), vs_tx = t, vs_rx = st\<rparr> =
     ret \<lparr>vs_top = (l', tm'), vs_tx = fold (uart_tx clk) (butlast (l # xs)) t, vs_rx = st'\<rparr>"
proof (induction n arbitrary: st xs l tm t)
  case (Suc n)
  from Suc.prems(1) obtain r st1 zs where
    1: "uart_rx clk st = ret (r, st1)" "uart_rx_run clk n st1 = ret (zs, st')" "xs = r # zs"
    by (auto simp: bindS_def ret_def split: option.splits sum.splits)
  from Suc.IH [OF 1(2), of r _ "uart_tx clk l t"] 1(1,3) show ?case
    by (simp add: verilator_round_def tick_def wire_def)
qed (simp add: ret_def)

lemma loopback_run:
  assumes W: "W = BITWIDTH clk" "20 < W" "W < 2 ^ 64"
  shows "rx_state s = IDLE \<Longrightarrow> rx s = 1 \<Longrightarrow> tx_state t = IDLE \<Longrightarrow>
    \<exists>m xs s' w'. uart_rx_run clk m (s\<lparr>rx_sometimes := 0\<rparr>, w) = ret (xs, (s'\<lparr>rx_sometimes := 0\<rparr>, w')) \<and>
      rx_state s' = IDLE \<and> rx s' = 1 \<and> h_in w' = [] \<and> tx_state (fold (uart_tx clk) xs t) = IDLE \<and>
      tx_out (fold (uart_tx clk) xs t) = tx_out t @ map (\<lambda>(n, c). Written c) (h_in w)"
proof (induction "h_in w" arbitrary: w s t)
  case Nil
  have "uart_rx_run clk 0 (s\<lparr>rx_sometimes := 0\<rparr>, w) = ret ([], (s\<lparr>rx_sometimes := 0\<rparr>, w))" by simp
  with Nil show ?case by (metis append_Nil2 fold_simps(1) list.simps(8))
next
  case (Cons i ins)
  obtain n c where i: "h_in w = (n, c) # ins" using Cons.hyps(2) by (metis surj_pair)
  have W2: "2 \<le> W" using W(2) by simp
  from rx_byte [OF W(1) W2 W(3) Cons.prems(1,2) i] obtain m k s1 w1 where
    1: "uart_rx_run clk m (s\<lparr>rx_sometimes := 0\<rparr>, w) = ret (replicate k 1 @ frame W c @ [1], (s1\<lparr>rx_sometimes := 0\<rparr>, w1))"
      "rx_state s1 = IDLE" "rx s1 = 1" "h_in w1 = ins" by blast
  let ?t = "fold (uart_tx clk) (replicate k 1) t"
  have t: "tx_state ?t = IDLE" "tx_out ?t = tx_out t" using tx_idle_ones [OF Cons.prems(3)] by simp_all
  let ?t' = "fold (uart_tx clk) (replicate k 1 @ frame W c @ [1]) t"
  have t': "tx_state ?t' = IDLE" "tx_out ?t' = tx_out t @ [Written c]"
    using tx_frame_gap [OF W(1,3) order_refl, of 0 ?t 1 c] t W(2) by simp_all
  from Cons.hyps(1) [of w1 s1 ?t'] 1 t' obtain m2 xs s' w' where
    2: "uart_rx_run clk m2 (s1\<lparr>rx_sometimes := 0\<rparr>, w1) = ret (xs, (s'\<lparr>rx_sometimes := 0\<rparr>, w'))"
      "rx_state s' = IDLE" "rx s' = 1" "h_in w' = []" "tx_state (fold (uart_tx clk) xs ?t') = IDLE"
      "tx_out (fold (uart_tx clk) xs ?t') = tx_out ?t' @ map (\<lambda>(n, c). Written c) ins" by auto
  let ?xs = "(replicate k 1 @ frame W c @ [1]) @ xs"
  have "tx_state (fold (uart_tx clk) ?xs t) = IDLE" "tx_out (fold (uart_tx clk) ?xs t) = tx_out t @ map (\<lambda>(n, c). Written c) (h_in w)"
    using 2(5,6) t'(2) i by simp_all
  with uart_rx_run_append [OF 1(1) 2(1)] 2(2-4) show ?case by blast
qed

section \<open>Reachable states\<close>

inductive tx_reach :: "nat \<Rightarrow> utx \<Rightarrow> bool" for clk where
  tx_reach_init: "tx_reach clk utx_init"
| tx_reach_step: "tx_reach clk s \<Longrightarrow> tx_reach clk (uart_tx clk tx s)"

definition tx_inv :: "nat \<Rightarrow> utx \<Rightarrow> bool" where
  "tx_inv W s \<longleftrightarrow>
     (let n = unat (tx_countbits s) in
      case tx_state s of
        IDLE \<Rightarrow> True
      | START_BIT \<Rightarrow> 0 < n \<and> n \<le> W \<and> tx_bits s = 0
      | BITS \<Rightarrow> 0 < n \<and> n \<le> W \<and> unat (tx_bits s) \<le> 8 \<and> (W div 2 < n \<longrightarrow> unat (tx_bits s) < 8)
      | STOP_BIT \<Rightarrow> 0 < n \<and> n \<le> W
      | ERROR \<Rightarrow> 0 < n \<and> n \<le> 2 * W)"

lemma unat_minus_1: "0 < unat x \<Longrightarrow> unat (x - 1) = unat x - 1" for x :: u64
  using unat_sub [of 1 x] by (simp add: word_le_nat_alt)

lemma unat_of_nat_W: "n < 2 ^ 64 \<Longrightarrow> unat (of_nat n :: u64) = n"
  by (simp add: unat_of_nat_addr addr_max_def)

lemma unat_inc_8: "unat x < 8 \<Longrightarrow> unat (x + 1) = Suc (unat x)" for x :: u8
  by (simp add: unat_word_ariths)

lemma unat_eq_8: "x = 8 \<longleftrightarrow> unat x = 8" for x :: u8
  using unsigned_word_eqI [of x 8, where ?'a = nat] by auto

lemma count_Suc:
  fixes x :: u64
  assumes "0 < unat x"
  obtains n where "unat x = Suc n" "x - 1 = of_nat n" "n < 2 ^ 64" "(of_nat n :: u64) = 0 \<longleftrightarrow> n = 0"
proof -
  obtain n where n: "unat x = Suc n" using assms by (cases "unat x") auto
  have l: "n < 2 ^ 64" using n unat_less_addr_max [of x] by (simp add: addr_max_def)
  have "unat (x - 1) = unat (of_nat n :: u64)" using unat_minus_1 [OF assms] n l by (simp add: unat_of_nat_W)
  then have "x - 1 = of_nat n" by (rule unsigned_word_eqI)
  moreover have "(of_nat n :: u64) = 0 \<longleftrightarrow> n = 0" using of_nat_u64_eq [of n 0] l by simp
  ultimately show ?thesis using that n l by blast
qed

lemma tx_inv_step:
  assumes W: "W = BITWIDTH clk" "2 \<le> W" "2 * W < 2 ^ 64" and s: "tx_inv W s"
  shows "tx_inv W (uart_tx clk tx s)"
proof (cases "tx_state s = IDLE")
  case True
  then show ?thesis using W by (simp add: uart_tx_def tx_idle_def tx_inv_def unat_of_nat_W)
next
  case False
  then have "0 < unat (tx_countbits s)" using s by (auto simp: tx_inv_def Let_def split: uart_state.splits)
  then obtain n where n: "unat (tx_countbits s) = Suc n" "tx_countbits s - 1 = of_nat n" "n < 2 ^ 64"
    "(of_nat n :: u64) = 0 \<longleftrightarrow> n = 0" by (rule count_Suc)
  have w: "unat (of_nat W :: u64) = W" "unat (of_nat W * 2 :: u64) = 2 * W" "unat (of_nat n :: u64) = n"
    using W n unat_of_nat_W [of W] unat_of_nat_W [of "W * 2"] unat_of_nat_W [of n] by simp_all
  have h: "(of_nat n :: u64) = of_nat (W div 2) \<longleftrightarrow> n = W div 2" using of_nat_u64_eq [of n "W div 2"] n W by simp
  note inv = tx_inv_def Let_def uart_tx_def tx_fail_def tx_write_def W(1) [symmetric] n w
  show ?thesis
  proof (cases "tx_state s")
    case START_BIT
    with s W(2,3) show ?thesis by (auto simp: inv tx_start_def)
  next
    case BITS
    have "unat (tx_bits s) \<le> 8" "W div 2 < Suc n \<longrightarrow> unat (tx_bits s) < 8" "Suc n \<le> W" using s BITS by (simp_all add: inv)
    moreover have "unat (of_nat (W div 2) :: u64) = W div 2" "(of_nat (W div 2) :: u64) \<noteq> 0" "(0 :: u64) \<noteq> of_nat (W div 2)"
      using W(2,3) unat_of_nat_W [of "W div 2"] of_nat_u64_eq [of "W div 2" 0] by auto
    ultimately show ?thesis using BITS W(2,3) unat_inc_8 [of "tx_bits s"]
      by (cases "n = W div 2"; cases "n = 0"; cases "tx \<noteq> tx_prev s \<and> is_error clk (of_nat n)")
        (simp_all add: inv tx_data_def h unat_eq_8)
  next
    case STOP_BIT
    with s W(2,3) show ?thesis by (auto simp: inv tx_stop_def)
  next
    case ERROR
    with s W(2,3) show ?thesis by (auto simp: inv tx_error_def)
  qed (use False in simp)
qed

lemma tx_reach_inv:
  assumes "2 \<le> BITWIDTH clk" "2 * BITWIDTH clk < 2 ^ 64"
  shows "tx_reach clk s \<Longrightarrow> tx_inv (BITWIDTH clk) s"
proof (induction rule: tx_reach.induct)
  case tx_reach_init
  then show ?case by (simp add: utx_init_def tx_inv_def)
qed (rule tx_inv_step [OF refl assms])

text \<open>On an idle line every clock brings the receiver closer to the idle state.\<close>

definition tx_rank :: "nat \<Rightarrow> utx \<Rightarrow> nat" where
  "tx_rank W s =
     (let n = unat (tx_countbits s) in
      case tx_state s of
        IDLE \<Rightarrow> 0
      | START_BIT \<Rightarrow> n + 11 * W
      | BITS \<Rightarrow> n + (8 - (unat (tx_bits s) + of_bool (W div 2 < n))) * W + 3 * W
      | STOP_BIT \<Rightarrow> n
      | ERROR \<Rightarrow> n)"

lemma tx_rank_step:
  assumes W: "W = BITWIDTH clk" "2 \<le> W" "2 * W < 2 ^ 64" and s: "tx_inv W s" "tx_state s \<noteq> IDLE"
  shows "tx_rank W (uart_tx clk 1 s) < tx_rank W s"
proof -
  have "0 < unat (tx_countbits s)" using s by (auto simp: tx_inv_def Let_def split: uart_state.splits)
  then obtain n where n: "unat (tx_countbits s) = Suc n" "tx_countbits s - 1 = of_nat n" "n < 2 ^ 64"
    "(of_nat n :: u64) = 0 \<longleftrightarrow> n = 0" by (rule count_Suc)
  have w: "unat (of_nat W :: u64) = W" "unat (of_nat W * 2 :: u64) = 2 * W" "unat (of_nat n :: u64) = n"
    using W n unat_of_nat_W [of W] unat_of_nat_W [of "W * 2"] unat_of_nat_W [of n] by simp_all
  have h: "(of_nat n :: u64) = of_nat (W div 2) \<longleftrightarrow> n = W div 2" using of_nat_u64_eq [of n "W div 2"] n W by simp
  note inv = tx_inv_def tx_rank_def Let_def uart_tx_def tx_fail_def tx_write_def W(1) [symmetric] n w
  show ?thesis
  proof (cases "tx_state s")
    case START_BIT
    with s W(2,3) show ?thesis by (auto simp: inv tx_start_def)
  next
    case BITS
    have b: "unat (tx_bits s) \<le> 8" "W div 2 < Suc n \<longrightarrow> unat (tx_bits s) < 8" "Suc n \<le> W" using s BITS by (simp_all add: inv)
    moreover have "unat (of_nat (W div 2) :: u64) = W div 2" "(of_nat (W div 2) :: u64) \<noteq> 0" "(0 :: u64) \<noteq> of_nat (W div 2)"
      using W(2,3) unat_of_nat_W [of "W div 2"] of_nat_u64_eq [of "W div 2" 0] by auto
    moreover have "unat (tx_bits s) \<noteq> 8 \<longrightarrow> (8 - unat (tx_bits s)) * W = W + (7 - unat (tx_bits s)) * W"
      using b(1) by (cases "unat (tx_bits s)") (auto simp: Suc_diff_Suc simp flip: mult_Suc)
    ultimately show ?thesis using BITS W(2,3) unat_inc_8 [of "tx_bits s"]
      by (cases "n = W div 2"; cases "n = 0"; cases "1 \<noteq> tx_prev s \<and> is_error clk (of_nat n)")
        (simp_all add: inv tx_data_def h unat_eq_8 div_eq_0_iff)
  next
    case STOP_BIT
    with s W(2,3) show ?thesis by (auto simp: inv tx_stop_def)
  next
    case ERROR
    with s W(2,3) show ?thesis by (auto simp: inv tx_error_def)
  qed (use s in simp)
qed

lemma tx_rank_bound:
  assumes "tx_inv W s"
  shows "tx_rank W s \<le> 12 * W"
proof (cases "tx_state s = BITS")
  case True
  let ?x = "8 - (unat (tx_bits s) + of_bool (W div 2 < unat (tx_countbits s)))"
  have "?x * W \<le> 8 * W" by (rule mult_le_mono1) simp
  moreover have "tx_rank W s = unat (tx_countbits s) + ?x * W + 3 * W" by (simp add: tx_rank_def True)
  moreover have "unat (tx_countbits s) \<le> W" using assms True by (simp add: tx_inv_def Let_def)
  ultimately show ?thesis by linarith
next
  case False
  with assms show ?thesis by (auto simp: tx_inv_def tx_rank_def Let_def split: uart_state.splits)
qed

section \<open>Correctness\<close>

text \<open>
  C14. With a design that connects the serial output to the serial input, the simulation
  prints exactly the bytes that are typed, in order, whenever they arrive.
\<close>

theorem uart_loopback:
  assumes "20 < BITWIDTH clk" "BITWIDTH clk < 2 ^ 64"
  shows "\<exists>n s. verilator_main wire clk n 1 w = ret s \<and> h_in (snd (vs_rx s)) = [] \<and>
    tx_out (vs_tx s) = map (\<lambda>(n, c). Written c) (h_in w)"
proof -
  let ?t = "uart_tx clk 1 utx_init"
  have t: "tx_state ?t = IDLE" "tx_out ?t = []" by (simp_all add: uart_tx_def tx_idle_def utx_init_def)
  have r: "urx_init = urx_init\<lparr>rx_sometimes := 0\<rparr>" "rx_state urx_init = IDLE" "rx urx_init = 1" by (simp_all add: urx_init_def)
  from loopback_run [OF refl assms r(2,3) t(1), of w] r(1) obtain m xs s w' where
    1: "uart_rx_run clk m (urx_init, w) = ret (xs, (s\<lparr>rx_sometimes := 0\<rparr>, w'))" "rx_state s = IDLE" "rx s = 1" "h_in w' = []"
      "tx_out (fold (uart_tx clk) xs ?t) = map (\<lambda>(n, c). Written c) (h_in w)" by (metis append_Nil t(2))
  have "uart_rx_run clk 1 (s\<lparr>rx_sometimes := 0\<rparr>, w') = ret ([1], (s\<lparr>rx_sometimes := 1\<rparr>, w'))"
    using 1(2,3) by (simp add: uart_rx_def rx_idle_def RX_INTERVAL_def)
  note run = uart_rx_run_append [OF 1(1) this]
  obtain tm where tick: "(tick wire ^^ 5) (1, 0) = (1, tm)" by (simp add: numeral_eq_Suc tick_def wire_def)
  from wire_loop [OF run, of 1 tm utx_init] obtain l' tm' where
    2: "verilator_loop wire clk (m + 1) \<lparr>vs_top = (1, tm), vs_tx = utx_init, vs_rx = (urx_init, w)\<rparr> =
      ret \<lparr>vs_top = (l', tm'), vs_tx = fold (uart_tx clk) (butlast (1 # xs @ [1])) utx_init, vs_rx = (s\<lparr>rx_sometimes := 1\<rparr>, w')\<rparr>"
    by blast
  have "butlast (1 # xs @ [1]) = 1 # xs" by (simp add: butlast_append)
  moreover have "v_rst wire b l = l" for b l by (simp add: wire_def)
  ultimately show ?thesis using 1(4,5) 2
    by (intro exI [of _ "m + 1"] exI) (auto simp: verilator_main_def tick simp del: butlast.simps)
qed

theorem uart_loopback_witness:
  "\<exists>n s. verilator_main wire 50000000 n 1 \<lparr>h_in = [(2, 72), (0, 105)], h_out = [], h_raw = False, h_initialized = False\<rparr> = ret s \<and>
     h_in (snd (vs_rx s)) = [] \<and> tx_out (vs_tx s) = [Written 72, Written 105]"
  using uart_loopback [of 50000000 "\<lparr>h_in = [(2, 72), (0, 105)], h_out = [], h_raw = False, h_initialized = False\<rparr>"]
  by (simp add: BITWIDTH_def BAUD_def)



text \<open>
  A byte is printed twice when the next start bit begins in the clock in which the stop
  bit has been counted down: the early exit of the stop bit falls through to the test of
  the counter.
\<close>

theorem uart_tx_duplicates:
  assumes "20 < BITWIDTH clk" "BITWIDTH clk < 2 ^ 64"
  shows "tx_out (fold (uart_tx clk) (frame (BITWIDTH clk) c @ [0]) utx_init) = [Written c, Written c]"
proof -
  let ?W = "BITWIDTH clk"
  have W: "2 \<le> ?W" "9 * ?W < 10 * ?W" using assms by simp_all
  have tol: "tolerable ?W (\<lambda>i. lvl ?W c (i + 0)) c (10 * ?W)" using assms by (intro lvl_tolerable) auto
  have i: "tx_state utx_init = IDLE" "tx_out utx_init = []" by (simp_all add: utx_init_def)
  note last = tx_frame_last [OF refl W(1) assms(2) tol i(1) W(2) order_refl]
  have "good_cb ?W 0" using assms by (simp add: good_cb_def)
  with last i show ?thesis by (simp add: frame_def uart_tx_stop_early [of _ 0])
qed

text \<open>
  C16. Whatever the line has carried so far, the receiver is back in its idle state after at
  most twelve bit times of an idle line.
\<close>

theorem uart_tx_resync:
  assumes "2 \<le> BITWIDTH clk" "2 * BITWIDTH clk < 2 ^ 64" "tx_reach clk s"
  shows "\<exists>n \<le> 12 * BITWIDTH clk. tx_state (fold (uart_tx clk) (replicate n 1) s) = IDLE"
proof -
  let ?W = "BITWIDTH clk"
  have "\<exists>n \<le> tx_rank ?W s. tx_state (fold (uart_tx clk) (replicate n 1) s) = IDLE" if "tx_inv ?W s" for s
    using that
  proof (induction "tx_rank ?W s" arbitrary: s rule: less_induct)
    case less
    show ?case
    proof (cases "tx_state s = IDLE")
      case True
      then show ?thesis by (intro exI [of _ 0]) simp
    next
      case False
      note lt = tx_rank_step [OF refl assms(1,2) less.prems False]
      from less.hyps [OF lt tx_inv_step [OF refl assms(1,2) less.prems]] obtain n where
        "n \<le> tx_rank ?W (uart_tx clk 1 s)" "tx_state (fold (uart_tx clk) (replicate n 1) (uart_tx clk 1 s)) = IDLE" by blast
      with lt show ?thesis by (intro exI [of _ "Suc n"]) auto
    qed
  qed
  moreover have "tx_inv ?W s" using tx_reach_inv assms by blast
  moreover from this have "tx_rank ?W s \<le> 12 * ?W" by (rule tx_rank_bound)
  ultimately show ?thesis by (meson le_trans)
qed

theorem uart_tx_resync_witness:
  "tx_reach 50000000 (uart_tx 50000000 0 utx_init) \<and>
   (\<exists>n \<le> 12 * BITWIDTH 50000000. tx_state (fold (uart_tx 50000000) (replicate n 1) (uart_tx 50000000 0 utx_init)) = IDLE)"
proof -
  have "tx_reach 50000000 (uart_tx 50000000 0 utx_init)" by (intro tx_reach_step tx_reach_init)
  moreover have "2 \<le> BITWIDTH 50000000" "2 * BITWIDTH 50000000 < 2 ^ 64" by (simp_all add: BITWIDTH_def BAUD_def)
  ultimately show ?thesis using uart_tx_resync by blast
qed

end
