(* ===== verification/Sim_Jtag.thy ===== *)
theory Sim_Jtag
  imports Sim_Vhpi
begin

text \<open>
  \<^verbatim>\<open>sim_jtag_socket_c.c\<close>: the socket through which a debugger on the host exchanges JTAG
  messages with the simulation. A message is a byte with the number of bits and then the
  bits, eight to a byte with the lowest first; the VHDL sees a vector with one element per
  bit, in order.

  \<open>jsock\<close> holds the two descriptors of the source and the network: whether the listening
  socket can be set up, whether a client is waiting, the chunks that will arrive (an empty
  chunk is the end of the connection), and the chunks that have been sent. Local arrays are
  lists of bytes whose initial contents are an argument.
\<close>

section \<open>Definitions\<close>

record jsock =
  js_fd :: int
  js_cfd :: int
  js_can_listen :: bool
  js_waiting :: bool
  js_in :: "u8 list list"
  js_out :: "u8 list list"

definition MAX_PACKET :: nat where "MAX_PACKET = 32"

definition open_socket :: "jsock \<Rightarrow> jsock" where
  "open_socket s =
     (if 0 \<le> js_fd s \<or> js_fd s < - 1 then s
      else if js_can_listen s then s\<lparr>js_fd := 3\<rparr>
      else s\<lparr>js_fd := - 2\<rparr>)"

definition check_connection :: "jsock \<Rightarrow> jsock" where
  "check_connection s = (if js_waiting s then s\<lparr>js_cfd := 4, js_waiting := False\<rparr> else s\<lparr>js_cfd := - 1\<rparr>)"

text \<open>\<open>read\<close> returns at most \<open>n\<close> bytes of what has arrived and leaves the rest.\<close>

definition sock_take :: "nat \<Rightarrow> jsock \<Rightarrow> u8 list \<times> jsock" where
  "sock_take n s =
     (case js_in s of
        [] \<Rightarrow> ([], s)
      | c # cs \<Rightarrow> (take n c, s\<lparr>js_in := (if length c \<le> n then cs else drop n c # cs)\<rparr>))"

primrec jtag_read_loop :: "u8 list \<Rightarrow> heap \<Rightarrow> ptr \<Rightarrow> nat \<Rightarrow> nat \<Rightarrow> heap option" where
  "jtag_read_loop data h out_msg i 0 = Some h"
| "jtag_read_loop data h out_msg i (Suc n) =
     (if i div 8 + 1 < length data then do {
        h' \<leftarrow> store8 h (out_msg + of_nat i) (if bit (data ! (i div 8 + 1)) (i mod 8) then vhpi1 else vhpi0);
        jtag_read_loop data h' out_msg (i + 1) n
      } else None)"

definition jtag_finish :: "u8 \<Rightarrow> heap \<Rightarrow> ptr \<Rightarrow> jsock \<Rightarrow> (heap \<times> jsock) sim" where
  "jtag_finish sz h out_size s = bindS (to_std_logic_vector (ucast sz) h out_size 8) (\<lambda>h'. ret (h', s))"

definition sim_jtag_read_msg :: "heap \<Rightarrow> ptr \<Rightarrow> ptr \<Rightarrow> jsock \<Rightarrow> (heap \<times> jsock) sim" where
  "sim_jtag_read_msg h out_msg out_size s =
     (let s1 = (if js_fd s = - 1 then open_socket s else s) in
      if js_fd s1 < 0 then jtag_finish 0 h out_size s1
      else
        let s2 = (if js_cfd s1 < 0 then check_connection s1 else s1) in
        if js_cfd s2 < 0 then jtag_finish 0 h out_size s2
        else if js_in s2 = [] then jtag_finish 0 h out_size s2
        else
          let (data, s3) = sock_take MAX_PACKET s2; rc = length data in
          if rc = 0 then jtag_finish 0 h out_size (s3\<lparr>js_cfd := - 1\<rparr>)
          else
            let sz = hd data in
            if sz = 255 then jtag_finish sz h out_size s3
            else
              let sz1 = (if (rc - 1) * 8 < unat sz then of_nat ((rc - 1) * 8) else sz) in
              bindS (mem_op (jtag_read_loop data h out_msg 0 (unat sz1))) (\<lambda>h'. jtag_finish sz1 h' out_size s3))"

primrec jtag_write_loop :: "heap \<Rightarrow> ptr \<Rightarrow> u8 list \<Rightarrow> nat \<Rightarrow> nat \<Rightarrow> u8 list option" where
  "jtag_write_loop h in_msg data i 0 = Some data"
| "jtag_write_loop h in_msg data i (Suc n) =
     (if i div 8 + 1 < length data then do {
        b \<leftarrow> h (in_msg + of_nat i);
        let d = data ! (i div 8 + 1);
        jtag_write_loop h in_msg
          (data[i div 8 + 1 := (if b = vhpi1 then set_bit (i mod 8) d else unset_bit (i mod 8) d)]) (i + 1) n
      } else None)"

text \<open>
  \<open>data0\<close> is what the local array holds before it is filled. A write to a client that has
  gone is ignored.
\<close>

definition sim_jtag_write_msg :: "heap \<Rightarrow> ptr \<Rightarrow> ptr \<Rightarrow> u8 list \<Rightarrow> jsock \<Rightarrow> jsock sim" where
  "sim_jtag_write_msg h in_msg in_size data0 s =
     bindS (from_std_logic_vector h in_size 8) (\<lambda>v.
       let sz = (ucast v :: u8) in
       bindS (mem_op (jtag_write_loop h in_msg (data0[0 := sz]) 0 (unat sz))) (\<lambda>data.
         let rc = (unat sz + 7) div 8 in
         ret (if js_cfd s < 0 then s else s\<lparr>js_out := js_out s @ [take rc data]\<rparr>)))"

section \<open>Bits of a message\<close>

text \<open>Bit \<open>j\<close> of a list of bytes, the lowest bit of the first byte first.\<close>

definition bufbit :: "u8 list \<Rightarrow> nat \<Rightarrow> bool" where
  "bufbit buf j = bit (buf ! (j div 8)) (j mod 8)"

lemma bufbit_Cons: "bufbit (x # xs) (j + 8) = bufbit xs j"
proof -
  have "(j + 8) div 8 = Suc (j div 8)" by simp
  then show ?thesis unfolding bufbit_def by (simp only: nth_Cons_Suc mod_add_self2)
qed

lemma jtag_read_loop_eq:
  assumes "\<And>j. i \<le> j \<Longrightarrow> j < i + n \<Longrightarrow> j div 8 + 1 < length data"
  shows "mapped h (p + of_nat i) n \<Longrightarrow> n < addr_max \<Longrightarrow> jtag_read_loop data h p i n =
    Some (upd_bytes h (p + of_nat i) (map (\<lambda>j. slv_bit (bit (data ! (j div 8 + 1)) (j mod 8))) [i..<i + n]))"
  using assms
proof (induction n arbitrary: h i)
  case (Suc n)
  let ?b = "slv_bit (bit (data ! (i div 8 + 1)) (i mod 8))"
  let ?f = "\<lambda>j. slv_bit (bit (data ! (j div 8 + 1)) (j mod 8))"
  obtain b where b: "h (p + of_nat i) = Some b" using Suc.prems(1) by auto
  have q: "p + of_nat (Suc i) = p + of_nat i + 1" by simp
  have m: "mapped (h(p + of_nat i \<mapsto> ?b)) (p + of_nat (Suc i)) n"
    unfolding q using Suc.prems(1) by (intro mapped_fun_upd) simp
  have "jtag_read_loop data (h(p + of_nat i \<mapsto> ?b)) p (Suc i) n =
      Some (upd_bytes (h(p + of_nat i \<mapsto> ?b)) (p + of_nat (Suc i)) (map ?f [Suc i..<Suc i + n]))"
    by (rule Suc.IH [OF m]) (use Suc.prems(2,3) in simp_all)
  moreover have "[i..<i + Suc n] = i # [Suc i..<Suc i + n]" by (simp add: upt_conv_Cons)
  ultimately show ?case
    using Suc.prems(2) Suc.prems(3) [of i] b q
    by (simp add: slv_bit_def [symmetric] upd_bytes_Cons del: upt_Suc of_nat_Suc)
qed simp

lemma bit_set_or_unset:
  fixes x :: u8
  assumes "k < 8"
  shows "bit (if v then set_bit k x else unset_bit k x) m = (if m = k then v else bit x m)"
  using assms by (auto simp: bit_set_bit_iff bit_unset_bit_iff)

lemma jtag_write_loop_eq:
  assumes "length data = 32"
  shows "i + n \<le> 248 \<Longrightarrow> (\<And>j. i \<le> j \<Longrightarrow> j < i + n \<Longrightarrow> h (p + of_nat j) = Some (slv_bit (f j))) \<Longrightarrow>
    \<exists>data'. jtag_write_loop h p data i n = Some data' \<and> length data' = 32 \<and> data' ! 0 = data ! 0 \<and>
      (\<forall>j < 248. bufbit (tl data') j = (if i \<le> j \<and> j < i + n then f j else bufbit (tl data) j))"
  using assms
proof (induction n arbitrary: data i)
  case 0
  then show ?case by auto
next
  case (Suc n)
  let ?d = "data[i div 8 + 1 := (if f i then set_bit (i mod 8) (data ! (i div 8 + 1)) else unset_bit (i mod 8) (data ! (i div 8 + 1)))]"
  have h: "h (p + of_nat i) = Some (slv_bit (f i))" using Suc.prems(2) [of i] by simp
  have i: "i div 8 + 1 < length data" using Suc.prems(1,3) by (simp add: div_less_iff_less_mult)
  have step: "jtag_write_loop h p data i (Suc n) = jtag_write_loop h p ?d (i + 1) n"
    using h i by (auto simp: slv_bit_def vhpi1_def vhpi0_def)
  have d: "bufbit (tl ?d) j = (if j = i then f i else bufbit (tl data) j)" if "j < 248" for j
  proof -
    have l: "j div 8 < 31" using that by (simp add: div_less_iff_less_mult)
    then have tl: "bufbit (tl xs) j = bit (xs ! (j div 8 + 1)) (j mod 8)" if "length xs = 32" for xs
      using that by (simp add: bufbit_def nth_tl)
    show ?thesis
    proof (cases "j div 8 = i div 8")
      case True
      then have "j mod 8 = i mod 8 \<longleftrightarrow> j = i" by (metis div_mult_mod_eq)
      with True i l Suc.prems(3) bit_set_or_unset [of "i mod 8" "f i" "data ! (i div 8 + 1)" "j mod 8"] show ?thesis
        by (simp add: tl del: nth_list_update)
    next
      case False
      then show ?thesis using Suc.prems(3) by (auto simp: tl)
    qed
  qed
  from Suc.IH [of "i + 1" ?d] Suc.prems obtain data' where
    1: "jtag_write_loop h p ?d (i + 1) n = Some data'" "length data' = 32" "data' ! 0 = ?d ! 0"
      "\<forall>j < 248. bufbit (tl data') j = (if i + 1 \<le> j \<and> j < i + 1 + n then f j else bufbit (tl ?d) j)" by auto
  have "data' ! 0 = data ! 0" using 1(3) by simp
  moreover have "bufbit (tl data') j = (if i \<le> j \<and> j < i + Suc n then f j else bufbit (tl data) j)" if "j < 248" for j
    using 1(4) d [OF that] that by auto
  ultimately show ?case using 1(1,2) step by auto
qed

section \<open>Calls from the VHDL\<close>

text \<open>
  The simulator passes a vector of 248 elements for the message and one of 8 elements for
  the size.
\<close>

definition vhdl_jtag_read :: "jsock \<Rightarrow> (bool list \<times> u8 \<times> jsock) sim" where
  "vhdl_jtag_read s =
     bindS (sim_jtag_read_msg (blk (replicate 256 0)) 0 248 s) (\<lambda>(h, s').
       bindS (mem_op (from_slv_loop h 248 8 0)) (\<lambda>v.
         bindS (mem_op (load_bytes h 0 248)) (\<lambda>bs. ret (map (\<lambda>b. b = vhpi1) bs, ucast v, s'))))"

definition vhdl_jtag_write :: "bool list \<Rightarrow> u8 \<Rightarrow> u8 list \<Rightarrow> jsock \<Rightarrow> jsock sim" where
  "vhdl_jtag_write bits sz data0 s = sim_jtag_write_msg (blk (map slv_bit bits @ slv 8 (ucast sz))) 0 248 data0 s"

lemma take_bit_8_ucast: "take_bit 8 (ucast x :: u64) = ucast x" for x :: u8
  by (rule bit_word_eqI) (auto simp: bit_simps dest: bit_imp_le_length)

lemma vhdl_jtag_write_eq:
  assumes "length bits = 248" "length data0 = 32" "unat sz < 248" "0 \<le> js_cfd s"
  shows "\<exists>payload. length payload = 31 \<and> (\<forall>j < unat sz. bufbit payload j = bits ! j) \<and>
    vhdl_jtag_write bits sz data0 s = ret (s\<lparr>js_out := js_out s @ [take ((unat sz + 7) div 8) (sz # payload)]\<rparr>)"
proof -
  let ?h = "blk (map slv_bit bits @ slv 8 (ucast sz))"
  have arr: "arr ?h 0 (map slv_bit bits @ slv 8 (ucast sz))" using assms(1) by (intro arr_blk) (simp add: addr_max_def)
  then have "arr ?h 248 (slv 8 (ucast sz))" using assms(1) by (simp add: arr_append)
  then have v: "from_std_logic_vector ?h 248 8 = ret (ucast sz)"
    using from_slv_loop_eq [of ?h 248 8 "ucast sz" 0] by (simp add: from_std_logic_vector_def addr_max_def take_bit_8_ucast)
  have "?h (0 + of_nat j) = Some (slv_bit (bits ! j))" if "j < 248" for j
    using arr_nthD [OF arr, of j] that assms(1) by (simp add: nth_append)
  with jtag_write_loop_eq [of "data0[0 := sz]" 0 "unat sz" ?h 0 "\<lambda>j. bits ! j"] assms(2,3) obtain data where
    d: "jtag_write_loop ?h 0 (data0[0 := sz]) 0 (unat sz) = Some data" "length data = 32" "data ! 0 = sz"
      "\<forall>j < 248. bufbit (tl data) j = (if j < unat sz then bits ! j else bufbit (tl (data0[0 := sz])) j)" by auto
  have "data = sz # tl data" using d(2,3) by (cases data) auto
  moreover have "vhdl_jtag_write bits sz data0 s = ret (s\<lparr>js_out := js_out s @ [take ((unat sz + 7) div 8) data]\<rparr>)"
    using v d(1) assms(4) by (simp add: vhdl_jtag_write_def sim_jtag_write_msg_def Let_def)
  ultimately show ?thesis using d assms(3) by (intro exI [of _ "tl data"]) auto
qed

lemma slv_bit_vhpi1: "slv_bit b = vhpi1 \<longleftrightarrow> b"
  by (simp add: slv_bit_def vhpi0_def vhpi1_def)

lemma upd_bytes_nth: "i < length bs \<Longrightarrow> length bs \<le> addr_max \<Longrightarrow> upd_bytes h p bs (p + of_nat i) = Some (bs ! i)"
  using arr_nthD [OF arr_upd_bytes] .

lemma region_after: "j < 248 \<Longrightarrow> of_nat j \<notin> region 248 8"
proof
  assume j: "j < 248" and "of_nat j \<in> region 248 8"
  then obtain i where i: "i < 8" "(of_nat j :: u64) = 248 + of_nat i" by (auto simp: region_def)
  then have "unat (of_nat j :: u64) = 248 + i" using unat_add_of_nat [of 248 i] by (simp add: addr_max_def)
  with j show False by (simp add: unat_of_nat_addr addr_max_def)
qed

lemma vhdl_jtag_read_eq:
  assumes "0 \<le> js_fd s" "0 \<le> js_cfd s" "js_in s = (sz # bytes) # cs" "length bytes < 32" "sz \<noteq> 255"
    "unat sz \<le> 8 * length bytes"
  shows "\<exists>bits. length bits = 248 \<and> (\<forall>j < unat sz. bits ! j = bufbit bytes j) \<and>
    vhdl_jtag_read s = ret (bits, sz, s\<lparr>js_in := cs\<rparr>)"
proof -
  let ?h = "blk (replicate 256 0)" and ?n = "unat sz"
  let ?v = "map (\<lambda>j. slv_bit (bit ((sz # bytes) ! (j div 8 + 1)) (j mod 8))) [0..<?n]"
  let ?h1 = "upd_bytes ?h 0 ?v"
  let ?h2 = "upd_bytes ?h1 248 (slv 8 (ucast sz))"
  have n: "?n \<le> 248" using assms(4,6) by simp
  have m: "mapped ?h 0 (248 + 8)" unfolding mapped_def region_def by (auto simp: blk_def unat_of_nat_addr addr_max_def)
  have "j div 8 + 1 < length (sz # bytes)" if "j < ?n" for j using that assms(6) by (simp add: div_less_iff_less_mult)
  then have 1: "jtag_read_loop (sz # bytes) ?h 0 0 ?n = Some ?h1"
    using jtag_read_loop_eq [of 0 ?n "sz # bytes" ?h 0] mapped_mono [OF m, of ?n] n by (simp add: addr_max_def)
  have m1: "mapped ?h1 0 (248 + 8)" by (rule mapped_upd_bytes [OF _ m]) (use n in \<open>simp add: addr_max_def\<close>)
  have "mapped ?h1 248 8" using m1 [unfolded mapped_add] by simp
  then have 2: "to_std_logic_vector (ucast sz) ?h1 248 8 = ret ?h2"
    using to_std_logic_vector_eq [of ?h1 248 8] by simp
  have "arr ?h2 248 (slv 8 (ucast sz))" using arr_upd_bytes [of "slv 8 (ucast sz)" ?h1 248] by (simp add: addr_max_def)
  then have 3: "from_slv_loop ?h2 248 8 0 = Some (ucast sz)"
    using from_slv_loop_eq [of ?h2 248 8 "ucast sz" 0] by (simp add: take_bit_8_ucast)
  have "mapped ?h2 0 248" by (rule mapped_upd_bytes [OF _ mapped_mono [OF m1]]) (simp_all add: addr_max_def)
  then obtain bs where bs: "length bs = 248" "arr ?h2 0 bs" using mapped_arr by blast
  have bits: "bs ! j = slv_bit (bufbit bytes j)" if "j < ?n" for j
  proof -
    have "?h2 (of_nat j) = ?h1 (of_nat j)"
      using region_after [of j] that n upd_bytes_outside [of "slv 8 (ucast sz)" "of_nat j" 248 ?h1] by (simp add: addr_max_def)
    moreover have "?h1 (of_nat j) = Some (?v ! j)" using upd_bytes_nth [of j ?v ?h 0] that n by (simp add: addr_max_def)
    moreover have "?h2 (of_nat j) = Some (bs ! j)" using arr_nthD [OF bs(2), of j] bs(1) that n by simp
    moreover have "(sz # bytes) ! (j div 8 + 1) = bytes ! (j div 8)" by simp
    ultimately show ?thesis using that by (simp add: bufbit_def)
  qed
  have "vhdl_jtag_read s = ret (map (\<lambda>b. b = vhpi1) bs, sz, s\<lparr>js_in := cs\<rparr>)"
    using assms 1 2 3 bs load_bytes_arr [of ?h2 0 248 bs]
    by (simp add: vhdl_jtag_read_def sim_jtag_read_msg_def sock_take_def MAX_PACKET_def jtag_finish_def Let_def)
  then show ?thesis using bs(1) bits n by (intro exI [of _ "map (\<lambda>b. b = vhpi1) bs"]) (simp add: slv_bit_vhpi1)
qed

end
