(* ===== verification/Sim_Bram.thy ===== *)
theory Sim_Bram
  imports Sim_Jtag
begin

text \<open>
  \<^verbatim>\<open>sim_bram_helpers_c.c\<close>: the block memory of the simulation, kept in mapped files. A region
  holds its size and the bytes that are mapped, addressed from 0; an access outside of them
  is a fault. The state also has the files of the host, by name, and the page size. Failures
  of \<open>fstat\<close> and \<open>mmap\<close> are not modelled, except for a mapping of length 0.
\<close>

section \<open>Definitions\<close>

definition ALIGN_UP :: "u64 \<Rightarrow> u64 \<Rightarrow> u64" where
  "ALIGN_UP val sz = (val + (sz - 1)) AND NOT (sz - 1)"

definition MAX_REGIONS :: nat where "MAX_REGIONS = 128"

record ram_behavioural =
  rb_filename :: "u8 list"
  rb_size :: u64
  rb_m :: "u8 list"

record bram =
  behavioural_regions :: "ram_behavioural list"
  br_files :: "u8 list \<Rightarrow> u8 list option"
  br_pagesize :: u64

definition behavioural_initialize :: "heap \<Rightarrow> fat_pointer \<Rightarrow> u64 \<Rightarrow> bram \<Rightarrow> (u64 \<times> bram) sim" where
  "behavioural_initialize h f sz s =
     (let region_nr = length (behavioural_regions s) in
      if region_nr = MAX_REGIONS then sim_exit 1
      else bindS (mem_op (from_string h f)) (\<lambda>filename.
        let rsize = ALIGN_UP sz (br_pagesize s) in
        case br_files s (takeWhile (\<lambda>c. c \<noteq> 0) filename) of
          None \<Rightarrow> sim_exit 1
        | Some file \<Rightarrow>
            let tmp_size = ALIGN_UP (of_nat (length file)) (br_pagesize s);
                total = (if tmp_size < rsize then rsize else tmp_size)
            in if total = 0 then sim_exit 1
               else
                 let mem = file @ replicate (unat total - length file) 0
                 in ret (of_nat region_nr,
                      s\<lparr>behavioural_regions := behavioural_regions s @ [\<lparr>rb_filename = filename, rb_size = rsize, rb_m = mem\<rparr>]\<rparr>)))"

text \<open>An entry of the array: one that is in use, one that is still zero, or none.\<close>

definition region_at :: "bram \<Rightarrow> nat \<Rightarrow> ram_behavioural option" where
  "region_at s i =
     (if i < length (behavioural_regions s) then Some (behavioural_regions s ! i)
      else if i < MAX_REGIONS then Some \<lparr>rb_filename = [], rb_size = 0, rb_m = []\<rparr>
      else None)"

definition bad_index :: "int \<Rightarrow> bram \<Rightarrow> bool" where
  "bad_index ident s \<longleftrightarrow> ident < 0 \<or> int (length (behavioural_regions s)) < ident"

primrec bram_read_loop :: "ram_behavioural \<Rightarrow> u64 \<Rightarrow> nat \<Rightarrow> nat \<Rightarrow> u64 \<Rightarrow> u64 sim" where
  "bram_read_loop r addr i 0 val = ret val"
| "bram_read_loop r addr i (Suc n) val =
     (let a = addr + of_nat i in
      if rb_size r < a then sim_exit 1
      else if unat a < length (rb_m r) then bram_read_loop r addr (i + 1) n (val OR push_bit (i * 8) (ucast (rb_m r ! unat a)))
      else None)"

definition behavioural_read :: "heap \<Rightarrow> ptr \<Rightarrow> ptr \<Rightarrow> u64 \<Rightarrow> int \<Rightarrow> bram \<Rightarrow> heap sim" where
  "behavioural_read h val_p addr_p sel ident s =
     bindS (from_std_logic_vector h addr_p 64) (\<lambda>addr.
       if bad_index ident s then sim_exit 1
       else bindS (mem_op (region_at s (nat ident))) (\<lambda>r.
         bindS (bram_read_loop r addr 0 8 0) (\<lambda>val. to_std_logic_vector val h val_p 64)))"

primrec bram_write_loop :: "u64 \<Rightarrow> u64 \<Rightarrow> u32 \<Rightarrow> nat \<Rightarrow> nat \<Rightarrow> ram_behavioural \<Rightarrow> ram_behavioural sim" where
  "bram_write_loop val addr sel i 0 r = ret r"
| "bram_write_loop val addr sel i (Suc n) r =
     (let a = addr + of_nat i in
      if \<not> bit sel i then bram_write_loop val addr sel (i + 1) n r
      else if rb_size r < a then sim_exit 1
      else if unat a < length (rb_m r) then
        bram_write_loop val addr sel (i + 1) n (r\<lparr>rb_m := (rb_m r)[unat a := ucast (drop_bit (i * 8) val)]\<rparr>)
      else None)"

definition behavioural_write :: "heap \<Rightarrow> ptr \<Rightarrow> ptr \<Rightarrow> u32 \<Rightarrow> int \<Rightarrow> bram \<Rightarrow> bram sim" where
  "behavioural_write h val_p addr_p sel ident s =
     bindS (from_std_logic_vector h val_p 64) (\<lambda>val.
     bindS (from_std_logic_vector h addr_p 64) (\<lambda>addr.
       if bad_index ident s then sim_exit 1
       else bindS (mem_op (region_at s (nat ident))) (\<lambda>r.
         bindS (bram_write_loop val addr sel 0 8 r) (\<lambda>r'.
           ret (if nat ident < length (behavioural_regions s)
                then s\<lparr>behavioural_regions := (behavioural_regions s)[nat ident := r']\<rparr> else s)))))"

section \<open>Calls from the VHDL\<close>

text \<open>The simulator passes vectors of 64 elements for the data and the address.\<close>

definition vhdl_bram_read :: "u64 \<Rightarrow> u64 \<Rightarrow> int \<Rightarrow> bram \<Rightarrow> u64 sim" where
  "vhdl_bram_read addr sel ident s =
     bindS (behavioural_read (blk (replicate 64 0 @ slv 64 addr)) 0 64 sel ident s) (\<lambda>h. mem_op (from_slv_loop h 0 64 0))"

definition vhdl_bram_write :: "u64 \<Rightarrow> u64 \<Rightarrow> u32 \<Rightarrow> int \<Rightarrow> bram \<Rightarrow> bram sim" where
  "vhdl_bram_write val addr sel ident s = behavioural_write (blk (slv 64 val @ slv 64 addr)) 0 64 sel ident s"

section \<open>Bytes and bits\<close>

lemma bit_le_nat: "bit (le_nat bs) k \<longleftrightarrow> k < 8 * length bs \<and> bufbit bs k"
proof (induction bs arbitrary: k)
  case (Cons b bs)
  have lt: "unat b < 256" using unsigned_less [of b, where ?'a = nat] by simp
  have "bit (unat b + 256 * le_nat bs) k \<longleftrightarrow> (if k < 8 then bit b k else bit (le_nat bs) (k - 8))"
  proof (cases "k < 8")
    case True
    have "take_bit 8 (unat b + 256 * le_nat bs) = unat b" using lt by (simp add: take_bit_eq_mod)
    then have "bit (unat b + 256 * le_nat bs) k = bit (unat b) k" using True by (metis bit_take_bit_iff)
    then show ?thesis using True by (simp add: bit_unsigned_iff)
  next
    case False
    have "drop_bit 8 (unat b + 256 * le_nat bs) = le_nat bs" using lt by (simp add: drop_bit_eq_div)
    then have "bit (unat b + 256 * le_nat bs) (8 + (k - 8)) = bit (le_nat bs) (k - 8)" by (metis bit_drop_bit_eq comp_apply)
    then show ?thesis using False by simp
  qed
  moreover have "bufbit (b # bs) k = (if k < 8 then bit b k else bufbit bs (k - 8))"
    by (cases "k < 8") (simp add: bufbit_def, metis bufbit_Cons le_add_diff_inverse2 not_less)
  ultimately show ?case using Cons.IH [of "k - 8"] by auto
qed simp

lemma bit_dword:
  assumes "length bs \<le> 8"
  shows "bit (of_nat (le_nat bs) :: u64) k \<longleftrightarrow> k < 8 * length bs \<and> bufbit bs k"
proof -
  have "le_nat bs < addr_max"
    using le_nat_less [of bs] power_increasing [OF assms, of "256 :: nat"] by (simp add: addr_max_def)
  then have u: "unat (of_nat (le_nat bs) :: u64) = le_nat bs" by (rule unat_of_nat_addr)
  have "bit (unat (of_nat (le_nat bs) :: u64)) k = bit (of_nat (le_nat bs) :: u64) k"
    by (simp only: bit_unsigned_iff) (simp add: bit_simps)
  then show ?thesis unfolding u bit_le_nat by simp
qed

lemma bufbit_drop: "bufbit (drop a m) k = bit (m ! (a + k div 8)) (k mod 8)" if "a + k div 8 < length m"
  using that by (simp add: bufbit_def)

section \<open>Loops\<close>

text \<open>The eight bytes at an address are in the region.\<close>

definition in_ram :: "ram_behavioural \<Rightarrow> u64 \<Rightarrow> bool" where
  "in_ram r addr \<longleftrightarrow> unat addr + 8 \<le> length (rb_m r) \<and> unat addr + 7 \<le> unat (rb_size r)"

lemma in_ram_step:
  assumes "in_ram r addr" "i < 8"
  shows "unat (addr + of_nat i) = unat addr + i" "\<not> rb_size r < addr + of_nat i" "unat (addr + of_nat i) < length (rb_m r)"
proof -
  have "unat addr + 7 < addr_max" using assms(1) unat_less_addr_max [of "rb_size r"] unfolding in_ram_def by linarith
  then show u: "unat (addr + of_nat i) = unat addr + i"
    using assms(2) by (simp add: unat_word_ariths unat_of_nat addr_max_def)
  show "\<not> rb_size r < addr + of_nat i" "unat (addr + of_nat i) < length (rb_m r)"
    using assms by (simp_all add: word_less_nat_alt u in_ram_def)
qed

lemma bram_read_loop_eq:
  "in_ram r addr \<Longrightarrow> i + n = 8 \<Longrightarrow>
   \<exists>v. bram_read_loop r addr i n val = ret v \<and>
     (\<forall>k. bit v k \<longleftrightarrow> bit val k \<or> 8 * i \<le> k \<and> k < 64 \<and> bufbit (drop (unat addr) (rb_m r)) k)"
proof (induction n arbitrary: i val)
  case (Suc n)
  let ?val = "val OR push_bit (i * 8) (ucast (rb_m r ! (unat addr + i)))"
  have i: "i < 8" using Suc.prems(2) by simp
  have step: "bram_read_loop r addr i (Suc n) val = bram_read_loop r addr (i + 1) n ?val"
    using in_ram_step [OF Suc.prems(1) i] by (simp add: Let_def)
  from Suc.IH [of "i + 1" ?val] Suc.prems obtain v where
    v: "bram_read_loop r addr (i + 1) n ?val = ret v"
      "\<And>k. bit v k \<longleftrightarrow> bit ?val k \<or> 8 * (i + 1) \<le> k \<and> k < 64 \<and> bufbit (drop (unat addr) (rb_m r)) k" by auto
  have "bit ?val k \<longleftrightarrow> bit val k \<or> 8 * i \<le> k \<and> k < 8 * (i + 1) \<and> bufbit (drop (unat addr) (rb_m r)) k" for k
  proof (cases "8 * i \<le> k \<and> k < 8 * (i + 1)")
    case True
    then have "k div 8 = i" "k mod 8 = k - i * 8" by (auto simp: div_nat_eqI minus_div_mult_eq_mod [symmetric])
    moreover have "unat addr + i < length (rb_m r)" using Suc.prems(1) i by (simp add: in_ram_def)
    ultimately show ?thesis using True i by (auto simp: bit_simps bufbit_drop)
  next
    case False
    then show ?thesis by (auto simp: bit_simps dest: bit_imp_le_length)
  qed
  then show ?case using v i step by (intro exI [of _ v]) auto
qed auto

lemma bram_read_eq:
  assumes "in_ram r addr"
  shows "bram_read_loop r addr 0 8 0 = ret (of_nat (le_nat (take 8 (drop (unat addr) (rb_m r)))))"
proof -
  let ?bs = "take 8 (drop (unat addr) (rb_m r))"
  have len: "length ?bs = 8" using assms by (auto simp: in_ram_def)
  from bram_read_loop_eq [OF assms, of 0 8 0] obtain v where
    v: "bram_read_loop r addr 0 8 0 = ret v" "\<And>k. bit v k \<longleftrightarrow> k < 64 \<and> bufbit (drop (unat addr) (rb_m r)) k" by auto
  have "bufbit ?bs k = bufbit (drop (unat addr) (rb_m r)) k" if "k < 64" for k
    using that by (simp add: bufbit_def div_less_iff_less_mult)
  moreover have "bit (of_nat (le_nat ?bs) :: u64) k \<longleftrightarrow> k < 64 \<and> bufbit ?bs k" for k using bit_dword [of ?bs k, unfolded len] by simp
  ultimately have "v = of_nat (le_nat ?bs)" by (intro bit_word_eqI) (auto simp: v(2))
  with v(1) show ?thesis by simp
qed

lemma bram_write_loop_eq:
  "in_ram r addr \<Longrightarrow> i + n = 8 \<Longrightarrow>
   \<exists>m. bram_write_loop val addr sel i n r = ret (r\<lparr>rb_m := m\<rparr>) \<and> length m = length (rb_m r) \<and>
     (\<forall>j < length m. m ! j = (if unat addr + i \<le> j \<and> j < unat addr + 8 \<and> bit sel (j - unat addr)
        then ucast (drop_bit ((j - unat addr) * 8) val) else rb_m r ! j))"
proof (induction n arbitrary: i r)
  case 0
  then show ?case by (intro exI [of _ "rb_m r"]) auto
next
  case (Suc n)
  have i: "i < 8" using Suc.prems(2) by simp
  let ?r = "if bit sel i then r\<lparr>rb_m := (rb_m r)[unat addr + i := ucast (drop_bit (i * 8) val)]\<rparr> else r"
  have step: "bram_write_loop val addr sel i (Suc n) r = bram_write_loop val addr sel (i + 1) n ?r"
    using in_ram_step [OF Suc.prems(1) i] by (simp add: Let_def)
  have "in_ram ?r addr" using Suc.prems(1) by (simp add: in_ram_def)
  from Suc.IH [OF this, of "i + 1"] Suc.prems(2) obtain m where
    m: "bram_write_loop val addr sel (i + 1) n ?r = ret (?r\<lparr>rb_m := m\<rparr>)" "length m = length (rb_m r)"
      "\<And>j. j < length m \<Longrightarrow> m ! j = (if unat addr + (i + 1) \<le> j \<and> j < unat addr + 8 \<and> bit sel (j - unat addr)
        then ucast (drop_bit ((j - unat addr) * 8) val) else rb_m ?r ! j)" by auto
  have "m ! j = (if unat addr + i \<le> j \<and> j < unat addr + 8 \<and> bit sel (j - unat addr)
        then ucast (drop_bit ((j - unat addr) * 8) val) else rb_m r ! j)" if "j < length m" for j
    using m(3) [OF that] that m(2) i by (cases "j = unat addr + i") auto
  moreover have "?r\<lparr>rb_m := m\<rparr> = r\<lparr>rb_m := m\<rparr>" by simp
  ultimately show ?case using step m(1,2) by (intro exI [of _ m]) auto
qed

section \<open>The memory as the VHDL sees it\<close>

lemma arr_pair:
  assumes "length xs = 64" "length ys = 64"
  shows "arr (blk (xs @ ys)) 0 xs" "arr (blk (xs @ ys)) 64 ys"
proof -
  have "arr (blk (xs @ ys)) 0 (xs @ ys)" by (rule arr_blk) (simp add: assms addr_max_def)
  then show "arr (blk (xs @ ys)) 0 xs" "arr (blk (xs @ ys)) 64 ys" by (simp_all add: arr_append assms)
qed

lemma from_pair:
  "length xs = 64 \<Longrightarrow> from_std_logic_vector (blk (xs @ slv 64 v)) 64 64 = ret v"
  "from_std_logic_vector (blk (slv 64 v @ slv 64 w)) 0 64 = ret v"
  using from_std_logic_vector_eq [of _ 64 64 v] from_std_logic_vector_eq [of _ 0 64 v] arr_pair [of xs "slv 64 v"] arr_pair [of "slv 64 v" "slv 64 w"]
  by (simp_all add: take_bit_word_eq_self)

lemma to_from_slv:
  assumes "mapped h 0 64"
  shows "bindS (to_std_logic_vector v h 0 64) (\<lambda>h. mem_op (from_slv_loop h 0 64 0)) = ret v"
proof -
  have "to_std_logic_vector v h 0 64 = ret (upd_bytes h 0 (slv 64 v))" using to_std_logic_vector_eq [of h 0 64 v] assms by simp
  moreover have "from_slv_loop (upd_bytes h 0 (slv 64 v)) 0 64 0 = Some v"
    using from_slv_loop_eq [of _ 0 64 v 0] arr_upd_bytes [of "slv 64 v"] by (simp add: addr_max_def take_bit_word_eq_self)
  ultimately show ?thesis by simp
qed

lemma vhdl_bram_read_step:
  "vhdl_bram_read addr sel ident s =
     (if bad_index ident s then sim_exit 1
      else bindS (mem_op (region_at s (nat ident))) (\<lambda>r. bram_read_loop r addr 0 8 0))"
proof -
  let ?h = "blk (replicate 64 0 @ slv 64 addr)"
  have m: "mapped ?h 0 64" using arr_mapped [OF arr_pair(1) [of "replicate 64 0" "slv 64 addr"]] by simp
  have r: "bindS (bindS (bram_read_loop r addr 0 8 0) (\<lambda>val. to_std_logic_vector val ?h 0 64)) (\<lambda>h. mem_op (from_slv_loop h 0 64 0)) =
      bram_read_loop r addr 0 8 0" for r
    using to_from_slv [OF m] by (cases "bram_read_loop r addr 0 8 0") (auto simp: bindS_def ret_def split: sum.split)
  show ?thesis
    unfolding vhdl_bram_read_def behavioural_read_def from_pair(1) [OF length_replicate]
    by (cases "region_at s (nat ident)") (simp_all add: r)
qed

lemma vhdl_bram_write_step:
  "vhdl_bram_write val addr sel ident s =
     (if bad_index ident s then sim_exit 1
      else bindS (mem_op (region_at s (nat ident))) (\<lambda>r. bindS (bram_write_loop val addr sel 0 8 r) (\<lambda>r'.
        ret (if nat ident < length (behavioural_regions s) then s\<lparr>behavioural_regions := (behavioural_regions s)[nat ident := r']\<rparr> else s))))"
  unfolding vhdl_bram_write_def behavioural_write_def by (simp add: from_pair)

definition in_use :: "int \<Rightarrow> bram \<Rightarrow> ram_behavioural \<Rightarrow> bool" where
  "in_use ident s r \<longleftrightarrow> 0 \<le> ident \<and> nat ident < length (behavioural_regions s) \<and> behavioural_regions s ! nat ident = r"

lemma bram_read_in_use:
  assumes "in_use ident s r" "in_ram r addr"
  shows "vhdl_bram_read addr sel ident s = ret (of_nat (le_nat (take 8 (drop (unat addr) (rb_m r)))))"
  using assms bram_read_eq [OF assms(2)] by (auto simp: vhdl_bram_read_step in_use_def bad_index_def region_at_def)

lemma bram_write_in_use:
  assumes "in_use ident s r" "in_ram r addr"
  shows "\<exists>m s'. vhdl_bram_write val addr sel ident s = ret s' \<and> in_use ident s' (r\<lparr>rb_m := m\<rparr>) \<and> length m = length (rb_m r) \<and>
    (\<forall>j < length m. m ! j = (if unat addr \<le> j \<and> j < unat addr + 8 \<and> bit sel (j - unat addr)
        then ucast (drop_bit ((j - unat addr) * 8) val) else rb_m r ! j))"
proof -
  from bram_write_loop_eq [OF assms(2), of 0 8 val sel] obtain m where
    "bram_write_loop val addr sel 0 8 r = ret (r\<lparr>rb_m := m\<rparr>)" "length m = length (rb_m r)"
    "\<forall>j < length m. m ! j = (if unat addr \<le> j \<and> j < unat addr + 8 \<and> bit sel (j - unat addr)
        then ucast (drop_bit ((j - unat addr) * 8) val) else rb_m r ! j)" by auto
  with assms(1) show ?thesis
    by (intro exI [of _ m] exI [of _ "s\<lparr>behavioural_regions := (behavioural_regions s)[nat ident := r\<lparr>rb_m := m\<rparr>]\<rparr>"])
      (auto simp: vhdl_bram_write_step in_use_def bad_index_def region_at_def)
qed

section \<open>Correctness\<close>

lemma merge_bits:
  fixes val :: u64
  assumes "a + 8 \<le> length old" "length new = length old" "k < 64"
    "\<And>j. j < length new \<Longrightarrow> new ! j = (if a \<le> j \<and> j < a + 8 \<and> bit sel (j - a) then ucast (drop_bit ((j - a) * 8) val) else old ! j)"
  shows "bit (of_nat (le_nat (take 8 (drop a new))) :: u64) k =
    (if bit sel (k div 8) then bit val k else bit (of_nat (le_nat (take 8 (drop a old))) :: u64) k)"
proof -
  have d: "k div 8 < 8" using assms(3) by (simp add: div_less_iff_less_mult)
  have b: "bit (of_nat (le_nat (take 8 (drop a m))) :: u64) k = bit (m ! (a + k div 8)) (k mod 8)" if "a + 8 \<le> length m" for m
  proof -
    have len: "length (take 8 (drop a m)) = 8" using that by auto
    have "bufbit (take 8 (drop a m)) k = bit (m ! (a + k div 8)) (k mod 8)" using d that by (simp add: bufbit_def)
    then show ?thesis using bit_dword [of "take 8 (drop a m)" k, unfolded len] assms(3) by simp
  qed
  have "bit (ucast (drop_bit (k div 8 * 8) val) :: u8) (k mod 8) = bit val k" by (simp add: bit_simps)
  then show ?thesis using assms(1,2) assms(4) [of "a + k div 8"] d by (simp add: b)
qed

text \<open>
  C28. Block memory reads back what was written: after a write of \<open>val\<close> with byte enables \<open>sel\<close> a
  read of the same address gives the enabled bytes of \<open>val\<close> and the other bytes as they were,
  and a doubleword elsewhere in the region is unchanged.
\<close>

theorem bram_read_after_write:
  assumes "in_use ident s r" "in_ram r addr"
  shows "\<exists>s' old new. vhdl_bram_write val addr sel ident s = ret s' \<and>
    vhdl_bram_read addr 255 ident s = ret old \<and> vhdl_bram_read addr 255 ident s' = ret new \<and>
    (\<forall>k < 64. bit new k = (if bit sel (k div 8) then bit val k else bit old k)) \<and>
    (\<forall>addr2. in_ram r addr2 \<longrightarrow> unat addr2 + 8 \<le> unat addr \<or> unat addr + 8 \<le> unat addr2 \<longrightarrow>
      vhdl_bram_read addr2 255 ident s' = vhdl_bram_read addr2 255 ident s)"
proof -
  from bram_write_in_use [OF assms, of val sel] obtain m s' where
    w: "vhdl_bram_write val addr sel ident s = ret s'" "in_use ident s' (r\<lparr>rb_m := m\<rparr>)" "length m = length (rb_m r)"
      "\<And>j. j < length m \<Longrightarrow> m ! j = (if unat addr \<le> j \<and> j < unat addr + 8 \<and> bit sel (j - unat addr)
        then ucast (drop_bit ((j - unat addr) * 8) val) else rb_m r ! j)" by blast
  have ram: "in_ram (r\<lparr>rb_m := m\<rparr>) x = in_ram r x" for x using w(3) by (simp add: in_ram_def)
  have rd: "vhdl_bram_read x 255 ident s' = ret (of_nat (le_nat (take 8 (drop (unat x) m))))" if "in_ram r x" for x
    using bram_read_in_use [OF w(2), of x 255] that ram by simp
  have "take 8 (drop (unat x) m) = take 8 (drop (unat x) (rb_m r))"
    if "in_ram r x" "unat x + 8 \<le> unat addr \<or> unat addr + 8 \<le> unat x" for x
    by (rule nth_equalityI) (use that w(3,4) in \<open>auto simp: in_ram_def\<close>)
  then have "vhdl_bram_read x 255 ident s' = vhdl_bram_read x 255 ident s"
    if "in_ram r x" "unat x + 8 \<le> unat addr \<or> unat addr + 8 \<le> unat x" for x
    using that rd [OF that(1)] bram_read_in_use [OF assms(1) that(1), of 255] by simp
  moreover have "bit (of_nat (le_nat (take 8 (drop (unat addr) m))) :: u64) k =
      (if bit sel (k div 8) then bit val k else bit (of_nat (le_nat (take 8 (drop (unat addr) (rb_m r)))) :: u64) k)" if "k < 64" for k
    by (rule merge_bits [OF _ w(3) that w(4)]) (use assms(2) in \<open>auto simp: in_ram_def\<close>)
  ultimately show ?thesis using w(1) rd [OF assms(2)] bram_read_in_use [OF assms, of 255] by blast
qed

text \<open>A memory with one page, filled from a file of two bytes.\<close>

definition bram0 :: bram where
  "bram0 = \<lparr>behavioural_regions = [\<lparr>rb_filename = [97, 0], rb_size = 0x1000, rb_m = [1, 2] @ replicate 4094 0\<rparr>],
     br_files = [[97] \<mapsto> [1, 2]], br_pagesize = 0x1000\<rparr>"

theorem bram_read_after_write_witness:
  "\<exists>s' old new. vhdl_bram_write 0x1122334455667788 0x10 0x0f 0 bram0 = ret s' \<and>
    vhdl_bram_read 0x10 255 0 bram0 = ret old \<and> vhdl_bram_read 0x10 255 0 s' = ret new \<and>
    (\<forall>k < 64. bit new k = (if bit (0x0f :: u32) (k div 8) then bit (0x1122334455667788 :: u64) k else bit old k))"
proof -
  let ?r = "\<lparr>rb_filename = [97, 0], rb_size = 0x1000, rb_m = [1, 2] @ replicate 4094 0\<rparr>"
  have "in_use 0 bram0 ?r" by (simp add: in_use_def bram0_def)
  moreover have "in_ram ?r 0x10" by (simp add: in_ram_def)
  ultimately show ?thesis using bram_read_after_write [of 0 bram0 ?r "0x10" "0x1122334455667788" "0x0f"] by blast
qed



text \<open>
  The check lets the address one past the end through: where the mapping is as long as the
  region, a read whose last byte is at the size of the region leaves the mapping.
\<close>

lemma bram_read_loop_prefix:
  "(\<And>j. i \<le> j \<Longrightarrow> j < i + n \<Longrightarrow> \<not> rb_size r < addr + of_nat j) \<Longrightarrow> \<exists>j. i \<le> j \<and> j < i + n \<and> \<not> unat (addr + of_nat j) < length (rb_m r) \<Longrightarrow>
   bram_read_loop r addr i n val = None"
proof (induction n arbitrary: i val)
  case (Suc n)
  show ?case
  proof (cases "unat (addr + of_nat i) < length (rb_m r)")
    case True
    have "\<exists>j. i + 1 \<le> j \<and> j < (i + 1) + n \<and> \<not> unat (addr + of_nat j) < length (rb_m r)"
    proof -
      from Suc.prems(2) obtain j where j: "i \<le> j" "j < i + Suc n" "\<not> unat (addr + of_nat j) < length (rb_m r)" by blast
      moreover have "j \<noteq> i" using True j(3) by blast
      ultimately show ?thesis by (intro exI [of _ j]) auto
    qed
    moreover have "\<not> rb_size r < addr + of_nat j" if "i + 1 \<le> j" "j < (i + 1) + n" for j using Suc.prems(1) [of j] that by simp
    ultimately have "bram_read_loop r addr (i + 1) n v = None" for v by (intro Suc.IH) blast+
    with True Suc.prems(1) [of i] show ?thesis by (simp add: Let_def)
  next
    case False
    with Suc.prems(1) [of i] show ?thesis by (simp add: Let_def)
  qed
qed auto

theorem bram_read_overrun:
  assumes "in_use ident s r" "length (rb_m r) = unat (rb_size r)" "unat addr + 7 = unat (rb_size r)"
  shows "vhdl_bram_read addr sel ident s = None"
proof -
  have u: "unat (addr + of_nat j) = unat addr + j" if "j < 8" for j
  proof -
    have "unat addr + 7 < addr_max" using assms(3) by (metis unat_less_addr_max)
    then show ?thesis using that by (simp add: unat_word_ariths unat_of_nat addr_max_def)
  qed
  have "bram_read_loop r addr 0 8 0 = None"
  proof (rule bram_read_loop_prefix)
    show "\<not> rb_size r < addr + of_nat j" if "j < 0 + 8" for j using u [of j] that assms(3) by (simp add: word_less_nat_alt)
    show "\<exists>j. 0 \<le> j \<and> j < 0 + 8 \<and> \<not> unat (addr + of_nat j) < length (rb_m r)"
      using u [of 7] assms(2,3) by (intro exI [of _ 7]) simp
  qed
  then show ?thesis using assms(1) by (auto simp: vhdl_bram_read_step in_use_def bad_index_def region_at_def)
qed

section \<open>Initialisation\<close>

lemma ALIGN_UP_nat:
  assumes "unat v + 0xfff < addr_max"
  shows "unat (ALIGN_UP v 0x1000) = (unat v + 0xfff) div 0x1000 * 0x1000"
proof -
  have m: "(0xfff :: u64) = mask 12" by (simp add: mask_eq_exp_minus_1)
  have u: "unat (v + 0xfff) = unat v + 0xfff" using assms by (simp add: unat_word_ariths addr_max_def)
  have "ALIGN_UP v 0x1000 = (v + 0xfff) AND NOT (mask 12)" by (simp add: ALIGN_UP_def m [symmetric])
  also have "\<dots> = push_bit 12 (drop_bit 12 (v + 0xfff))"
    by (rule bit_word_eqI) (auto simp: bit_simps)
  finally have "unat (ALIGN_UP v 0x1000) = unat (push_bit 12 (drop_bit 12 (v + 0xfff)))" by simp
  also have "\<dots> = (unat v + 0xfff) div 0x1000 * 0x1000"
  proof -
    have d: "unat (drop_bit 12 (v + 0xfff)) = (unat v + 0xfff) div 0x1000"
      unfolding unsigned_drop_bit_eq u using assms by (simp add: drop_bit_eq_div addr_max_def take_bit_nat_eq_self)
    have "(unat v + 0xfff) div 0x1000 * 0x1000 < 2 ^ 64" using assms by (simp add: addr_max_def)
    then show ?thesis by (simp add: push_bit_eq_mult unat_word_ariths d)
  qed
  finally show ?thesis .
qed

text \<open>The bytes of a file followed by zeros.\<close>

definition file_byte :: "u8 list \<Rightarrow> nat \<Rightarrow> u8" where
  "file_byte file i = (if i < length file then file ! i else 0)"

text \<open>
  C29. A region that is initialised from a file holds the bytes of the file and zeros after
  them: every doubleword inside the region, whose size is rounded up to whole pages, reads as
  those bytes.
\<close>

theorem bram_initialized:
  assumes "length (behavioural_regions s) < MAX_REGIONS" "from_string h f = Some (name @ [0])" "0 \<notin> set name"
    "br_files s name = Some file" "br_pagesize s = 0x1000" "unat sz + 0xfff < addr_max" "length file + 0xfff < addr_max" "0 < unat sz"
  shows "\<exists>ident s'. behavioural_initialize h f sz s = ret (of_nat ident, s') \<and> ident = length (behavioural_regions s) \<and>
    (\<forall>addr. unat addr + 8 \<le> (unat sz + 0xfff) div 0x1000 * 0x1000 \<longrightarrow>
      vhdl_bram_read addr 255 (int ident) s' = ret (of_nat (le_nat (map (file_byte file) [unat addr..<unat addr + 8]))))"
proof -
  let ?n = "length (behavioural_regions s)"
  define rs tmp where "rs = ALIGN_UP sz 0x1000" and "tmp = ALIGN_UP (of_nat (length file)) 0x1000"
  define total where "total = (if tmp < rs then rs else tmp)"
  define m where "m = file @ replicate (unat total - length file) 0"
  let ?r = "\<lparr>rb_filename = name @ [0], rb_size = rs, rb_m = m\<rparr>"
  let ?s = "s\<lparr>behavioural_regions := behavioural_regions s @ [?r]\<rparr>"
  have name: "takeWhile (\<lambda>c. c \<noteq> 0) (name @ [0]) = name" using assms(3) by (induction name) auto
  have rs: "unat rs = (unat sz + 0xfff) div 0x1000 * 0x1000" unfolding rs_def by (rule ALIGN_UP_nat [OF assms(6)])
  have len: "unat (of_nat (length file) :: u64) = length file" using assms(7) by (intro unat_of_nat_addr) simp
  have "length file \<le> unat tmp"
    using ALIGN_UP_nat [of "of_nat (length file)"] assms(7) dividend_less_times_div [of "0x1000" "length file + 0xfff"]
    unfolding len tmp_def by linarith
  then have ge: "length file \<le> unat total" "unat rs \<le> unat total" by (auto simp: total_def word_less_nat_alt not_less)
  have lm: "length m = unat total" using ge(1) by (simp add: m_def)
  have "0 < unat rs" unfolding rs using assms(8) by (simp add: div_greater_zero_iff)
  with ge(2) have "total \<noteq> 0" by auto
  then have init: "behavioural_initialize h f sz s = ret (of_nat ?n, ?s)"
    using assms(1,2,4,5) by (simp add: behavioural_initialize_def name Let_def rs_def [symmetric] tmp_def [symmetric] total_def [symmetric] m_def)
  have "vhdl_bram_read addr 255 (int ?n) ?s = ret (of_nat (le_nat (map (file_byte file) [unat addr..<unat addr + 8])))"
    if a: "unat addr + 8 \<le> unat rs" for addr
  proof -
    have "in_use (int ?n) ?s ?r" by (simp add: in_use_def)
    moreover have "in_ram ?r addr" using a ge(2) lm by (simp add: in_ram_def)
    moreover have "take 8 (drop (unat addr) m) = map (file_byte file) [unat addr..<unat addr + 8]"
      by (rule nth_equalityI) (use a ge(2) lm in \<open>auto simp: file_byte_def m_def nth_append\<close>)
    ultimately show ?thesis using bram_read_in_use [of "int ?n" ?s ?r addr 255] by simp
  qed
  with init show ?thesis unfolding rs by auto
qed

text \<open>The name of a file of two bytes, as the VHDL passes it, and a host that has that file.\<close>

definition fname0 :: fat_pointer where
  "fname0 = \<lparr>fp_base = 0, fp_bounds = \<lparr>ib_left = 1, ib_right = 1, ib_dir = 0, ib_len = 1\<rparr>\<rparr>"

theorem bram_initialized_witness:
  "\<exists>s'. behavioural_initialize (blk [97]) fname0 0x2000 (bram0\<lparr>behavioural_regions := []\<rparr>) = ret (0, s') \<and>
    vhdl_bram_read 0 255 0 s' = ret 0x0201"
proof -
  let ?s = "bram0\<lparr>behavioural_regions := []\<rparr>"
  have "from_string (blk [97]) fname0 = Some ([97] @ [0])" by (simp add: from_string_def fname0_def blk_def)
  then have "\<exists>ident s'. behavioural_initialize (blk [97]) fname0 0x2000 ?s = ret (of_nat ident, s') \<and> ident = 0 \<and>
    (\<forall>addr. unat addr + 8 \<le> (unat (0x2000 :: u64) + 0xfff) div 0x1000 * 0x1000 \<longrightarrow>
      vhdl_bram_read addr 255 (int ident) s' = ret (of_nat (le_nat (map (file_byte [1, 2]) [unat addr..<unat addr + 8]))))"
    using bram_initialized [of ?s "blk [97]" fname0 "[97]" "[1, 2]" "0x2000"] by (simp add: bram0_def MAX_REGIONS_def addr_max_def)
  then obtain s' where s': "behavioural_initialize (blk [97]) fname0 0x2000 ?s = ret (0, s')"
    "\<And>addr. unat addr + 8 \<le> 0x2000 \<Longrightarrow>
      vhdl_bram_read addr 255 0 s' = ret (of_nat (le_nat (map (file_byte [1, 2]) [unat addr..<unat addr + 8])))" by auto
  have "of_nat (le_nat (map (file_byte [1, 2]) [0..<8])) = (0x0201 :: u64)"
    by (simp add: file_byte_def upt_rec [of _ 8])
  with s'(1) s'(2) [of 0] show ?thesis by auto
qed

end
