(* ===== verification/Sim_Litedram.thy ===== *)
theory Sim_Litedram
  imports Sim_Vhpi
begin

text \<open>
  \<^verbatim>\<open>litedram/extras/sim_litedram_c.cpp\<close>: the DRAM controller of the simulation. The VHDL stands
  in for the controller (\<^verbatim>\<open>sim_litedram.vhdl\<close>), passes its ports as bit vectors to these
  functions, and they drive a verilated core. The core is generated code: its evaluation
  function, its fresh state and whether it was built with tracing are parameters. The
  main result is that an edge of the clock puts every port on the input of the core that has
  its name and brings every output back.
\<close>

section \<open>The verilated core\<close>

text \<open>
  The members of the class that the helpers use, at the width Verilator gives them, and the rest of
  its state. \<open>vl_trace\<close> is \<open>VM_TRACE\<close>.
\<close>

record 'c Vlitedram_core =
  clk :: u8
  wb_ctrl_cti :: u8
  wb_ctrl_bte :: u8
  wb_ctrl_sel :: u8
  wb_ctrl_we :: u8
  wb_ctrl_stb :: u8
  wb_ctrl_cyc :: u8
  wb_ctrl_adr :: u32
  wb_ctrl_dat_w :: u32
  cmd_valid :: u8
  cmd_we :: u8
  wdata_valid :: u8
  rdata_ready :: u8
  cmd_addr :: u32
  wdata_we :: u16
  wdata_data0 :: u32
  wdata_data1 :: u32
  wdata_data2 :: u32
  wdata_data3 :: u32
  init_error :: u8
  init_done :: u8
  wb_ctrl_err :: u8
  wb_ctrl_ack :: u8
  wb_ctrl_dat_r :: u32
  cmd_ready :: u8
  wdata_ready :: u8
  rdata_valid :: u8
  rdata_data0 :: u32
  rdata_data1 :: u32
  rdata_data2 :: u32
  rdata_data3 :: u32
  vl_state :: 'c

record 'c verilated =
  vl_new :: "'c Vlitedram_core"
  vl_eval :: "'c Vlitedram_core \<Rightarrow> 'c Vlitedram_core"
  vl_trace :: bool

section \<open>Definitions\<close>

text \<open>The trace is the list of the times dumped so far; a warning holds the function and the two sizes.\<close>

record 'c litedram =
  v :: "'c Vlitedram_core option"
  main_time :: u64
  tfp :: "u64 list option"
  warnings :: "(string \<times> int \<times> int) list"

definition check_init :: "'c verilated \<Rightarrow> bool \<Rightarrow> 'c litedram \<Rightarrow> 'c litedram" where
  "check_init g traces s =
     (case v s of
        Some _ \<Rightarrow> s
      | None \<Rightarrow>
          let s = s\<lparr>v := Some (vl_new g)\<rparr>
          in if vl_trace g \<and> traces then s\<lparr>tfp := Some []\<rparr> else s)"

definition get_bit :: "heap \<Rightarrow> ptr \<Rightarrow> (u8 \<times> ptr) option" where
  "get_bit h p = do { b \<leftarrow> h p; Some (if b = vhpi1 then 1 else 0, p + 1) }"

primrec get_bits_loop :: "heap \<Rightarrow> ptr \<Rightarrow> nat \<Rightarrow> u64 \<Rightarrow> (u64 \<times> ptr) option" where
  "get_bits_loop h p 0 r = Some (r, p)"
| "get_bits_loop h p (Suc n) r = do {
     (b, p) \<leftarrow> get_bit h p;
     get_bits_loop h p n (push_bit 1 r OR ucast b)
   }"

definition get_bits :: "heap \<Rightarrow> ptr \<Rightarrow> nat \<Rightarrow> (u64 \<times> ptr) option" where
  "get_bits h p len = get_bits_loop h p len 0"

definition set_bit1 :: "heap \<Rightarrow> ptr \<Rightarrow> u32 \<Rightarrow> (heap \<times> ptr) option" where
  "set_bit1 h p b = do { h \<leftarrow> store8 h p (if b \<noteq> 0 then vhpi1 else vhpi0); Some (h, p + 1) }"

primrec set_bits :: "heap \<Rightarrow> ptr \<Rightarrow> u64 \<Rightarrow> nat \<Rightarrow> (heap \<times> ptr) option" where
  "set_bits h p val 0 = Some (h, p)"
| "set_bits h p val (Suc len) = do {
     (h, p) \<leftarrow> set_bit1 h p (ucast (drop_bit len val AND 1));
     set_bits h p val len
   }"

text \<open>The time is converted to a double, exactly as long as it is below \<open>2 ^ 53\<close>.\<close>

definition sc_time_stamp :: "'c litedram \<Rightarrow> u64" where
  "sc_time_stamp s = main_time s"

definition check_size :: "string \<Rightarrow> u64 \<Rightarrow> int \<Rightarrow> 'c litedram \<Rightarrow> 'c litedram" where
  "check_size func s e d =
     (let s' = sint (ucast s :: u32)
      in if s' \<noteq> e then d\<lparr>warnings := warnings d @ [(func, e, s')]\<rparr> else d)"

definition do_eval :: "'c verilated \<Rightarrow> 'c litedram \<Rightarrow> 'c litedram" where
  "do_eval g s = s\<lparr>v := map_option (vl_eval g) (v s),
     tfp := (if vl_trace g then map_option (\<lambda>ts. ts @ [main_time s]) (tfp s) else tfp s),
     main_time := main_time s + 1\<rparr>"

definition litedram_set_wb :: "'c verilated \<Rightarrow> heap \<Rightarrow> ptr \<Rightarrow> 'c litedram \<Rightarrow> 'c litedram option" where
  "litedram_set_wb g h orig s = do {
     let s = check_init g False s;
     (cti, req) \<leftarrow> get_bits h orig 3;
     (bte, req) \<leftarrow> get_bits h req 2;
     (sel, req) \<leftarrow> get_bits h req 4;
     (we, req) \<leftarrow> get_bit h req;
     (stb, req) \<leftarrow> get_bit h req;
     (cyc, req) \<leftarrow> get_bit h req;
     (adr, req) \<leftarrow> get_bits h req 30;
     (dat_w, req) \<leftarrow> get_bits h req 32;
     let s = s\<lparr>v := map_option (\<lambda>c. c\<lparr>wb_ctrl_cti := ucast cti, wb_ctrl_bte := ucast bte, wb_ctrl_sel := ucast sel,
       wb_ctrl_we := we, wb_ctrl_stb := stb, wb_ctrl_cyc := cyc, wb_ctrl_adr := ucast adr, wb_ctrl_dat_w := ucast dat_w\<rparr>) (v s)\<rparr>;
     Some (do_eval g (check_size ''litedram_set_wb'' (req - orig) 74 s))
   }"

definition litedram_get_wb :: "'c verilated \<Rightarrow> heap \<Rightarrow> ptr \<Rightarrow> 'c litedram \<Rightarrow> (heap \<times> 'c litedram) option" where
  "litedram_get_wb g h orig s = do {
     let s = check_init g False s;
     c \<leftarrow> v s;
     (h, req) \<leftarrow> set_bit1 h orig (ucast (init_error c));
     (h, req) \<leftarrow> set_bit1 h req (ucast (init_done c));
     (h, req) \<leftarrow> set_bit1 h req (ucast (wb_ctrl_err c));
     (h, req) \<leftarrow> set_bit1 h req (ucast (wb_ctrl_ack c));
     (h, req) \<leftarrow> set_bits h req (ucast (wb_ctrl_dat_r c)) 32;
     Some (h, check_size ''litedram_get_wb'' (req - orig) 36 s)
   }"

definition litedram_set_user :: "'c verilated \<Rightarrow> heap \<Rightarrow> ptr \<Rightarrow> 'c litedram \<Rightarrow> 'c litedram option" where
  "litedram_set_user g h orig s = do {
     let s = check_init g False s;
     (valid, req) \<leftarrow> get_bit h orig;
     (we, req) \<leftarrow> get_bit h req;
     (wvalid, req) \<leftarrow> get_bit h req;
     (ready, req) \<leftarrow> get_bit h req;
     (addr, req) \<leftarrow> get_bits h req 24;
     (wwe, req) \<leftarrow> get_bits h req 16;
     (d3, req) \<leftarrow> get_bits h req 32;
     (d2, req) \<leftarrow> get_bits h req 32;
     (d1, req) \<leftarrow> get_bits h req 32;
     (d0, req) \<leftarrow> get_bits h req 32;
     let s = s\<lparr>v := map_option (\<lambda>c. c\<lparr>cmd_valid := valid, cmd_we := we, wdata_valid := wvalid, rdata_ready := ready,
       cmd_addr := ucast addr, wdata_we := ucast wwe,
       wdata_data3 := ucast d3, wdata_data2 := ucast d2, wdata_data1 := ucast d1, wdata_data0 := ucast d0\<rparr>) (v s)\<rparr>;
     Some (do_eval g (check_size ''litedram_set_user'' (req - orig) 172 s))
   }"

definition litedram_get_user :: "'c verilated \<Rightarrow> heap \<Rightarrow> ptr \<Rightarrow> 'c litedram \<Rightarrow> (heap \<times> 'c litedram) option" where
  "litedram_get_user g h orig s = do {
     let s = check_init g False s;
     c \<leftarrow> v s;
     (h, req) \<leftarrow> set_bit1 h orig (ucast (cmd_ready c));
     (h, req) \<leftarrow> set_bit1 h req (ucast (wdata_ready c));
     (h, req) \<leftarrow> set_bit1 h req (ucast (rdata_valid c));
     (h, req) \<leftarrow> set_bits h req (ucast (rdata_data3 c)) 32;
     (h, req) \<leftarrow> set_bits h req (ucast (rdata_data2 c)) 32;
     (h, req) \<leftarrow> set_bits h req (ucast (rdata_data1 c)) 32;
     (h, req) \<leftarrow> set_bits h req (ucast (rdata_data0 c)) 32;
     Some (h, check_size ''litedram_get_user'' (req - orig) 131 s)
   }"

definition litedram_clock :: "'c verilated \<Rightarrow> 'c litedram \<Rightarrow> 'c litedram" where
  "litedram_clock g s =
     (let s = check_init g False s;
          s = do_eval g (s\<lparr>v := map_option (clk_update (\<lambda>_. 1)) (v s)\<rparr>)
      in do_eval g (s\<lparr>v := map_option (clk_update (\<lambda>_. 0)) (v s)\<rparr>))"

definition litedram_init :: "'c verilated \<Rightarrow> int \<Rightarrow> 'c litedram \<Rightarrow> 'c litedram" where
  "litedram_init g trace_on s = check_init g (trace_on \<noteq> 0) s"

section \<open>The VHDL that calls them\<close>

text \<open>
  A vector \<open>(n - 1 downto 0)\<close> is passed with its most significant bit first: the vector of a word,
  its element \<open>i\<close>, and its slice from \<open>lo\<close> to \<open>hi\<close>.
\<close>

definition vec :: "'a::len word \<Rightarrow> u8 list" where
  "vec w = map (\<lambda>i. slv_bit (bit w i)) (rev [0..<LENGTH('a)])"

definition vec_at :: "u8 list \<Rightarrow> nat \<Rightarrow> bool" where
  "vec_at xs i \<longleftrightarrow> xs ! (length xs - Suc i) = vhpi1"

definition vec_slice :: "u8 list \<Rightarrow> nat \<Rightarrow> nat \<Rightarrow> 'a::len word" where
  "vec_slice xs hi lo = horner_sum of_bool 2 (map (vec_at xs) [lo..<Suc hi])"

text \<open>The ports of \<open>litedram_core\<close> that are inputs and those that are outputs.\<close>

record in_ports =
  i_cti :: "3 word"
  i_bte :: "2 word"
  i_sel :: "4 word"
  i_we :: bool
  i_stb :: bool
  i_cyc :: bool
  i_adr :: "30 word"
  i_dat_w :: u32
  i_cmd_valid :: bool
  i_cmd_we :: bool
  i_wdata_valid :: bool
  i_rdata_ready :: bool
  i_cmd_addr :: "24 word"
  i_wdata_we :: u16
  i_wdata_data :: "128 word"

record out_ports =
  o_dat_r :: u32
  o_ack :: bool
  o_err :: bool
  o_idone :: bool
  o_ierr :: bool
  o_cmd_ready :: bool
  o_wdata_ready :: bool
  o_rdata_valid :: bool
  o_rdata_data :: "128 word"

definition send_signals :: "'c verilated \<Rightarrow> in_ports \<Rightarrow> 'c litedram \<Rightarrow> 'c litedram option" where
  "send_signals g i s = do {
     s \<leftarrow> litedram_set_wb g (blk (vec (i_cti i) @ vec (i_bte i) @ vec (i_sel i) @ [slv_bit (i_we i)] @ [slv_bit (i_stb i)] @
       [slv_bit (i_cyc i)] @ vec (i_adr i) @ vec (i_dat_w i))) 0 s;
     litedram_set_user g (blk ([slv_bit (i_cmd_valid i)] @ [slv_bit (i_cmd_we i)] @ [slv_bit (i_wdata_valid i)] @
       [slv_bit (i_rdata_ready i)] @ vec (i_cmd_addr i) @ vec (i_wdata_we i) @ vec (i_wdata_data i))) 0 s
   }"

definition recv_signals :: "'c verilated \<Rightarrow> 'c litedram \<Rightarrow> (out_ports \<times> 'c litedram) option" where
  "recv_signals g s = do {
     (h, s) \<leftarrow> litedram_get_wb g (blk (replicate 36 0)) 0 s;
     wb \<leftarrow> load_bytes h 0 36;
     (h, s) \<leftarrow> litedram_get_user g (blk (replicate 131 0)) 0 s;
     ur \<leftarrow> load_bytes h 0 131;
     Some (\<lparr>o_dat_r = vec_slice wb 31 0, o_ack = vec_at wb 32, o_err = vec_at wb 33, o_idone = vec_at wb 34, o_ierr = vec_at wb 35,
       o_cmd_ready = vec_at ur 130, o_wdata_ready = vec_at ur 129, o_rdata_valid = vec_at ur 128, o_rdata_data = vec_slice ur 127 0\<rparr>, s)
   }"

text \<open>The two branches of the process, with what it leaves on the output ports.\<close>

definition poll_rising :: "'c verilated \<Rightarrow> in_ports \<Rightarrow> 'c litedram \<Rightarrow> (out_ports \<times> 'c litedram) option" where
  "poll_rising g i s = do {
     s \<leftarrow> send_signals g i s;
     (_, s) \<leftarrow> recv_signals g s;
     recv_signals g (litedram_clock g s)
   }"

definition poll_falling :: "'c verilated \<Rightarrow> in_ports \<Rightarrow> 'c litedram \<Rightarrow> (out_ports \<times> 'c litedram) option" where
  "poll_falling g i s = do {
     s \<leftarrow> send_signals g i s;
     recv_signals g s
   }"

section \<open>Vectors\<close>

lemma length_vec [simp]: "length (vec (w :: 'a::len word)) = LENGTH('a)"
  by (simp add: vec_def)

lemma get_bit_arr: "arr h p (slv_bit b # xs) \<Longrightarrow> get_bit h p = Some (of_bool b, p + 1)"
  by (simp add: get_bit_def slv_bit_def vhpi0_def vhpi1_def)

lemma get_bits_loop_eq:
  "arr h p (slv n x) \<Longrightarrow> get_bits_loop h p n acc = Some (push_bit n acc OR take_bit n x, p + of_nat n)"
proof (induction n arbitrary: p acc)
  case (Suc n)
  have "get_bit h p = Some (of_bool (bit x n), p + 1)" using Suc.prems by (intro get_bit_arr [of _ _ _ "slv n x"]) simp
  then have "get_bits_loop h p (Suc n) acc = get_bits_loop h (p + 1) n (push_bit 1 acc OR of_bool (bit x n))" by simp
  also have "\<dots> = Some (push_bit (Suc n) acc OR take_bit (Suc n) x, p + 1 + of_nat n)"
    using Suc.prems by (subst Suc.IH) (simp_all only: push_take_Suc slv.simps arr.simps)
  finally show ?case by simp
qed simp

lemma slv_map: "slv n x = map (\<lambda>i. slv_bit (bit x i)) (rev [0..<n])"
  by (induction n) simp_all

lemma vec_slv: "LENGTH('a) \<le> 64 \<Longrightarrow> vec (w :: 'a::len word) = slv LENGTH('a) (ucast w)"
  by (auto simp: vec_def slv_map bit_simps)

lemma get_bits_vec:
  assumes "arr h p (vec (w :: 'a::len word))" "LENGTH('a) \<le> 64"
  shows "get_bits h p LENGTH('a) = Some (ucast w, p + of_nat LENGTH('a))"
proof -
  have "take_bit LENGTH('a) (ucast w :: u64) = ucast w" by (rule bit_word_eqI) (auto simp: bit_simps dest: bit_imp_le_length)
  then show ?thesis
    using assms get_bits_loop_eq [of h p "LENGTH('a)" "ucast w" 0] by (simp add: get_bits_def vec_slv)
qed

lemma map_rev_upt_add: "map f (rev [0..<m + n]) = map (\<lambda>i. f (m + i)) (rev [0..<n]) @ map f (rev [0..<m])"
  by (induction n) simp_all

lemma map_rev_128:
  "map f (rev [0..<128]) = map (\<lambda>i. f (96 + i)) (rev [0..<32]) @ map (\<lambda>i. f (64 + i)) (rev [0..<32]) @
     map (\<lambda>i. f (32 + i)) (rev [0..<32]) @ map f (rev [0..<32])"
  using map_rev_upt_add [of f 96 32] map_rev_upt_add [of f 64 32] map_rev_upt_add [of f 32 32] by simp

lemma vec_128:
  "vec (w :: 128 word) = vec (ucast (drop_bit 96 w) :: u32) @ vec (ucast (drop_bit 64 w) :: u32) @
     vec (ucast (drop_bit 32 w) :: u32) @ vec (ucast w :: u32)"
  using map_rev_128 [of "\<lambda>i. slv_bit (bit w i)"] by (simp add: vec_def bit_simps rev_map [symmetric] cong: map_cong)

lemma set_bits_eq:
  "mapped h p n \<Longrightarrow> n < addr_max \<Longrightarrow> set_bits h p x n = Some (upd_bytes h p (slv n x), p + of_nat n)"
proof (induction n arbitrary: h p)
  case (Suc n)
  obtain b where b: "h p = Some b" using Suc.prems(1) by auto
  have z: "ucast (drop_bit n x AND 1) \<noteq> (0 :: u32) \<longleftrightarrow> bit x n"
    by (simp add: and_one_eq mod_2_eq_odd bit_iff_odd_drop_bit)
  have "set_bits (h(p \<mapsto> slv_bit (bit x n))) (p + 1) x n
      = Some (upd_bytes (h(p \<mapsto> slv_bit (bit x n))) (p + 1) (slv n x), p + 1 + of_nat n)"
    using Suc.prems by (intro Suc.IH) (auto simp: mapped_def)
  with Suc.prems b z show ?case by (simp add: set_bit1_def slv_bit_def upd_bytes_Cons)
qed simp

section \<open>The calls\<close>

text \<open>What the ports mean for the core: its inputs driven from them, and its outputs as ports.\<close>

definition drive_wb :: "in_ports \<Rightarrow> 'c Vlitedram_core \<Rightarrow> 'c Vlitedram_core" where
  "drive_wb i c = c\<lparr>wb_ctrl_cti := ucast (i_cti i), wb_ctrl_bte := ucast (i_bte i), wb_ctrl_sel := ucast (i_sel i),
     wb_ctrl_we := of_bool (i_we i), wb_ctrl_stb := of_bool (i_stb i), wb_ctrl_cyc := of_bool (i_cyc i),
     wb_ctrl_adr := ucast (i_adr i), wb_ctrl_dat_w := i_dat_w i\<rparr>"

definition drive_user :: "in_ports \<Rightarrow> 'c Vlitedram_core \<Rightarrow> 'c Vlitedram_core" where
  "drive_user i c = c\<lparr>cmd_valid := of_bool (i_cmd_valid i), cmd_we := of_bool (i_cmd_we i),
     wdata_valid := of_bool (i_wdata_valid i), rdata_ready := of_bool (i_rdata_ready i),
     cmd_addr := ucast (i_cmd_addr i), wdata_we := i_wdata_we i,
     wdata_data3 := ucast (drop_bit 96 (i_wdata_data i)), wdata_data2 := ucast (drop_bit 64 (i_wdata_data i)),
     wdata_data1 := ucast (drop_bit 32 (i_wdata_data i)), wdata_data0 := ucast (i_wdata_data i)\<rparr>"

definition rdata_word :: "'c Vlitedram_core \<Rightarrow> 128 word" where
  "rdata_word c = ucast (rdata_data0 c) OR push_bit 32 (ucast (rdata_data1 c)) OR
     push_bit 64 (ucast (rdata_data2 c)) OR push_bit 96 (ucast (rdata_data3 c))"

definition core_outs :: "'c Vlitedram_core \<Rightarrow> out_ports" where
  "core_outs c = \<lparr>o_dat_r = wb_ctrl_dat_r c, o_ack = wb_ctrl_ack c \<noteq> 0, o_err = wb_ctrl_err c \<noteq> 0,
     o_idone = init_done c \<noteq> 0, o_ierr = init_error c \<noteq> 0,
     o_cmd_ready = cmd_ready c \<noteq> 0, o_wdata_ready = wdata_ready c \<noteq> 0, o_rdata_valid = rdata_valid c \<noteq> 0,
     o_rdata_data = rdata_word c\<rparr>"

lemma check_init_again [simp]: "v s = Some c \<Longrightarrow> check_init g b s = s"
  by (simp add: check_init_def)

lemma v_check_init: "v (check_init g b s) = Some (case v s of None \<Rightarrow> vl_new g | Some c \<Rightarrow> c)"
  by (simp add: check_init_def Let_def split: option.split)

lemma ucast_via_64 [simp]:
  "ucast (ucast (w :: 3 word) :: u64) = (ucast w :: u8)" "ucast (ucast (w2 :: 2 word) :: u64) = (ucast w2 :: u8)"
  "ucast (ucast (w4 :: 4 word) :: u64) = (ucast w4 :: u8)" "ucast (ucast (w30 :: 30 word) :: u64) = (ucast w30 :: u32)"
  "ucast (ucast (w32 :: u32) :: u64) = w32" "ucast (ucast (w24 :: 24 word) :: u64) = (ucast w24 :: u32)"
  "ucast (ucast (w16 :: u16) :: u64) = w16"
  by (rule bit_word_eqI; auto simp: bit_simps)+

lemma litedram_set_wb_eq:
  assumes "arr h 0 (vec (i_cti i) @ vec (i_bte i) @ vec (i_sel i) @ [slv_bit (i_we i)] @ [slv_bit (i_stb i)] @
       [slv_bit (i_cyc i)] @ vec (i_adr i) @ vec (i_dat_w i))"
  shows "litedram_set_wb g h 0 s =
    (let s = check_init g False s in Some (do_eval g (s\<lparr>v := map_option (drive_wb i) (v s)\<rparr>)))"
proof -
  have "get_bits h 0 3 = Some (ucast (i_cti i), 3)" "get_bits h 3 2 = Some (ucast (i_bte i), 5)"
    "get_bits h 5 4 = Some (ucast (i_sel i), 9)" "get_bits h 12 30 = Some (ucast (i_adr i), 42)"
    "get_bits h 42 32 = Some (ucast (i_dat_w i), 74)"
    using assms get_bits_vec [of h 0 "i_cti i"] get_bits_vec [of h 3 "i_bte i"] get_bits_vec [of h 5 "i_sel i"]
      get_bits_vec [of h 12 "i_adr i"] get_bits_vec [of h 42 "i_dat_w i"]
    by (simp_all add: arr_append)
  moreover have "get_bit h 9 = Some (of_bool (i_we i), 10)" "get_bit h 10 = Some (of_bool (i_stb i), 11)"
    "get_bit h 11 = Some (of_bool (i_cyc i), 12)"
    using assms get_bit_arr [of h 9 "i_we i" "[]"] get_bit_arr [of h 10 "i_stb i" "[]"] get_bit_arr [of h 11 "i_cyc i" "[]"]
    by (simp_all add: arr_append)
  ultimately show ?thesis by (simp add: litedram_set_wb_def check_size_def drive_wb_def [abs_def] Let_def)
qed

lemma litedram_set_user_eq:
  assumes "arr h 0 ([slv_bit (i_cmd_valid i)] @ [slv_bit (i_cmd_we i)] @ [slv_bit (i_wdata_valid i)] @
       [slv_bit (i_rdata_ready i)] @ vec (i_cmd_addr i) @ vec (i_wdata_we i) @ vec (i_wdata_data i))"
  shows "litedram_set_user g h 0 s =
    (let s = check_init g False s in Some (do_eval g (s\<lparr>v := map_option (drive_user i) (v s)\<rparr>)))"
proof -
  let ?d = "i_wdata_data i"
  have "get_bits h 4 24 = Some (ucast (i_cmd_addr i), 28)" "get_bits h 28 16 = Some (ucast (i_wdata_we i), 44)"
    using assms get_bits_vec [of h 4 "i_cmd_addr i"] get_bits_vec [of h 28 "i_wdata_we i"] by (simp_all add: arr_append)
  moreover have "get_bits h 44 32 = Some (ucast (ucast (drop_bit 96 ?d) :: u32), 76)"
    "get_bits h 76 32 = Some (ucast (ucast (drop_bit 64 ?d) :: u32), 108)"
    "get_bits h 108 32 = Some (ucast (ucast (drop_bit 32 ?d) :: u32), 140)" "get_bits h 140 32 = Some (ucast (ucast ?d :: u32), 172)"
    using assms get_bits_vec [of h 44 "ucast (drop_bit 96 ?d) :: u32"] get_bits_vec [of h 76 "ucast (drop_bit 64 ?d) :: u32"]
      get_bits_vec [of h 108 "ucast (drop_bit 32 ?d) :: u32"] get_bits_vec [of h 140 "ucast ?d :: u32"]
    by (simp_all add: arr_append vec_128)
  moreover have "get_bit h 0 = Some (of_bool (i_cmd_valid i), 1)" "get_bit h 1 = Some (of_bool (i_cmd_we i), 2)"
    "get_bit h 2 = Some (of_bool (i_wdata_valid i), 3)" "get_bit h 3 = Some (of_bool (i_rdata_ready i), 4)"
    using assms get_bit_arr [of h 0 "i_cmd_valid i" "[]"] get_bit_arr [of h 1 "i_cmd_we i" "[]"]
      get_bit_arr [of h 2 "i_wdata_valid i" "[]"] get_bit_arr [of h 3 "i_rdata_ready i" "[]"]
    by (simp_all add: arr_append)
  ultimately show ?thesis by (simp add: litedram_set_user_def check_size_def drive_user_def [abs_def] Let_def)
qed

text \<open>Each write appends to what the vector holds already.\<close>

lemma set_bits_acc:
  assumes "mapped h 0 N" "length xs + n \<le> N" "N < addr_max"
  shows "set_bits (upd_bytes h 0 xs) (of_nat (length xs)) x n = Some (upd_bytes h 0 (xs @ slv n x), of_nat (length xs + n))"
proof -
  have "mapped h 0 (length xs + n)" using assms mapped_mono by blast
  then have "mapped (upd_bytes h 0 xs) (of_nat (length xs)) n"
    using assms(2,3) by (intro mapped_upd_bytes) (simp_all add: mapped_add)
  from set_bits_eq [OF this, of x] show ?thesis using assms upd_bytes_append [of xs "slv n x" h 0] by simp
qed

lemma set_bit1_acc:
  assumes "mapped h 0 N" "length xs < N" "N < addr_max"
  shows "set_bit1 (upd_bytes h 0 xs) (of_nat (length xs)) b = Some (upd_bytes h 0 (xs @ [slv_bit (b \<noteq> 0)]), of_nat (length xs) + 1)"
proof -
  have "mapped h 0 (length xs + 1)" using assms mapped_mono [of h 0 N "length xs + 1"] by simp
  then have "mapped h (0 + of_nat (length xs)) 1" unfolding mapped_add by blast
  then have "mapped (upd_bytes h 0 xs) (of_nat (length xs)) 1"
    using assms(2,3) by (intro mapped_upd_bytes) simp_all
  then show ?thesis
    using assms upd_bytes_append [of xs "[slv_bit (b \<noteq> 0)]" h 0]
    by (simp add: set_bit1_def store8_dom upd_bytes_Cons slv_bit_def)
qed

definition wb_bits :: "'c Vlitedram_core \<Rightarrow> u8 list" where
  "wb_bits c = [slv_bit (init_error c \<noteq> 0), slv_bit (init_done c \<noteq> 0), slv_bit (wb_ctrl_err c \<noteq> 0), slv_bit (wb_ctrl_ack c \<noteq> 0)] @
     slv 32 (ucast (wb_ctrl_dat_r c))"

definition user_bits :: "'c Vlitedram_core \<Rightarrow> u8 list" where
  "user_bits c = [slv_bit (cmd_ready c \<noteq> 0), slv_bit (wdata_ready c \<noteq> 0), slv_bit (rdata_valid c \<noteq> 0)] @
     slv 32 (ucast (rdata_data3 c)) @ slv 32 (ucast (rdata_data2 c)) @ slv 32 (ucast (rdata_data1 c)) @ slv 32 (ucast (rdata_data0 c))"

lemma ucast_8_32_0 [simp]: "ucast (x :: u8) = (0 :: u32) \<longleftrightarrow> x = 0"
  by (metis ucast_ucast_8(2) unsigned_0)

lemma litedram_get_wb_eq:
  assumes "mapped h 0 36" "v s = Some c"
  shows "litedram_get_wb g h 0 s = Some (upd_bytes h 0 (wb_bits c), s)"
proof -
  note bit1 = set_bit1_acc [OF assms(1), unfolded addr_max_def]
  let ?b = "\<lambda>x. slv_bit (x \<noteq> (0 :: u8))"
  let ?h = "\<lambda>xs. upd_bytes h 0 xs"
  have "set_bit1 h 0 (ucast (init_error c)) = Some (?h [?b (init_error c)], 1)"
    "set_bit1 (?h [?b (init_error c)]) 1 (ucast (init_done c)) = Some (?h [?b (init_error c), ?b (init_done c)], 2)"
    "set_bit1 (?h [?b (init_error c), ?b (init_done c)]) 2 (ucast (wb_ctrl_err c)) =
      Some (?h [?b (init_error c), ?b (init_done c), ?b (wb_ctrl_err c)], 3)"
    "set_bit1 (?h [?b (init_error c), ?b (init_done c), ?b (wb_ctrl_err c)]) 3 (ucast (wb_ctrl_ack c)) =
      Some (?h [?b (init_error c), ?b (init_done c), ?b (wb_ctrl_err c), ?b (wb_ctrl_ack c)], 4)"
    using bit1 [of "[]"] bit1 [of "[?b (init_error c)]"] bit1 [of "[?b (init_error c), ?b (init_done c)]"]
      bit1 [of "[?b (init_error c), ?b (init_done c), ?b (wb_ctrl_err c)]"]
    by simp_all
  moreover have "set_bits (?h [?b (init_error c), ?b (init_done c), ?b (wb_ctrl_err c), ?b (wb_ctrl_ack c)]) 4
      (ucast (wb_ctrl_dat_r c)) 32 = Some (?h (wb_bits c), 36)"
    using set_bits_acc [OF assms(1), of "[?b (init_error c), ?b (init_done c), ?b (wb_ctrl_err c), ?b (wb_ctrl_ack c)]" 32]
    by (simp add: addr_max_def wb_bits_def)
  ultimately show ?thesis using assms(2) by (simp add: litedram_get_wb_def check_size_def Let_def)
qed

lemma litedram_get_user_eq:
  assumes "mapped h 0 131" "v s = Some c"
  shows "litedram_get_user g h 0 s = Some (upd_bytes h 0 (user_bits c), s)"
proof -
  note bit1 = set_bit1_acc [OF assms(1), unfolded addr_max_def]
  note bits = set_bits_acc [OF assms(1), where n = 32, unfolded addr_max_def]
  let ?h = "\<lambda>xs. upd_bytes h 0 xs"
  define b1 b2 b3 where b: "b1 = slv_bit (cmd_ready c \<noteq> 0)" "b2 = slv_bit (wdata_ready c \<noteq> 0)" "b3 = slv_bit (rdata_valid c \<noteq> 0)"
  define d3 d2 d1 where d: "d3 = slv 32 (ucast (rdata_data3 c))" "d2 = slv 32 (ucast (rdata_data2 c))" "d1 = slv 32 (ucast (rdata_data1 c))"
  have "set_bit1 h 0 (ucast (cmd_ready c)) = Some (?h [b1], 1)"
    "set_bit1 (?h [b1]) 1 (ucast (wdata_ready c)) = Some (?h [b1, b2], 2)"
    "set_bit1 (?h [b1, b2]) 2 (ucast (rdata_valid c)) = Some (?h [b1, b2, b3], 3)"
    using bit1 [of "[]"] bit1 [of "[b1]"] bit1 [of "[b1, b2]"] by (simp_all add: b)
  moreover have "set_bits (?h [b1, b2, b3]) 3 (ucast (rdata_data3 c)) 32 = Some (?h ([b1, b2, b3] @ d3), 35)"
    "set_bits (?h ([b1, b2, b3] @ d3)) 35 (ucast (rdata_data2 c)) 32 = Some (?h ([b1, b2, b3] @ d3 @ d2), 67)"
    "set_bits (?h ([b1, b2, b3] @ d3 @ d2)) 67 (ucast (rdata_data1 c)) 32 = Some (?h ([b1, b2, b3] @ d3 @ d2 @ d1), 99)"
    "set_bits (?h ([b1, b2, b3] @ d3 @ d2 @ d1)) 99 (ucast (rdata_data0 c)) 32 = Some (?h (user_bits c), 131)"
    using bits [of "[b1, b2, b3]"] bits [of "[b1, b2, b3] @ d3"] bits [of "[b1, b2, b3] @ d3 @ d2"] bits [of "[b1, b2, b3] @ d3 @ d2 @ d1"]
    by (simp_all add: d user_bits_def flip: b)
  ultimately show ?thesis using assms(2) by (simp add: litedram_get_user_def check_size_def Let_def)
qed

text \<open>The response vectors as ports.\<close>

lemma vec_at_append: "i < length ys \<Longrightarrow> vec_at (xs @ ys) i = vec_at ys i"
  using nth_append_length_plus [of xs ys "length ys - Suc i"] by (simp add: vec_at_def)

lemma vec_at_Cons: "vec_at (slv_bit b # ys) (length ys) = b"
  by (simp add: vec_at_def slv_bit_def vhpi0_def vhpi1_def)

lemma vec_at_slv: "i < n \<Longrightarrow> vec_at (slv n x) i = bit x i"
  by (simp add: vec_at_def slv_map rev_nth slv_bit_def vhpi0_def vhpi1_def)

lemma vec_at_vec: "i < LENGTH('a) \<Longrightarrow> vec_at (vec (w :: 'a::len word)) i = bit w i"
  by (simp add: vec_at_def vec_def rev_nth slv_bit_def vhpi0_def vhpi1_def)

lemma vec_slice_vec:
  "LENGTH('a) = Suc hi \<Longrightarrow> vec_slice (xs @ vec (w :: 'a::len word)) hi 0 = w"
  by (rule bit_word_eqI) (auto simp: vec_slice_def bit_horner_sum_bit_word_iff vec_at_append vec_at_vec nth_append simp del: upt_Suc)

lemma rdata_word_parts:
  "ucast (drop_bit 96 (rdata_word c)) = rdata_data3 c" "ucast (drop_bit 64 (rdata_word c)) = rdata_data2 c"
  "ucast (drop_bit 32 (rdata_word c)) = rdata_data1 c" "ucast (rdata_word c) = rdata_data0 c"
  unfolding rdata_word_def by (rule bit_word_eqI; auto simp: bit_simps dest: bit_imp_le_length)+

lemma wb_bits_vec:
  "wb_bits c = [slv_bit (init_error c \<noteq> 0), slv_bit (init_done c \<noteq> 0), slv_bit (wb_ctrl_err c \<noteq> 0), slv_bit (wb_ctrl_ack c \<noteq> 0)] @
     vec (wb_ctrl_dat_r c)"
  by (simp add: wb_bits_def vec_slv)

lemma user_bits_vec:
  "user_bits c = [slv_bit (cmd_ready c \<noteq> 0), slv_bit (wdata_ready c \<noteq> 0), slv_bit (rdata_valid c \<noteq> 0)] @ vec (rdata_word c)"
  by (simp add: user_bits_def vec_128 rdata_word_parts vec_slv)

lemma wb_ports:
  "vec_slice (wb_bits c) 31 0 = wb_ctrl_dat_r c" "vec_at (wb_bits c) 32 = (wb_ctrl_ack c \<noteq> 0)"
  "vec_at (wb_bits c) 33 = (wb_ctrl_err c \<noteq> 0)" "vec_at (wb_bits c) 34 = (init_done c \<noteq> 0)" "vec_at (wb_bits c) 35 = (init_error c \<noteq> 0)"
  unfolding wb_bits_vec
  by (simp add: vec_slice_vec del: append_Cons, simp_all add: vec_at_def slv_bit_def vhpi0_def vhpi1_def)

lemma user_ports:
  "vec_slice (user_bits c) 127 0 = rdata_word c" "vec_at (user_bits c) 128 = (rdata_valid c \<noteq> 0)"
  "vec_at (user_bits c) 129 = (wdata_ready c \<noteq> 0)" "vec_at (user_bits c) 130 = (cmd_ready c \<noteq> 0)"
  unfolding user_bits_vec
  by (simp add: vec_slice_vec del: append_Cons, simp_all add: vec_at_def slv_bit_def vhpi0_def vhpi1_def)

lemma recv_signals_eq: "v s = Some c \<Longrightarrow> recv_signals g s = Some (core_outs c, s)"
proof -
  assume v: "v s = Some c"
  have m: "mapped (blk (replicate n 0)) 0 n" if "n \<le> addr_max" for n
    using arr_mapped [OF arr_blk, of "replicate n 0"] that by simp
  have l: "length (wb_bits c) = 36" "length (user_bits c) = 131" by (simp_all add: wb_bits_def user_bits_def)
  have "load_bytes (upd_bytes h 0 (wb_bits c)) 0 36 = Some (wb_bits c)" "load_bytes (upd_bytes h 0 (user_bits c)) 0 131 = Some (user_bits c)" for h
    using arr_upd_bytes [of "wb_bits c" h 0] arr_upd_bytes [of "user_bits c" h 0] l by (simp_all add: load_bytes_arr addr_max_def)
  then show ?thesis
    using litedram_get_wb_eq [OF m v, of g] litedram_get_user_eq [OF m v, of g]
    by (simp add: recv_signals_def addr_max_def core_outs_def wb_ports user_ports)
qed

lemma send_signals_eq:
  "send_signals g i s =
    (let s = check_init g False s;
         s = do_eval g (s\<lparr>v := map_option (drive_wb i) (v s)\<rparr>)
     in Some (do_eval g (s\<lparr>v := map_option (drive_user i) (v s)\<rparr>)))"
proof -
  let ?d = "do_eval g (check_init g False s\<lparr>v := map_option (drive_wb i) (v (check_init g False s))\<rparr>)"
  have "check_init g False ?d = ?d" by (rule check_init_again) (simp add: do_eval_def v_check_init)
  then show ?thesis
    unfolding send_signals_def
    by (subst litedram_set_wb_eq [OF arr_blk], simp add: addr_max_def, simp only: Let_def Option.bind.bind_lunit,
        subst litedram_set_user_eq [OF arr_blk], simp add: addr_max_def, simp add: Let_def)
qed

section \<open>An edge of the clock\<close>

definition core_settle :: "'c verilated \<Rightarrow> in_ports \<Rightarrow> 'c Vlitedram_core \<Rightarrow> 'c Vlitedram_core" where
  "core_settle g i c = vl_eval g (drive_user i (vl_eval g (drive_wb i c)))"

definition core_cycle :: "'c verilated \<Rightarrow> 'c Vlitedram_core \<Rightarrow> 'c Vlitedram_core" where
  "core_cycle g c = vl_eval g ((vl_eval g (c\<lparr>clk := 1\<rparr>))\<lparr>clk := 0\<rparr>)"

definition after_evals :: "'c verilated \<Rightarrow> nat \<Rightarrow> 'c Vlitedram_core \<Rightarrow> 'c litedram \<Rightarrow> 'c litedram" where
  "after_evals g n c s = s\<lparr>v := Some c, main_time := main_time s + of_nat n,
     tfp := (if vl_trace g then map_option (\<lambda>ts. ts @ map (\<lambda>k. main_time s + of_nat k) [0..<n]) (tfp s) else tfp s)\<rparr>"

lemma upt_2_4: "[0..<2] = [0, 1]" "[0..<4] = [0, 1, 2, 3]"
  by (simp_all add: upt_rec)

text \<open>The core a call works on: the one that is there, or a new one.\<close>

definition the_core :: "'c verilated \<Rightarrow> 'c litedram \<Rightarrow> 'c Vlitedram_core" where
  "the_core g s = (case v s of None \<Rightarrow> vl_new g | Some c \<Rightarrow> c)"

lemma send_signals_evals:
  "send_signals g i s = Some (after_evals g 2 (core_settle g i (the_core g s)) (check_init g False s))"
proof -
  define d where "d = check_init g False s"
  have "v d = Some (the_core g s)" by (simp add: d_def v_check_init the_core_def)
  then show ?thesis
    unfolding send_signals_eq d_def [symmetric] Let_def
    by (intro arg_cong [where f = Some] litedram.equality)
      (simp_all add: do_eval_def core_settle_def after_evals_def upt_2_4 option.map_comp o_def)
qed

lemma litedram_clock_evals: "litedram_clock g (after_evals g 2 c d) = after_evals g 4 (core_cycle g c) d"
proof -
  have "check_init g False (after_evals g 2 c d) = after_evals g 2 c d"
    by (rule check_init_again) (simp add: after_evals_def)
  then show ?thesis
    unfolding litedram_clock_def Let_def
    by (intro litedram.equality) (simp_all add: after_evals_def do_eval_def core_cycle_def upt_2_4 option.map_comp o_def add.assoc)
qed

text \<open>
  C22. An edge of the user clock, seen from the VHDL: every input port reaches the input of the core of the same name,
  a rising edge gives the core exactly one cycle of its own clock, the output ports are the outputs of the core after
  that, no call finds a vector of the wrong size, and a trace has one entry per evaluation.
\<close>

theorem litedram_edges:
  "poll_rising g i s = (let c = core_cycle g (core_settle g i (the_core g s))
     in Some (core_outs c, after_evals g 4 c (check_init g False s))) \<and>
   poll_falling g i s = (let c = core_settle g i (the_core g s)
     in Some (core_outs c, after_evals g 2 c (check_init g False s)))"
proof -
  have "recv_signals g (after_evals g n c d) = Some (core_outs c, after_evals g n c d)" for n c d
    by (rule recv_signals_eq) (simp add: after_evals_def)
  then show ?thesis by (simp add: poll_rising_def poll_falling_def send_signals_evals litedram_clock_evals Let_def)
qed

end
