(* ===== verification/Mw_Sim.thy ===== *)
theory Mw_Sim
  imports Sim_Jtag
begin

text \<open>
  The simulation backend of \<^verbatim>\<open>scripts/mw_debug/mw_debug.c\<close>: packing the fields of a debug
  request into bytes, unpacking a response, and one exchange over the socket.

  The socket is the record \<open>net\<close> of the two calls the code makes on it: \<open>net_write\<close> returns
  the result of \<open>write\<close>, \<open>net_read\<close> the bytes \<open>read\<close> has stored (none when it fails) or \<open>None\<close>
  when it never returns. A backend command returns its status and, when it was given a
  place for data, the data.
\<close>

section \<open>Definitions\<close>

record 's net =
  net_write :: "u8 list \<Rightarrow> 's \<Rightarrow> int \<times> 's"
  net_read :: "nat \<Rightarrow> 's \<Rightarrow> (u8 list \<times> 's) option"

primrec add_bits_loop :: "u8 list \<Rightarrow> nat \<Rightarrow> nat \<Rightarrow> u8 \<Rightarrow> u64 \<Rightarrow> u64 \<Rightarrow> nat \<Rightarrow> (u8 list \<times> nat \<times> nat) option" where
  "add_bits_loop buf p b md ms d 0 = Some (buf, p, b)"
| "add_bits_loop buf p b md ms d (Suc c) = do {
     buf' \<leftarrow> (if d AND ms \<noteq> 0 then if p < length buf then Some (buf[p := buf ! p OR md]) else None else Some buf);
     if b = 7 then add_bits_loop buf' (p + 1) 0 1 (push_bit 1 ms) d c
     else add_bits_loop buf' p (b + 1) (push_bit 1 md) (push_bit 1 ms) d c
   }"

definition add_bits :: "u8 list \<Rightarrow> nat \<Rightarrow> nat \<Rightarrow> u64 \<Rightarrow> nat \<Rightarrow> (u8 list \<times> nat \<times> nat) option" where
  "add_bits buf p b d c = add_bits_loop buf p b (push_bit b 1) 1 d c"

primrec read_bits_loop :: "u8 list \<Rightarrow> nat \<Rightarrow> nat \<Rightarrow> u8 \<Rightarrow> u64 \<Rightarrow> u64 \<Rightarrow> nat \<Rightarrow> (u64 \<times> nat \<times> nat) option" where
  "read_bits_loop buf p b ms md d 0 = Some (d, p, b)"
| "read_bits_loop buf p b ms md d (Suc c) =
     (if p < length buf then
        let d' = (if buf ! p AND ms \<noteq> 0 then d OR md else d) in
        if b = 7 then read_bits_loop buf (p + 1) 0 1 (push_bit 1 md) d' c
        else read_bits_loop buf p (b + 1) (push_bit 1 ms) (push_bit 1 md) d' c
      else None)"

definition read_bits :: "u8 list \<Rightarrow> nat \<Rightarrow> nat \<Rightarrow> nat \<Rightarrow> (u64 \<times> nat \<times> nat) option" where
  "read_bits buf p b c = read_bits_loop buf p b (push_bit b 1) 1 0 c"

definition sim_request :: "u8 \<Rightarrow> u8 \<Rightarrow> u64 \<Rightarrow> (u8 list \<times> nat) option" where
  "sim_request op addr d = do {
     (buf1, p1, b1) \<leftarrow> add_bits (replicate 16 0) 1 0 (ucast op) 2;
     (buf2, p2, b2) \<leftarrow> add_bits buf1 p1 b1 d 64;
     (buf3, p3, b3) \<leftarrow> add_bits buf2 p2 b2 (ucast addr) 8;
     Some (buf3[0 := 74], if b3 \<noteq> 0 then p3 + 1 else p3)
   }"

definition sim_command :: "('s, 'e) net_scheme \<Rightarrow> u8 \<Rightarrow> u8 \<Rightarrow> u64 option \<Rightarrow> 's \<Rightarrow> ((int \<times> u64 option) \<times> 's) option" where
  "sim_command net op addr data s = do {
     let d = (case data of None \<Rightarrow> 0 | Some v \<Rightarrow> v);
     (buf, p) \<leftarrow> sim_request op addr d;
     let (r, s1) = net_write net (take p buf) s;
     if r < 0 then Some ((- 1, data), s1)
     else do {
       (got, s2) \<leftarrow> net_read net 16 s1;
       let buf1 = got @ drop (length got) buf;
       (r2, p1, b1) \<leftarrow> read_bits buf1 1 0 2;
       case data of
         None \<Rightarrow> Some ((uint r2, None), s2)
       | Some _ \<Rightarrow> do {
           (v, _, _) \<leftarrow> read_bits buf1 p1 b1 64;
           Some ((uint r2, Some v), s2)
         }
     }
   }"

definition sim_reset :: "'s \<Rightarrow> int \<times> 's" where
  "sim_reset s = (0, s)"

section \<open>Packing and unpacking\<close>

lemma and_bit_nonzero: "d AND push_bit k 1 \<noteq> 0 \<longleftrightarrow> bit d k" for d :: "'a :: len word"
proof -
  have "d AND push_bit k 1 = (if bit d k then push_bit k 1 else 0)"
    by (rule bit_word_eqI) (auto simp: bit_simps)
  moreover have "bit d k \<Longrightarrow> push_bit k (1 :: 'a word) \<noteq> 0"
    using bit_imp_le_length [of d k] by (metis bit_1_0 bit_push_bit_iff bit_0_eq bot_apply bot_bool_def diff_self_eq_0 impossible_bit le_refl linorder_not_le)
  ultimately show ?thesis by simp
qed

lemma push_bit_Suc_1: "push_bit (Suc 0) (push_bit n 1) = push_bit (Suc n) (1 :: 'a :: len word)"
  by (simp add: push_bit_push_bit del: push_bit_of_1)

lemma bufbit_update:
  assumes "p < length buf" "b < 8"
  shows "bufbit (buf[p := buf ! p OR push_bit b 1]) j \<longleftrightarrow> bufbit buf j \<or> j = 8 * p + b"
proof (cases "j div 8 = p")
  case True
  then have "j mod 8 = b \<longleftrightarrow> j = 8 * p + b" using assms(2) by presburger
  then show ?thesis using True assms by (auto simp: bufbit_def bit_simps)
next
  case False
  then have "j \<noteq> 8 * p + b" using assms(2) by auto
  then show ?thesis using False by (simp add: bufbit_def)
qed

lemma add_bits_loop_Suc:
  assumes "p < length buf"
  shows "add_bits_loop buf p b (push_bit b 1) (push_bit k 1) d (Suc c) =
    add_bits_loop (if bit d k then buf[p := buf ! p OR push_bit b 1] else buf) (if b = 7 then p + 1 else p)
      (if b = 7 then 0 else b + 1) (push_bit (if b = 7 then 0 else b + 1) 1) (push_bit (Suc k) 1) d c"
  using assms
  by (cases "b = 7"; cases "bit d k") (simp_all add: and_bit_nonzero push_bit_Suc_1 del: push_bit_of_1)

lemma read_bits_loop_Suc:
  assumes "p < length buf"
  shows "read_bits_loop buf p b (push_bit b 1) (push_bit k 1) d (Suc c) =
    read_bits_loop buf (if b = 7 then p + 1 else p) (if b = 7 then 0 else b + 1) (push_bit (if b = 7 then 0 else b + 1) 1)
      (push_bit (Suc k) 1) (if bit (buf ! p) b then d OR push_bit k 1 else d) c"
  using assms
  by (cases "b = 7"; cases "bit (buf ! p) b") (simp_all add: and_bit_nonzero push_bit_Suc_1 del: push_bit_of_1)

lemma add_bits_loop_eq:
  "b < 8 \<Longrightarrow> 8 * p + b + c \<le> 8 * length buf \<Longrightarrow>
   \<exists>buf'. add_bits_loop buf p b (push_bit b 1) (push_bit k 1) d c = Some (buf', (8 * p + b + c) div 8, (8 * p + b + c) mod 8) \<and>
     length buf' = length buf \<and>
     (\<forall>j. bufbit buf' j \<longleftrightarrow> bufbit buf j \<or> 8 * p + b \<le> j \<and> j < 8 * p + b + c \<and> bit d (k + (j - (8 * p + b))))"
proof (induction c arbitrary: buf p b k)
  case 0
  then show ?case by auto
next
  case (Suc c)
  have p: "p < length buf" using Suc.prems by auto
  define buf1 where "buf1 = (if bit d k then buf[p := buf ! p OR push_bit b 1] else buf)"
  have l: "length buf1 = length buf" by (simp add: buf1_def)
  have bits: "bufbit buf1 j \<longleftrightarrow> bufbit buf j \<or> j = 8 * p + b \<and> bit d k" for j
    using bufbit_update [OF p Suc.prems(1)] by (auto simp: buf1_def)
  obtain p' b' where pb: "p' = (if b = 7 then p + 1 else p)" "b' = (if b = 7 then 0 else b + 1)" by blast
  have pos: "8 * p' + b' = Suc (8 * p + b)" "b' < 8" using Suc.prems(1) by (auto simp: pb)
  have "add_bits_loop buf p b (push_bit b 1) (push_bit k 1) d (Suc c) =
      add_bits_loop buf1 p' b' (push_bit b' 1) (push_bit (Suc k) 1) d c"
    unfolding pb buf1_def by (rule add_bits_loop_Suc [OF p])
  moreover have le: "8 * p' + b' + c \<le> 8 * length buf1" using Suc.prems(2) by (simp add: pos(1) l)
  have e: "Suc (8 * p + b) + c = 8 * p + b + Suc c" by simp
  from Suc.IH [OF pos(2) le, of "Suc k"] obtain buf' where
    1: "add_bits_loop buf1 p' b' (push_bit b' 1) (push_bit (Suc k) 1) d c =
        Some (buf', (8 * p + b + Suc c) div 8, (8 * p + b + Suc c) mod 8)" "length buf' = length buf"
      "\<And>j. bufbit buf' j \<longleftrightarrow> bufbit buf1 j \<or> Suc (8 * p + b) \<le> j \<and> j < 8 * p + b + Suc c \<and>
        bit d (Suc k + (j - Suc (8 * p + b)))" unfolding e l pos(1) by blast
  have "bufbit buf' j \<longleftrightarrow> bufbit buf j \<or> 8 * p + b \<le> j \<and> j < 8 * p + b + Suc c \<and> bit d (k + (j - (8 * p + b)))" for j
  proof (cases "Suc (8 * p + b) \<le> j")
    case True
    then have "Suc k + (j - Suc (8 * p + b)) = k + (j - (8 * p + b))" "j \<noteq> 8 * p + b" by simp_all
    with True show ?thesis unfolding 1(3) bits by auto
  next
    case False
    then show ?thesis unfolding 1(3) bits by (cases "j = 8 * p + b") simp_all
  qed
  with 1 calculation show ?case by simp
qed

lemma read_bits_loop_eq:
  "b < 8 \<Longrightarrow> 8 * p + b + c \<le> 8 * length buf \<Longrightarrow> k + c \<le> 64 \<Longrightarrow>
   \<exists>v. read_bits_loop buf p b (push_bit b 1) (push_bit k 1) d c = Some (v, (8 * p + b + c) div 8, (8 * p + b + c) mod 8) \<and>
     (\<forall>n. bit v n \<longleftrightarrow> bit d n \<or> k \<le> n \<and> n < k + c \<and> bufbit buf (8 * p + b + (n - k)))"
proof (induction c arbitrary: p b k d)
  case 0
  then show ?case by auto
next
  case (Suc c)
  have p: "p < length buf" using Suc.prems by auto
  define d1 where "d1 = (if bit (buf ! p) b then d OR push_bit k 1 else d)"
  have bb: "bufbit buf (8 * p + b) = bit (buf ! p) b" using Suc.prems(1) by (simp add: bufbit_def)
  have bits: "bit d1 n \<longleftrightarrow> bit d n \<or> n = k \<and> bufbit buf (8 * p + b)" for n
    using Suc.prems(3) by (auto simp: d1_def bb bit_simps)
  obtain p' b' where pb: "p' = (if b = 7 then p + 1 else p)" "b' = (if b = 7 then 0 else b + 1)" by blast
  have pos: "8 * p' + b' = Suc (8 * p + b)" "b' < 8" using Suc.prems(1) by (auto simp: pb)
  have "read_bits_loop buf p b (push_bit b 1) (push_bit k 1) d (Suc c) =
      read_bits_loop buf p' b' (push_bit b' 1) (push_bit (Suc k) 1) d1 c"
    unfolding pb d1_def by (rule read_bits_loop_Suc [OF p])
  moreover have le: "8 * p' + b' + c \<le> 8 * length buf" "Suc k + c \<le> 64" using Suc.prems(2,3) by (simp_all add: pos(1))
  have e: "Suc (8 * p + b) + c = 8 * p + b + Suc c" by simp
  from Suc.IH [OF pos(2) le, of d1] obtain v where
    1: "read_bits_loop buf p' b' (push_bit b' 1) (push_bit (Suc k) 1) d1 c =
        Some (v, (8 * p + b + Suc c) div 8, (8 * p + b + Suc c) mod 8)"
      "\<And>n. bit v n \<longleftrightarrow> bit d1 n \<or> Suc k \<le> n \<and> n < Suc k + c \<and> bufbit buf (Suc (8 * p + b) + (n - Suc k))"
    unfolding e pos(1) by blast
  have "bit v n \<longleftrightarrow> bit d n \<or> k \<le> n \<and> n < k + Suc c \<and> bufbit buf (8 * p + b + (n - k))" for n
  proof (cases "Suc k \<le> n")
    case True
    then have "Suc (8 * p + b) + (n - Suc k) = 8 * p + b + (n - k)" "n \<noteq> k" by simp_all
    with True show ?thesis unfolding 1(2) bits by auto
  next
    case False
    then show ?thesis unfolding 1(2) bits by (cases "n = k") simp_all
  qed
  with 1 calculation show ?case by simp
qed

section \<open>Requests and responses\<close>

text \<open>The 74 bits of a request: the operation, the data and the address.\<close>

definition dmi_req :: "u8 \<Rightarrow> u64 \<Rightarrow> u8 \<Rightarrow> 74 word" where
  "dmi_req op d addr = take_bit 2 (ucast op) OR push_bit 2 (ucast d) OR push_bit 66 (ucast addr)"

lemma bit_dmi_req:
  "bit (dmi_req op d addr) n \<longleftrightarrow> n < 74 \<and> (if n < 2 then bit op n else if n < 66 then bit d (n - 2) else bit addr (n - 66))"
  by (auto simp: dmi_req_def bit_simps dest: bit_imp_le_length)

lemma bufbit_zero: "j < 8 * n \<Longrightarrow> \<not> bufbit (replicate n 0) j"
  by (simp add: bufbit_def div_less_iff_less_mult)

lemma sim_request_eq:
  "\<exists>payload. length payload = 15 \<and> sim_request op addr d = Some (74 # payload, 11) \<and>
     (\<forall>j < 74. bufbit payload j = bit (dmi_req op d addr) j)"
proof -
  let ?z = "replicate 16 (0 :: u8)"
  from add_bits_loop_eq [of 0 1 2 ?z 0 "ucast op"] obtain b1 where
    1: "add_bits ?z 1 0 (ucast op) 2 = Some (b1, 1, 2)" "length b1 = 16"
      "\<And>j. bufbit b1 j \<longleftrightarrow> bufbit ?z j \<or> 8 \<le> j \<and> j < 10 \<and> bit (ucast op :: u64) (j - 8)"
    by (auto simp: add_bits_def)
  from add_bits_loop_eq [of 2 1 64 b1 0 d] 1(2) obtain b2 where
    2: "add_bits b1 1 2 d 64 = Some (b2, 9, 2)" "length b2 = 16"
      "\<And>j. bufbit b2 j \<longleftrightarrow> bufbit b1 j \<or> 10 \<le> j \<and> j < 74 \<and> bit d (j - 10)"
    by (auto simp: add_bits_def)
  from add_bits_loop_eq [of 2 9 8 b2 0 "ucast addr"] 2(2) obtain b3 where
    3: "add_bits b2 9 2 (ucast addr) 8 = Some (b3, 10, 2)" "length b3 = 16"
      "\<And>j. bufbit b3 j \<longleftrightarrow> bufbit b2 j \<or> 74 \<le> j \<and> j < 82 \<and> bit (ucast addr :: u64) (j - 74)"
    by (auto simp: add_bits_def)
  have l: "b3[0 := 74] = 74 # tl b3" using 3(2) by (cases b3) auto
  have "bufbit (tl b3) j = bit (dmi_req op d addr) j" if "j < 74" for j
  proof -
    have "bufbit (tl b3) j = bufbit b3 (j + 8)" using bufbit_Cons [of "hd b3" "tl b3" j] 3(2) by (cases b3) auto
    then show ?thesis
      using that bufbit_zero [of "j + 8" 16] by (auto simp: 1(3) 2(3) 3(3) bit_dmi_req bit_simps dest: bit_imp_le_length)
  qed
  then show ?thesis using 1 2 3 l by (intro exI [of _ "tl b3"]) (simp add: sim_request_def)
qed

text \<open>The status and the data of a response.\<close>

definition dmi_status :: "74 word \<Rightarrow> u64" where
  "dmi_status rsp = take_bit 2 (ucast rsp)"

definition dmi_data :: "74 word \<Rightarrow> u64" where
  "dmi_data rsp = ucast (drop_bit 2 rsp)"

lemma bufbit_take: "j < 8 * n \<Longrightarrow> bufbit (take n xs) j = bufbit xs j"
  by (simp add: bufbit_def div_less_iff_less_mult mult.commute)

lemma bufbit_append: "j < 8 * length xs \<Longrightarrow> bufbit (xs @ ys) j = bufbit xs j"
  by (simp add: bufbit_def div_less_iff_less_mult mult.commute nth_append)

lemma read_bits_eq:
  assumes "b < 8" "8 * p + b + c \<le> 8 * length buf" "c \<le> 64"
    and "\<And>n. bit v n \<longleftrightarrow> n < c \<and> bufbit buf (8 * p + b + n)"
  shows "read_bits buf p b c = Some (v, (8 * p + b + c) div 8, (8 * p + b + c) mod 8)"
proof -
  from read_bits_loop_eq [OF assms(1,2), of 0 0] assms(3) obtain w where
    w: "read_bits buf p b c = Some (w, (8 * p + b + c) div 8, (8 * p + b + c) mod 8)"
      "\<And>n. bit w n \<longleftrightarrow> n < c \<and> bufbit buf (8 * p + b + n)" by (auto simp: read_bits_def)
  have "w = v" by (rule bit_word_eqI) (simp add: w(2) assms(4))
  with w show ?thesis by simp
qed

lemma sim_command_eq:
  obtains payload where "length payload = 10" "\<And>j. j < 74 \<Longrightarrow> bufbit payload j = bit (dmi_req op (case data of None \<Rightarrow> 0 | Some v \<Rightarrow> v) addr) j"
    "\<And>r s1. net_write net (74 # payload) s = (r, s1) \<Longrightarrow> r < 0 \<Longrightarrow> sim_command net op addr data s = Some ((- 1, data), s1)"
    "\<And>r s1 got s2 rsp. net_write net (74 # payload) s = (r, s1) \<Longrightarrow> 0 \<le> r \<Longrightarrow> net_read net 16 s1 = Some (got, s2) \<Longrightarrow>
      10 \<le> length got \<Longrightarrow> length got \<le> 16 \<Longrightarrow> (\<And>j. j < 66 \<Longrightarrow> bufbit (tl got) j = bit rsp j) \<Longrightarrow>
      sim_command net op addr data s = Some ((uint (dmi_status rsp), map_option (\<lambda>_. dmi_data rsp) data), s2)"
proof -
  let ?d = "case data of None \<Rightarrow> 0 | Some v \<Rightarrow> v"
  from sim_request_eq [of op addr ?d] obtain pl where
    pl: "length pl = 15" "sim_request op addr ?d = Some (74 # pl, 11)" "\<And>j. j < 74 \<Longrightarrow> bufbit pl j = bit (dmi_req op ?d addr) j" by blast
  let ?p = "take 10 pl"
  have tk: "take 11 (74 # pl) = 74 # ?p" by simp
  have cmd: "sim_command net op addr data s = Some ((uint (dmi_status rsp), map_option (\<lambda>_. dmi_data rsp) data), s2)"
    if "net_write net (74 # ?p) s = (r, s1)" "0 \<le> r" "net_read net 16 s1 = Some (got, s2)" "10 \<le> length got" "length got \<le> 16"
      and bits: "\<And>j. j < 66 \<Longrightarrow> bufbit (tl got) j = bit rsp j" for r s1 got s2 and rsp :: "74 word"
  proof -
    let ?buf = "got @ drop (length got) (74 # pl)"
    have len: "length ?buf = 16" using that(5) pl(1) by simp
    have b: "bufbit ?buf (8 + j) = bit rsp j" if "j < 66" for j
      using bits [OF that] bufbit_append [of "8 + j" got] bufbit_Cons [of "hd got" "tl got" j] that \<open>10 \<le> length got\<close>
      by (cases got) (auto simp: add.commute)
    have st: "bit (dmi_status rsp) n \<longleftrightarrow> n < 2 \<and> bufbit ?buf (8 * 1 + 0 + n)" for n
      using b [of n] by (cases "n < 2") (auto simp: dmi_status_def bit_simps)
    have dt: "bit (dmi_data rsp) n \<longleftrightarrow> n < 64 \<and> bufbit ?buf (8 * 1 + 2 + n)" for n
      using b [of "n + 2"] by (cases "n < 64") (auto simp: dmi_data_def bit_simps add.commute)
    have 1: "read_bits ?buf 1 0 2 = Some (dmi_status rsp, 1, 2)"
      using read_bits_eq [of 0 1 2 ?buf, OF _ _ _ st] len by simp
    have 2: "read_bits ?buf 1 2 64 = Some (dmi_data rsp, 9, 2)"
      using read_bits_eq [of 2 1 64 ?buf, OF _ _ _ dt] len by simp
    show ?thesis
      using that 1 2 pl(2) by (simp add: sim_command_def tk split: option.split)
  qed
  show ?thesis
  proof (rule that [of ?p])
    show "sim_command net op addr data s = Some ((- 1, data), s1)" if "net_write net (74 # ?p) s = (r, s1)" "r < 0" for r s1
      using that pl(2) by (simp add: sim_command_def tk)
  qed (use pl bufbit_take [of _ 10 pl] cmd in auto)
qed

end
