(* ===== verification/Mw_Debug.thy ===== *)
theory Mw_Debug
  imports Mw_Sim "HOL-Library.Char_ord"
begin

text \<open>
  \<^verbatim>\<open>scripts/mw_debug/mw_debug.c\<close>: the debugger on the host. Every function runs over an
  arbitrary backend command and threads the record \<open>tool\<close>: the state of the backend, the
  globals \<open>core\<close> and \<open>debug\<close>, what has been printed, the files of the host and which names can
  be opened for writing. \<open>t_junk\<close> is the value of a local variable that is used before it is
  set.

  A function that can call \<open>exit\<close> has an outcome of type \<open>sim\<close>; waiting for an answer that
  never comes is \<open>None\<close>. A full disk is not modelled, and the options are what \<open>getopt_long\<close>
  has delivered: pairs of an option character and its argument, and the remaining words of
  the command line.
\<close>

section \<open>Text\<close>

definition nl :: string where "nl = [CHR 0x0A]"

definition hexdigit :: "nat \<Rightarrow> char" where
  "hexdigit n = ''0123456789abcdef'' ! n"

fun hexnat :: "nat \<Rightarrow> string" where
  "hexnat n = (if n < 16 then [hexdigit n] else hexnat (n div 16) @ [hexdigit (n mod 16)])"

fun decnat :: "nat \<Rightarrow> string" where
  "decnat n = (if n < 10 then [hexdigit n] else decnat (n div 10) @ [hexdigit (n mod 10)])"

declare hexnat.simps [simp del] decnat.simps [simp del]

definition hex0 :: "nat \<Rightarrow> u64 \<Rightarrow> string" where
  "hex0 w v = (let s = hexnat (unat v) in replicate (w - length s) CHR ''0'' @ s)"

definition is_digit :: "char \<Rightarrow> bool" where
  "is_digit c \<longleftrightarrow> CHR ''0'' \<le> c \<and> c \<le> CHR ''9''"

definition is_xdigit :: "char \<Rightarrow> bool" where
  "is_xdigit c \<longleftrightarrow> is_digit c \<or> CHR ''a'' \<le> c \<and> c \<le> CHR ''f'' \<or> CHR ''A'' \<le> c \<and> c \<le> CHR ''F''"

definition digit_val :: "char \<Rightarrow> nat" where
  "digit_val c =
     (if is_digit c then of_char c - 48
      else if CHR ''a'' \<le> c \<and> c \<le> CHR ''z'' then of_char c - 87
      else if CHR ''A'' \<le> c \<and> c \<le> CHR ''Z'' then of_char c - 55
      else 36)"

definition is_space :: "char \<Rightarrow> bool" where
  "is_space c \<longleftrightarrow> c \<in> set [CHR '' '', CHR 0x09, CHR 0x0A, CHR 0x0B, CHR 0x0C, CHR 0x0D]"

text \<open>The sign and the magnitude of the number a string begins with.\<close>

definition host_scan :: "nat \<Rightarrow> string \<Rightarrow> bool \<times> nat" where
  "host_scan base s =
     (let s1 = dropWhile is_space s;
          neg = (s1 \<noteq> [] \<and> hd s1 = CHR ''-'');
          s2 = (if s1 \<noteq> [] \<and> hd s1 \<in> set [CHR ''-'', CHR ''+''] then tl s1 else s1);
          s3 = (if base = 16 \<and> 2 < length s2 \<and> s2 ! 0 = CHR ''0'' \<and> s2 ! 1 \<in> set [CHR ''x'', CHR ''X''] \<and> is_xdigit (s2 ! 2)
                then drop 2 s2 else s2)
      in (neg, foldl (\<lambda>a c. a * base + digit_val c) 0 (takeWhile (\<lambda>c. digit_val c < base) s3)))"

definition host_strtoul :: "nat \<Rightarrow> string \<Rightarrow> u64" where
  "host_strtoul base s =
     (let (neg, n) = host_scan base s in if 2 ^ 64 \<le> n then - 1 else if neg then - of_nat n else of_nat n)"

definition host_atoi :: "string \<Rightarrow> u32" where
  "host_atoi s =
     (let (neg, n) = host_scan 10 s
      in if neg then - of_nat (min n (2 ^ 63)) else of_nat (min n (2 ^ 63 - 1)))"

section \<open>State\<close>

type_synonym 'b command = "u8 \<Rightarrow> u8 \<Rightarrow> u64 option \<Rightarrow> 'b \<Rightarrow> ((int \<times> u64 option) \<times> 'b) option"

record 'b tool =
  t_be :: 'b
  t_core :: u32
  t_debug :: bool
  t_junk :: u64
  t_out :: string
  t_err :: string
  t_files :: "string \<Rightarrow> u8 list option"
  t_writable :: "string \<Rightarrow> bool"

definition print :: "string \<Rightarrow> 'b tool \<Rightarrow> 'b tool" where
  "print s t = t\<lparr>t_out := t_out t @ s\<rparr>"

definition check :: "int \<Rightarrow> 'b tool \<Rightarrow> 'b tool sim" where
  "check r t = (if 0 \<le> r then ret t else sim_exit 1)"

definition DBG_WB_ADDR :: u8 where "DBG_WB_ADDR = 0x00"
definition DBG_WB_DATA :: u8 where "DBG_WB_DATA = 0x01"
definition DBG_WB_CTRL :: u8 where "DBG_WB_CTRL = 0x02"
definition DBG_CORE_CTRL :: "u32 \<Rightarrow> u8" where "DBG_CORE_CTRL core = ucast (0x10 + push_bit 4 core)"
definition DBG_CORE_CTRL_STOP :: u64 where "DBG_CORE_CTRL_STOP = push_bit 0 1"
definition DBG_CORE_CTRL_RESET :: u64 where "DBG_CORE_CTRL_RESET = push_bit 1 1"
definition DBG_CORE_CTRL_ICRESET :: u64 where "DBG_CORE_CTRL_ICRESET = push_bit 2 1"
definition DBG_CORE_CTRL_STEP :: u64 where "DBG_CORE_CTRL_STEP = push_bit 3 1"
definition DBG_CORE_CTRL_START :: u64 where "DBG_CORE_CTRL_START = push_bit 4 1"
definition DBG_CORE_STAT :: "u32 \<Rightarrow> u8" where "DBG_CORE_STAT core = ucast (0x11 + push_bit 4 core)"
definition DBG_CORE_STAT_STOPPING :: u64 where "DBG_CORE_STAT_STOPPING = push_bit 0 1"
definition DBG_CORE_STAT_STOPPED :: u64 where "DBG_CORE_STAT_STOPPED = push_bit 1 1"
definition DBG_CORE_STAT_TERM :: u64 where "DBG_CORE_STAT_TERM = push_bit 2 1"
definition DBG_CORE_NIA :: "u32 \<Rightarrow> u8" where "DBG_CORE_NIA core = ucast (0x12 + push_bit 4 core)"
definition DBG_CORE_MSR :: "u32 \<Rightarrow> u8" where "DBG_CORE_MSR core = ucast (0x13 + push_bit 4 core)"
definition DBG_CORE_GSPR_INDEX :: "u32 \<Rightarrow> u8" where "DBG_CORE_GSPR_INDEX core = ucast (0x14 + push_bit 4 core)"
definition DBG_CORE_GSPR_DATA :: "u32 \<Rightarrow> u8" where "DBG_CORE_GSPR_DATA core = ucast (0x15 + push_bit 4 core)"
definition DBG_LOG_ADDR :: "u32 \<Rightarrow> u8" where "DBG_LOG_ADDR core = ucast (0x16 + push_bit 4 core)"
definition DBG_LOG_DATA :: "u32 \<Rightarrow> u8" where "DBG_LOG_DATA core = ucast (0x17 + push_bit 4 core)"
definition DBG_LOG_TRIGGER :: "u32 \<Rightarrow> u8" where "DBG_LOG_TRIGGER core = ucast (0x18 + push_bit 4 core)"
definition DBG_LOG_MTRIGGER :: "u32 \<Rightarrow> u8" where "DBG_LOG_MTRIGGER core = ucast (0x19 + push_bit 4 core)"

section \<open>Register access\<close>

definition be_call :: "'b command \<Rightarrow> u8 \<Rightarrow> u8 \<Rightarrow> u64 option \<Rightarrow> 'b tool \<Rightarrow> ((int \<times> u64 option) \<times> 'b tool) option" where
  "be_call cmd op addr data t = map_option (\<lambda>(r, b). (r, t\<lparr>t_be := b\<rparr>)) (cmd op addr data (t_be t))"

definition unknown_status :: "int \<Rightarrow> 'b tool \<Rightarrow> 'b tool" where
  "unknown_status rc t = t\<lparr>t_err := t_err t @ ''Unknown status code '' @ decnat (nat rc) @ '' !'' @ nl\<rparr>"

text \<open>The loop of \<open>dmi_read\<close> and \<open>dmi_write\<close>: ask for the status until the request has completed.\<close>

partial_function (option) dmi_poll :: "'b command \<Rightarrow> u64 option \<Rightarrow> 'b tool \<Rightarrow> ((int \<times> u64 option) \<times> 'b tool) option" where
  "dmi_poll cmd data t = do {
     r \<leftarrow> be_call cmd 0 0 data t;
     if fst (fst r) < 0 then Some r
     else if fst (fst r) = 0 then Some r
     else dmi_poll cmd (snd (fst r)) (if fst (fst r) \<noteq> 3 then unknown_status (fst (fst r)) (snd r) else snd r)
   }"

definition dmi_read :: "'b command \<Rightarrow> u8 \<Rightarrow> u64 \<Rightarrow> 'b tool \<Rightarrow> ((int \<times> u64) \<times> 'b tool) option" where
  "dmi_read cmd addr data t = do {
     ((rc, d), t1) \<leftarrow> be_call cmd 1 addr (Some data) t;
     if rc < 0 then Some ((rc, the d), t1)
     else do {
       ((rc2, d2), t2) \<leftarrow> dmi_poll cmd d t1;
       Some ((rc2, the d2), t2)
     }
   }"

definition dmi_write :: "'b command \<Rightarrow> u8 \<Rightarrow> u64 \<Rightarrow> 'b tool \<Rightarrow> (int \<times> 'b tool) option" where
  "dmi_write cmd addr data t = do {
     ((rc, d), t1) \<leftarrow> be_call cmd 2 addr (Some data) t;
     if rc < 0 then Some (rc, t1)
     else do {
       ((rc2, _), t2) \<leftarrow> dmi_poll cmd None t1;
       Some (rc2, t2)
     }
   }"

definition read_check :: "'b command \<Rightarrow> u8 \<Rightarrow> u64 \<Rightarrow> 'b tool \<Rightarrow> (u64 \<times> 'b tool) sim" where
  "read_check cmd addr data t =
     bindS (mem_op (dmi_read cmd addr data t)) (\<lambda>((rc, v), t1). bindS (check rc t1) (\<lambda>t2. ret (v, t2)))"

definition write_check :: "'b command \<Rightarrow> u8 \<Rightarrow> u64 \<Rightarrow> 'b tool \<Rightarrow> 'b tool sim" where
  "write_check cmd addr v t = bindS (mem_op (dmi_write cmd addr v t)) (\<lambda>(rc, t1). check rc t1)"

section \<open>Core control\<close>

definition status_text :: "u64 \<Rightarrow> string" where
  "status_text stat =
     (let term = (stat AND DBG_CORE_STAT_TERM \<noteq> 0) in
      if stat AND DBG_CORE_STAT_STOPPED \<noteq> 0 then
        ''stopped'' @ (if stat AND DBG_CORE_STAT_STOPPING = 0 then '' (restarting?)'' else if term then '' (terminated)'' else '''')
      else if stat AND DBG_CORE_STAT_STOPPING \<noteq> 0 then ''stopping'' @ (if term then '' (terminated)'' else '''')
      else if term then ''odd state (TERM but no STOP)''
      else ''running'')"

definition core_status :: "'b command \<Rightarrow> 'b tool \<Rightarrow> 'b tool sim" where
  "core_status cmd t =
     bindS (read_check cmd (DBG_CORE_STAT (t_core t)) (t_junk t) t) (\<lambda>(stat, t1).
     bindS (read_check cmd (DBG_CORE_NIA (t_core t)) (t_junk t) t1) (\<lambda>(nia, t2).
     bindS (read_check cmd (DBG_CORE_MSR (t_core t)) (t_junk t) t2) (\<lambda>(msr, t3).
       let t4 = (if t_debug t then print (''Core status = 0x'' @ hex0 0 stat @ nl) t3 else t3)
       in ret (print (''Core'' @ decnat (unat (t_core t)) @ '': '' @ status_text stat @ nl @
            '' NIA: '' @ hex0 16 nia @ nl @ '' MSR: '' @ hex0 16 msr @ nl) t4))))"

definition core_stop :: "'b command \<Rightarrow> 'b tool \<Rightarrow> 'b tool sim" where
  "core_stop cmd t = write_check cmd (DBG_CORE_CTRL (t_core t)) DBG_CORE_CTRL_STOP t"

definition core_start :: "'b command \<Rightarrow> 'b tool \<Rightarrow> 'b tool sim" where
  "core_start cmd t = write_check cmd (DBG_CORE_CTRL (t_core t)) DBG_CORE_CTRL_START t"

definition core_reset :: "'b command \<Rightarrow> 'b tool \<Rightarrow> 'b tool sim" where
  "core_reset cmd t = write_check cmd (DBG_CORE_CTRL (t_core t)) DBG_CORE_CTRL_RESET t"

definition core_step :: "'b command \<Rightarrow> 'b tool \<Rightarrow> 'b tool sim" where
  "core_step cmd t =
     bindS (read_check cmd (DBG_CORE_STAT (t_core t)) (t_junk t) t) (\<lambda>(stat, t1).
       if stat AND DBG_CORE_STAT_STOPPED = 0 then ret (print (''Core not stopped !'' @ nl) t1)
       else write_check cmd (DBG_CORE_CTRL (t_core t)) DBG_CORE_CTRL_STEP t1)"

definition icache_reset :: "'b command \<Rightarrow> 'b tool \<Rightarrow> 'b tool sim" where
  "icache_reset cmd t = write_check cmd (DBG_CORE_CTRL (t_core t)) DBG_CORE_CTRL_ICRESET t"

definition fast_spr_names :: "string list" where
  "fast_spr_names = [''lr'', ''ctr'', ''srr0'', ''srr1'', ''hsrr0'', ''hsrr1'', ''sprg0'', ''sprg1'', ''sprg2'', ''sprg3'',
     ''hsprg0'', ''hsprg1'', ''xer'', ''tar'', ''fscr'', ''lpcr'', ''heir'', ''cfar'']"

definition ldst_spr_names :: "string list" where
  "ldst_spr_names = [''pidr'', ''ptcr'', ''dsisr'', ''dar'']"

definition reg_name :: "u64 \<Rightarrow> string" where
  "reg_name reg =
     (if reg \<le> 31 then ''r'' @ decnat (unat reg)
      else if unat (reg - 32) < length fast_spr_names then fast_spr_names ! unat (reg - 32)
      else if reg < 60 then ''gspr'' @ decnat (unat reg)
      else if reg < 64 then ldst_spr_names ! unat (reg - 60)
      else ''FPR'' @ decnat (unat (reg - 64)))"

primrec gpr_loop :: "'b command \<Rightarrow> nat \<Rightarrow> u64 \<Rightarrow> 'b tool \<Rightarrow> 'b tool sim" where
  "gpr_loop cmd 0 reg t = ret t"
| "gpr_loop cmd (Suc n) reg t =
     bindS (write_check cmd (DBG_CORE_GSPR_INDEX (t_core t)) reg t) (\<lambda>t1.
     bindS (read_check cmd (DBG_CORE_GSPR_DATA (t_core t)) 0xdeadbeef t1) (\<lambda>(data, t2).
       gpr_loop cmd n (reg + 1) (print (reg_name reg @ '':'' @ [CHR 0x09] @ hex0 16 data @ nl) t2)))"

definition gpr_read :: "'b command \<Rightarrow> u64 \<Rightarrow> u64 \<Rightarrow> 'b tool \<Rightarrow> 'b tool sim" where
  "gpr_read cmd reg count t =
     (let reg1 = reg AND 0x7f; count1 = (if 96 < reg1 + count then 96 - reg1 else count)
      in gpr_loop cmd (unat count1) reg1 t)"

section \<open>Memory\<close>

definition ascii :: "u64 \<Rightarrow> string" where
  "ascii v = map (\<lambda>c. if 0x20 \<le> c \<and> c < 0x7f then char_of (unat c) else CHR ''.'') (nat_le 8 (unat v))"

definition mem_line :: "u64 \<Rightarrow> u64 \<Rightarrow> string" where
  "mem_line addr v = hex0 16 addr @ '': '' @ hex0 16 v @ ''  '' @ ascii v @ nl"

text \<open>The index is an \<open>int\<close>: a loop that is to run \<open>2 ^ 31\<close> times overflows it.\<close>

primrec mem_read_loop :: "'b command \<Rightarrow> nat \<Rightarrow> nat \<Rightarrow> u64 \<Rightarrow> 'b tool \<Rightarrow> 'b tool option" where
  "mem_read_loop cmd 0 i addr t = Some t"
| "mem_read_loop cmd (Suc n) i addr t = do {
     ((rc, v), t1) \<leftarrow> dmi_read cmd DBG_WB_DATA (t_junk t) t;
     if rc < 0 then Some t1
     else if i = 2 ^ 31 - 1 then None
     else mem_read_loop cmd n (i + 1) (addr + 8) (print (mem_line addr v) t1)
   }"

definition mem_read :: "'b command \<Rightarrow> u64 \<Rightarrow> u64 \<Rightarrow> 'b tool \<Rightarrow> 'b tool option" where
  "mem_read cmd addr count t = do {
     (rc, t1) \<leftarrow> dmi_write cmd DBG_WB_CTRL 0x7ff t;
     if rc < 0 then Some t1
     else do {
       (rc, t2) \<leftarrow> dmi_write cmd DBG_WB_ADDR addr t1;
       if rc < 0 then Some t2 else mem_read_loop cmd (unat count) 0 addr t2
     }
   }"

definition wb_setup :: "'b command \<Rightarrow> u64 \<Rightarrow> 'b tool \<Rightarrow> 'b tool sim" where
  "wb_setup cmd addr t = bindS (write_check cmd DBG_WB_CTRL 0x7ff t) (write_check cmd DBG_WB_ADDR addr)"

definition mem_write :: "'b command \<Rightarrow> u64 \<Rightarrow> u64 \<Rightarrow> 'b tool \<Rightarrow> 'b tool sim" where
  "mem_write cmd addr data t = bindS (wb_setup cmd addr t) (write_check cmd DBG_WB_DATA data)"

definition progress :: "nat \<Rightarrow> 'b tool \<Rightarrow> 'b tool" where
  "progress count t = (if count mod 1024 = 0 then print (hexnat count @ ''...'' @ [CHR 0x0D]) t else t)"

text \<open>The counter is an \<open>int\<close>, which overflows at two gigabytes.\<close>

function load_loop :: "'b command \<Rightarrow> nat \<Rightarrow> u8 list \<Rightarrow> 'b tool \<Rightarrow> (nat \<times> 'b tool) sim" where
  "load_loop cmd count file t =
     (if file = [] then ret (count, t)
      else bindS (write_check cmd DBG_WB_DATA (of_nat (le_nat (take 8 file))) t) (\<lambda>t1.
        if 2 ^ 31 \<le> count + 8 then None
        else load_loop cmd (count + 8) (drop 8 file) (progress (count + 8) t1)))"
  by pat_completeness auto
termination by (relation "measure (\<lambda>(_, _, file, _). length file)") auto

definition load :: "'b command \<Rightarrow> string \<Rightarrow> u64 \<Rightarrow> 'b tool \<Rightarrow> 'b tool sim" where
  "load cmd filename addr t =
     (case t_files t filename of
        None \<Rightarrow> sim_exit 1
      | Some file \<Rightarrow>
          bindS (wb_setup cmd addr t) (\<lambda>t1.
          bindS (load_loop cmd 0 file t1) (\<lambda>(count, t2). ret (print (hexnat count @ '' done.'' @ nl) t2))))"

function save_loop :: "'b command \<Rightarrow> u64 \<Rightarrow> nat \<Rightarrow> u8 list \<Rightarrow> 'b tool \<Rightarrow> (nat \<times> u8 list \<times> 'b tool) sim" where
  "save_loop cmd size_arg count written t =
     bindS (read_check cmd DBG_WB_DATA (t_junk t) t) (\<lambda>(v, t1).
       if 2 ^ 31 \<le> count + 8 then None
       else
         let written1 = written @ nat_le 8 (unat v); t2 = progress (count + 8) t1
         in if unat size_arg \<le> count + 8 then ret (count + 8, written1, t2)
            else save_loop cmd size_arg (count + 8) written1 t2)"
  by pat_completeness auto
termination by (relation "measure (\<lambda>(_, _, count, _, _). 2 ^ 31 - count)") auto

declare load_loop.simps [simp del] save_loop.simps [simp del]

text \<open>The file is not truncated: bytes past the ones written keep their value.\<close>

definition save :: "'b command \<Rightarrow> string \<Rightarrow> u64 \<Rightarrow> u64 \<Rightarrow> 'b tool \<Rightarrow> 'b tool sim" where
  "save cmd filename addr size_arg t =
     (if \<not> t_writable t filename then sim_exit 1
      else
        bindS (wb_setup cmd addr t) (\<lambda>t1.
        bindS (save_loop cmd size_arg 0 [] t1) (\<lambda>(count, written, t2).
          let old = (case t_files t2 filename of None \<Rightarrow> [] | Some bs \<Rightarrow> bs);
              t3 = t2\<lparr>t_files := (t_files t2)(filename \<mapsto> written @ drop (length written) old)\<rparr>
          in ret (print (hexnat count @ '' done.'' @ nl) t3))))"

section \<open>Core log\<close>

definition LOG_STOP :: u64 where "LOG_STOP = 0x80000000"

definition log_start :: "'b command \<Rightarrow> 'b tool \<Rightarrow> 'b tool sim" where
  "log_start cmd t = write_check cmd (DBG_LOG_ADDR (t_core t)) 0 t"

text \<open>The search for the size of the log; after 64 doublings the candidate is 0.\<close>

primrec log_size_loop :: "nat \<Rightarrow> u64 \<Rightarrow> u64 \<Rightarrow> u64" where
  "log_size_loop 0 waddr lsize = lsize"
| "log_size_loop (Suc n) waddr lsize =
     (if drop_bit 1 waddr < lsize then lsize else log_size_loop n waddr (push_bit 1 lsize))"

definition log_size :: "u64 \<Rightarrow> u64" where
  "log_size waddr = log_size_loop 64 waddr 1"

definition log_stop :: "'b command \<Rightarrow> 'b tool \<Rightarrow> 'b tool sim" where
  "log_stop cmd t =
     bindS (write_check cmd (DBG_LOG_ADDR (t_core t)) LOG_STOP t) (\<lambda>t1.
     bindS (read_check cmd (DBG_LOG_ADDR (t_core t)) (t_junk t) t1) (\<lambda>(laddr, t2).
       let waddr = drop_bit 32 laddr; lsize = log_size waddr
       in ret (print (''Log size = '' @ decnat (unat lsize) @ '' entries, write ptr = '' @
            hexnat (unat (waddr AND NOT lsize)) @ nl) t2)))"

primrec log_dump_loop :: "'b command \<Rightarrow> nat \<Rightarrow> u64 \<Rightarrow> u8 list \<Rightarrow> 'b tool \<Rightarrow> (u8 list \<times> 'b tool) sim" where
  "log_dump_loop cmd 0 i written t = ret (written, t)"
| "log_dump_loop cmd (Suc n) i written t =
     bindS (read_check cmd (DBG_LOG_DATA (t_core t)) (t_junk t) t) (\<lambda>(v, t1).
       log_dump_loop cmd n (i + 1) (written @ nat_le 8 (unat v))
         (if i mod 128 = 0 then print (decnat (unat (i * 8)) @ ''...'' @ [CHR 0x0D]) t1 else t1))"

definition log_dump :: "'b command \<Rightarrow> string \<Rightarrow> 'b tool \<Rightarrow> 'b tool sim" where
  "log_dump cmd filename t =
     (if \<not> t_writable t filename then sim_exit 1
      else
        bindS (read_check cmd (DBG_LOG_ADDR (t_core t)) (t_junk t) t) (\<lambda>(orig_laddr, t1).
        bindS (if orig_laddr AND LOG_STOP = 0 then write_check cmd (DBG_LOG_ADDR (t_core t)) LOG_STOP t1 else ret t1) (\<lambda>t2.
          let waddr = drop_bit 32 orig_laddr;
              lsize = log_size waddr;
              waddr1 = waddr AND NOT lsize;
              t3 = print (''Log size = '' @ decnat (unat lsize) @ '' entries'' @ nl) t2
          in bindS (write_check cmd (DBG_LOG_ADDR (t_core t)) (LOG_STOP OR push_bit 2 waddr1) t3) (\<lambda>t4.
             bindS (log_dump_loop cmd (unat (lsize * 4)) 0 [] t4) (\<lambda>(written, t5).
               let t6 = print (decnat (unat (lsize * 32)) @ '' done'' @ nl) (t5\<lparr>t_files := (t_files t5)(filename \<mapsto> written)\<rparr>)
               in write_check cmd (DBG_LOG_ADDR (t_core t)) orig_laddr t6)))))"

definition trigger_text :: "string \<Rightarrow> u64 \<Rightarrow> string" where
  "trigger_text what trig =
     (if trig AND 1 \<noteq> 0 then what @ '' at '' @ hexnat (unat (trig AND NOT 3)) else what @ '' disabled'') @
     '', '' @ (if trig AND 2 \<noteq> 0 then '''' else ''not '') @ ''triggered'' @ nl"

definition ltrig_show :: "'b command \<Rightarrow> 'b tool \<Rightarrow> 'b tool sim" where
  "ltrig_show cmd t =
     bindS (read_check cmd (DBG_LOG_TRIGGER (t_core t)) (t_junk t) t) (\<lambda>(trig, t1).
       ret (print (trigger_text ''log stop trigger'' trig) t1))"

definition ltrig_off :: "'b command \<Rightarrow> 'b tool \<Rightarrow> 'b tool sim" where
  "ltrig_off cmd t = write_check cmd (DBG_LOG_TRIGGER (t_core t)) 0 t"

definition ltrig_set :: "'b command \<Rightarrow> u64 \<Rightarrow> 'b tool \<Rightarrow> 'b tool sim" where
  "ltrig_set cmd addr t = write_check cmd (DBG_LOG_TRIGGER (t_core t)) ((addr AND NOT 2) OR 1) t"

definition mtrig_show :: "'b command \<Rightarrow> 'b tool \<Rightarrow> 'b tool sim" where
  "mtrig_show cmd t =
     bindS (read_check cmd (DBG_LOG_MTRIGGER (t_core t)) (t_junk t) t) (\<lambda>(trig, t1).
       ret (print (trigger_text ''log memory stop trigger'' trig) t1))"

definition mtrig_off :: "'b command \<Rightarrow> 'b tool \<Rightarrow> 'b tool sim" where
  "mtrig_off cmd t = write_check cmd (DBG_LOG_MTRIGGER (t_core t)) 0 t"

definition mtrig_set :: "'b command \<Rightarrow> u64 \<Rightarrow> 'b tool \<Rightarrow> 'b tool sim" where
  "mtrig_set cmd addr t = write_check cmd (DBG_LOG_MTRIGGER (t_core t)) ((addr AND NOT 2) OR 1) t"

end
