(* ===== verification/Mw_Jtag.thy ===== *)
theory Mw_Jtag
  imports Mw_Debug
begin

text \<open>
  The ways of \<^verbatim>\<open>scripts/mw_debug/mw_debug.c\<close> to reach a target: opening the socket of a
  simulation, and opening and using a JTAG cable on a Xilinx (\<open>bscane2\<close>) or a Lattice part
  (\<open>ecp5\<close>). The cable is driven by the UrJTAG library; the record \<open>urj\<close> has the calls the code
  makes, over a state of the library's own. A status of 0 is \<open>URJ_STATUS_OK\<close>.

  A target without a separator makes the code subtract an address from a null pointer; as
  on the machines it runs on, the length is then larger than any string.
\<close>

section \<open>Simulation\<close>

definition sim_target :: "string option \<Rightarrow> string \<times> u32" where
  "sim_target target =
     (let tgt = (case target of None \<Rightarrow> ''localhost:13245'' | Some s \<Rightarrow> s);
          host = takeWhile (\<lambda>c. c \<noteq> CHR '':'') tgt;
          rest = dropWhile (\<lambda>c. c \<noteq> CHR '':'') tgt;
          p = (if rest \<noteq> [] then tl rest else ''13245'')
      in (host, ucast (host_strtoul 10 p)))"

definition decint :: "u32 \<Rightarrow> string" where
  "decint v = (if bit v 31 then CHR ''-'' # decnat (unat (- v)) else decnat (unat v))"

text \<open>\<open>conn\<close> opens a connection to a port of a host; it returns a negative number when it fails.\<close>

definition sim_init :: "(string \<Rightarrow> u16 \<Rightarrow> 's \<Rightarrow> int \<times> 's) \<Rightarrow> string option \<Rightarrow> u32 \<Rightarrow> 's tool \<Rightarrow> (int \<times> 's tool) option" where
  "sim_init conn target freq t =
     (let (host, port) = sim_target target;
          t1 = (if t_debug t then print (''Opening sim backend host '' @ [CHR 0x27] @ host @ [CHR 0x27] @ '' port '' @ decint port @ nl) t else t);
          (rc, s) = conn host (ucast port) (t_be t1)
      in Some (if rc < 0 then - 1 else 0, t1\<lparr>t_be := s\<rparr>))"

section \<open>Cable\<close>

record 'j urj =
  urj_tap_chain_alloc :: "'j \<Rightarrow> bool \<times> 'j"
  urj_tap_cable_usb_probe :: "'j \<Rightarrow> (int \<times> string option) \<times> 'j"
  urj_tap_chain_connect :: "string \<Rightarrow> string list \<Rightarrow> 'j \<Rightarrow> int \<times> 'j"
  urj_tap_cable_set_frequency :: "u32 \<Rightarrow> 'j \<Rightarrow> 'j"
  urj_tap_manual_add :: "nat \<Rightarrow> 'j \<Rightarrow> int \<times> 'j"
  urj_parts_len :: "'j \<Rightarrow> nat"
  urj_part_parts_set_instruction :: "string \<Rightarrow> 'j \<Rightarrow> 'j"
  urj_tap_chain_active_part :: "'j \<Rightarrow> bool"
  urj_part_data_register_define :: "string \<Rightarrow> nat \<Rightarrow> 'j \<Rightarrow> int \<times> 'j"
  urj_part_instruction_define :: "string \<Rightarrow> string \<Rightarrow> string \<Rightarrow> 'j \<Rightarrow> bool \<times> 'j"
  urj_part_set_instruction :: "string \<Rightarrow> 'j \<Rightarrow> 'j"
  urj_tap_chain_shift_instructions :: "'j \<Rightarrow> 'j"
  urj_tap_chain_shift_data_registers :: "'j \<Rightarrow> int \<times> 'j"
  urj_active_instruction :: "'j \<Rightarrow> bool"
  urj_data_register :: "'j \<Rightarrow> bool"
  urj_tap_register_get_value :: "'j \<Rightarrow> u64"
  urj_tap_register_set_value_bit_range :: "u64 \<Rightarrow> nat \<Rightarrow> nat \<Rightarrow> 'j \<Rightarrow> int \<times> 'j"
  urj_tap_register_get_value_bit_range :: "nat \<Rightarrow> nat \<Rightarrow> 'j \<Rightarrow> u64"

primrec split_params :: "string \<Rightarrow> string list" where
  "split_params [] = [[]]"
| "split_params (c # s) =
     (if c = CHR '' '' then [] # split_params s
      else case split_params s of [] \<Rightarrow> [[c]] | p # ps \<Rightarrow> (c # p) # ps)"

definition max_params :: nat where "max_params = 20"

definition common_jtag_init :: "'j urj \<Rightarrow> string option \<Rightarrow> u32 \<Rightarrow> 'j tool \<Rightarrow> (int \<times> 'j tool) option" where
  "common_jtag_init u target freq t =
     (let tgt = (case target of None \<Rightarrow> ''probe'' | Some s \<Rightarrow> s);
          cable = takeWhile (\<lambda>c. c \<noteq> CHR '' '') tgt;
          rest = dropWhile (\<lambda>c. c \<noteq> CHR '' '') tgt;
          params = (if rest = [] then [] else split_params (tl rest))
      in if max_params < length params then Some (- 1, t)
      else
        let t1 = (if t_debug t then print (''Opening jtag backend cable '' @ [CHR 0x27] @ cable @ [CHR 0x27] @ nl) t else t);
            (ok, j1) = urj_tap_chain_alloc u (t_be t1)
        in if \<not> ok then Some (- 1, t1\<lparr>t_be := j1\<rparr>)
        else
          let ((rc, found), j2) = (if cable = ''probe'' then urj_tap_cable_usb_probe u j1 else ((0, Some cable), j1))
          in if rc \<noteq> 0 then Some (- 1, t1\<lparr>t_be := j2\<rparr>)
          else do {
            cable1 \<leftarrow> found;
            let (rc, j3) = urj_tap_chain_connect u cable1 params j2;
            if rc \<noteq> 0 then Some (- 1, t1\<lparr>t_be := j3\<rparr>)
            else Some (0, t1\<lparr>t_be := (if freq \<noteq> 0 then urj_tap_cable_set_frequency u freq j3 else j3)\<rparr>)
          })"

text \<open>
  The two initialisations differ in the length of the instruction register and in the
  codes of the two instructions they define.
\<close>

definition part_init :: "nat \<Rightarrow> string \<Rightarrow> string \<Rightarrow> 'j urj \<Rightarrow> string option \<Rightarrow> u32 \<Rightarrow> 'j tool \<Rightarrow> (int \<times> 'j tool) option" where
  "part_init irlen idcode user2 u target freq t = do {
     (rc, t1) \<leftarrow> common_jtag_init u target freq t;
     if rc < 0 then Some (rc, t1) else
     let fail = (\<lambda>j. Some (- 1, t1\<lparr>t_be := j\<rparr>));
         (rc, j) = urj_tap_manual_add u irlen (t_be t1) in
     if rc < 0 then fail j else
     if urj_parts_len u j = 0 then fail j else
     let j = urj_part_parts_set_instruction u ''BYPASS'' j in
     if \<not> urj_tap_chain_active_part u j then fail j else
     let (rc, j) = urj_part_data_register_define u ''IDCODE_REG'' 32 j in
     if rc \<noteq> 0 then fail j else
     let (ok, j) = urj_part_instruction_define u ''IDCODE'' idcode ''IDCODE_REG'' j in
     if \<not> ok then fail j else
     let (rc, j) = urj_part_data_register_define u ''USER2_REG'' 74 j in
     if rc \<noteq> 0 then fail j else
     let (ok, j) = urj_part_instruction_define u ''USER2'' user2 ''USER2_REG'' j in
     if \<not> ok then fail j else
     let j = urj_tap_chain_shift_instructions u (urj_part_set_instruction u ''IDCODE'' j);
         (_, j) = urj_tap_chain_shift_data_registers u j;
         id_code = urj_tap_register_get_value u j;
         j = urj_tap_chain_shift_instructions u (urj_part_set_instruction u ''USER2'' j)
     in Some (0, print (''Found device ID: 0x'' @ hex0 8 (take_bit 32 id_code) @ nl) (t1\<lparr>t_be := j\<rparr>))
   }"

definition bscane2_init :: "'j urj \<Rightarrow> string option \<Rightarrow> u32 \<Rightarrow> 'j tool \<Rightarrow> (int \<times> 'j tool) option" where
  "bscane2_init = part_init 6 ''001001'' ''000011''"

definition ecp5_init :: "'j urj \<Rightarrow> string option \<Rightarrow> u32 \<Rightarrow> 'j tool \<Rightarrow> (int \<times> 'j tool) option" where
  "ecp5_init = part_init 8 ''11100000'' ''00110010''"

definition jtag_reset :: "'j \<Rightarrow> int \<times> 'j" where
  "jtag_reset j = (0, j)"

definition jtag_command :: "'j urj \<Rightarrow> 'j command" where
  "jtag_command u op addr data j =
     (let d = (case data of None \<Rightarrow> 0 | Some v \<Rightarrow> v) in
      if \<not> urj_tap_chain_active_part u j \<or> \<not> urj_active_instruction u j \<or> \<not> urj_data_register u j then Some ((- 1, data), j) else
      let (rc, j) = urj_tap_register_set_value_bit_range u (ucast op) 1 0 j in
      if rc \<noteq> 0 then Some ((- 1, data), j) else
      let (rc, j) = urj_tap_register_set_value_bit_range u d 65 2 j in
      if rc \<noteq> 0 then Some ((- 1, data), j) else
      let (rc, j) = urj_tap_register_set_value_bit_range u (ucast addr) 73 66 j in
      if rc \<noteq> 0 then Some ((- 1, data), j) else
      let (rc, j) = urj_tap_chain_shift_data_registers u j in
      if rc \<noteq> 0 then Some ((- 1, data), j) else
      Some ((sint (ucast (urj_tap_register_get_value_bit_range u 1 0 j) :: u32),
             map_option (\<lambda>_. urj_tap_register_get_value_bit_range u 65 2 j) data), j))"

end
