(* ===== verification/Mw_Main.thy ===== *)
theory Mw_Main
  imports Mw_Jtag "HOL-Library.Sublist"
begin

text \<open>
  The command line of \<^verbatim>\<open>scripts/mw_debug/mw_debug.c\<close>: the options, the loop over the command
  words, and \<open>main\<close>.
\<close>

section \<open>Definitions\<close>

datatype backend_name = sim_backend | bscane2_backend | ecp5_backend

record 'b backend =
  be_init :: "string option \<Rightarrow> u32 \<Rightarrow> 'b tool \<Rightarrow> (int \<times> 'b tool) option"
  be_reset :: "'b \<Rightarrow> int \<times> 'b"
  be_command :: "'b command"

record opts =
  o_backend :: "backend_name option"
  o_target :: "string option"
  o_freq :: u32
  o_core :: u32
  o_debug :: bool

definition opts0 :: opts where
  "opts0 = \<lparr>o_backend = None, o_target = None, o_freq = 0, o_core = 0, o_debug = False\<rparr>"

definition usage :: "'a sim" where
  "usage = sim_exit 1"

text \<open>An option and its argument, which is missing for the long form of \<open>-s\<close>.\<close>

definition mw_opt :: "char \<Rightarrow> string option \<Rightarrow> opts \<Rightarrow> opts sim" where
  "mw_opt c optarg os =
     (if c = CHR ''c'' then
        bindS (mem_op optarg) (\<lambda>s. if 15 \<le> host_atoi s then sim_exit 1 else ret (os\<lparr>o_core := host_atoi s\<rparr>))
      else if c = CHR ''h'' then usage
      else if c = CHR ''b'' then
        bindS (mem_op optarg) (\<lambda>s.
          if s = ''sim'' then ret (os\<lparr>o_backend := Some sim_backend\<rparr>)
          else if s = ''jtag'' \<or> s = ''bscane2'' then ret (os\<lparr>o_backend := Some bscane2_backend\<rparr>)
          else if s = ''ecp5'' then ret (os\<lparr>o_backend := Some ecp5_backend\<rparr>)
          else sim_exit 1)
      else if c = CHR ''t'' then bindS (mem_op optarg) (\<lambda>s. ret (os\<lparr>o_target := Some s\<rparr>))
      else if c = CHR ''s'' then
        bindS (mem_op optarg) (\<lambda>s. if host_atoi s = 0 then sim_exit 1 else ret (os\<lparr>o_freq := host_atoi s\<rparr>))
      else if c = CHR ''d'' then ret (os\<lparr>o_debug := True\<rparr>)
      else ret os)"

primrec mw_opts :: "(char \<times> string option) list \<Rightarrow> opts \<Rightarrow> opts sim" where
  "mw_opts [] os = ret os"
| "mw_opts (o1 # rest) os = bindS (mw_opt (fst o1) (snd o1) os) (mw_opts rest)"

definition opt_arg :: "(char \<Rightarrow> bool) \<Rightarrow> nat \<Rightarrow> u64 \<Rightarrow> string list \<Rightarrow> u64 \<times> string list" where
  "opt_arg p base dflt args =
     (case args of
        a # rest \<Rightarrow> if a \<noteq> [] \<and> p (hd a) then (host_strtoul base a, rest) else (dflt, args)
      | [] \<Rightarrow> (dflt, args))"

definition cmd_dmiread :: "'b command \<Rightarrow> string list \<Rightarrow> 'b tool \<Rightarrow> (string list \<times> 'b tool) sim" where
  "cmd_dmiread cmd args t =
     (case args of
        a # rest \<Rightarrow>
          let addr = ucast (host_strtoul 16 a) :: u8
          in bindS (mem_op (dmi_read cmd addr (t_junk t) t)) (\<lambda>((_, v), t1).
               ret (rest, print (hex0 2 (ucast addr) @ '': '' @ hex0 16 v @ nl) t1))
      | [] \<Rightarrow> usage)"

definition cmd_dmiwrite :: "'b command \<Rightarrow> string list \<Rightarrow> 'b tool \<Rightarrow> (string list \<times> 'b tool) sim" where
  "cmd_dmiwrite cmd args t =
     (case args of
        a # v # rest \<Rightarrow> bindS (mem_op (dmi_write cmd (ucast (host_strtoul 16 a)) (host_strtoul 16 v) t)) (\<lambda>(_, t1). ret (rest, t1))
      | _ \<Rightarrow> usage)"

definition cmd_mr :: "'b command \<Rightarrow> string list \<Rightarrow> 'b tool \<Rightarrow> (string list \<times> 'b tool) sim" where
  "cmd_mr cmd args t =
     (case args of
        a # rest \<Rightarrow>
          let (count, rest') = opt_arg is_xdigit 16 1 rest
          in bindS (mem_op (mem_read cmd (host_strtoul 16 a) count t)) (\<lambda>t1. ret (rest', t1))
      | [] \<Rightarrow> usage)"

definition cmd_mw :: "'b command \<Rightarrow> string list \<Rightarrow> 'b tool \<Rightarrow> (string list \<times> 'b tool) sim" where
  "cmd_mw cmd args t =
     (case args of
        a # v # rest \<Rightarrow> bindS (mem_write cmd (host_strtoul 16 a) (host_strtoul 16 v) t) (\<lambda>t1. ret (rest, t1))
      | _ \<Rightarrow> usage)"

definition cmd_load :: "'b command \<Rightarrow> string list \<Rightarrow> 'b tool \<Rightarrow> (string list \<times> 'b tool) sim" where
  "cmd_load cmd args t =
     (case args of
        f # rest \<Rightarrow>
          let (addr, rest') = opt_arg is_xdigit 16 0 rest
          in bindS (load cmd f addr t) (\<lambda>t1. ret (rest', t1))
      | [] \<Rightarrow> usage)"

definition cmd_save :: "'b command \<Rightarrow> string list \<Rightarrow> 'b tool \<Rightarrow> (string list \<times> 'b tool) sim" where
  "cmd_save cmd args t =
     (case args of
        f # a # n # rest \<Rightarrow> bindS (save cmd f (host_strtoul 16 a) (host_strtoul 16 n) t) (\<lambda>t1. ret (rest, t1))
      | _ \<Rightarrow> usage)"

definition cmd_gpr :: "'b command \<Rightarrow> string list \<Rightarrow> 'b tool \<Rightarrow> (string list \<times> 'b tool) sim" where
  "cmd_gpr cmd args t =
     (case args of
        r # rest \<Rightarrow>
          let (count, rest') = opt_arg is_digit 10 1 rest
          in bindS (gpr_read cmd (host_strtoul 10 r) count t) (\<lambda>t1. ret (rest', t1))
      | [] \<Rightarrow> usage)"

definition cmd_ldump :: "'b command \<Rightarrow> string list \<Rightarrow> 'b tool \<Rightarrow> (string list \<times> 'b tool) sim" where
  "cmd_ldump cmd args t =
     (case args of f # rest \<Rightarrow> bindS (log_dump cmd f t) (\<lambda>t1. ret (rest, t1)) | [] \<Rightarrow> usage)"

definition cmd_ltrig :: "'b command \<Rightarrow> string list \<Rightarrow> 'b tool \<Rightarrow> (string list \<times> 'b tool) sim" where
  "cmd_ltrig cmd args t =
     (case args of
        [] \<Rightarrow> bindS (ltrig_show cmd t) (\<lambda>t1. ret ([], t1))
      | a # rest \<Rightarrow> bindS (if a = ''off'' then ltrig_off cmd t else ltrig_set cmd (host_strtoul 16 a) t) (\<lambda>t1. ret (rest, t1)))"

definition cmd_mtrig :: "'b command \<Rightarrow> string list \<Rightarrow> 'b tool \<Rightarrow> (string list \<times> 'b tool) sim" where
  "cmd_mtrig cmd args t =
     (case args of
        [] \<Rightarrow> bindS (mtrig_show cmd t) (\<lambda>t1. ret ([], t1))
      | a # rest \<Rightarrow> bindS (if a = ''off'' then mtrig_off cmd t else mtrig_set cmd (host_strtoul 16 a) t) (\<lambda>t1. ret (rest, t1)))"

text \<open>One turn of the loop: the command \<open>a\<close>, which takes its arguments from the words that follow.\<close>

definition mw_command :: "'b command \<Rightarrow> string \<Rightarrow> string list \<Rightarrow> 'b tool \<Rightarrow> (string list \<times> 'b tool) sim" where
  "mw_command cmd a args t =
     (let plain = (\<lambda>m. bindS m (\<lambda>t1. ret (args, t1))) in
      if a = ''dmiread'' then cmd_dmiread cmd args t
      else if a = ''dmiwrite'' then cmd_dmiwrite cmd args t
      else if a = ''creset'' then plain (core_reset cmd t)
      else if a = ''icreset'' then plain (icache_reset cmd t)
      else if a = ''stop'' then plain (core_stop cmd t)
      else if a = ''start'' then plain (core_start cmd t)
      else if a = ''step'' then plain (core_step cmd t)
      else if a = ''quit'' then plain (bindS (mem_op (dmi_write cmd 0xff 0 t)) (\<lambda>(_, t1). ret t1))
      else if a = ''status'' then plain (ret t)
      else if a = ''mr'' then cmd_mr cmd args t
      else if a = ''mw'' then cmd_mw cmd args t
      else if a = ''load'' then cmd_load cmd args t
      else if a = ''save'' then cmd_save cmd args t
      else if a = ''gpr'' then cmd_gpr cmd args t
      else if a = ''lstart'' then plain (log_start cmd t)
      else if a = ''lstop'' then plain (log_stop cmd t)
      else if a = ''ldump'' then cmd_ldump cmd args t
      else if a = ''ltrig'' then cmd_ltrig cmd args t
      else if a = ''mtrig'' then cmd_mtrig cmd args t
      else usage)"

text \<open>The loop over the words; a turn uses up at least one, so their number is enough fuel.\<close>

primrec mw_loop :: "nat \<Rightarrow> 'b command \<Rightarrow> string list \<Rightarrow> 'b tool \<Rightarrow> 'b tool sim" where
  "mw_loop 0 cmd args t = (if args = [] then ret t else None)"
| "mw_loop (Suc n) cmd args t =
     (case args of
        [] \<Rightarrow> ret t
      | a # rest \<Rightarrow> bindS (mw_command cmd a rest t) (\<lambda>(rest', t1). mw_loop n cmd rest' t1))"

definition mw_session :: "'b command \<Rightarrow> string list \<Rightarrow> 'b tool \<Rightarrow> 'b tool sim" where
  "mw_session cmd args t = bindS (mw_loop (length args) cmd args t) (core_status cmd)"

definition mw_main :: "(backend_name \<Rightarrow> 'b backend) \<Rightarrow> (char \<times> string option) list \<Rightarrow> string list \<Rightarrow> 'b tool \<Rightarrow> 'b tool sim" where
  "mw_main bk options args t =
     bindS (mw_opts options opts0) (\<lambda>os.
       let b = bk (case o_backend os of None \<Rightarrow> bscane2_backend | Some x \<Rightarrow> x)
       in bindS (mem_op (be_init b (o_target os) (o_freq os) (t\<lparr>t_core := o_core os, t_debug := o_debug os\<rparr>))) (\<lambda>(rc, t1).
            if rc < 0 then sim_exit 1 else mw_session (be_command b) args t1))"

text \<open>A debugger that has just started, with one file.\<close>

definition tool0 :: "'b \<Rightarrow> 'b tool" where
  "tool0 b = \<lparr>t_be = b, t_core = 0, t_debug = False, t_junk = 0x55, t_out = [], t_err = [],
     t_files = [''in'' \<mapsto> [1, 2, 3]], t_writable = (\<lambda>_. True)\<rparr>"

lemma tool0_sel [simp]:
  "t_be (tool0 b) = b" "t_core (tool0 b) = 0" "t_debug (tool0 b) = False" "t_out (tool0 b) = []" "t_files (tool0 b) = [''in'' \<mapsto> [1, 2, 3]]"
  "t_writable (tool0 b) f"
  by (simp_all add: tool0_def)

section \<open>Options\<close>

lemma not_ret [simp]: "sim_exit c \<noteq> ret v" "None \<noteq> ret v"
  by (simp_all add: sim_exit_def ret_def)

lemma mw_opt_core: "mw_opt c a os = ret os' \<Longrightarrow> o_core os < 15 \<Longrightarrow> o_core os' < 15"
  by (cases a) (auto simp: mw_opt_def usage_def split: if_splits)

lemma mw_opts_core: "mw_opts options os = ret os' \<Longrightarrow> o_core os < 15 \<Longrightarrow> o_core os' < 15"
proof (induction options arbitrary: os)
  case (Cons x xs)
  from Cons.prems(1) obtain os1 where "mw_opt (fst x) (snd x) os = ret os1" "mw_opts xs os1 = ret os'"
    by (auto simp: bindS_def ret_def split: option.splits sum.splits)
  with Cons.IH mw_opt_core Cons.prems(2) show ?case by blast
qed simp

section \<open>The loop over the words\<close>

lemma suffix_opt_arg: "suffix (snd (opt_arg p b d args)) args"
  by (cases args) (auto simp: opt_arg_def suffix_Cons)

lemma bindS_ret: "bindS m f = ret y \<Longrightarrow> \<exists>x. m = ret x \<and> f x = ret y"
  by (auto simp: bindS_def ret_def split: option.splits sum.splits)

lemma plain_tail: "bindS m (\<lambda>u. ret (args, u)) = ret (rest, t) \<Longrightarrow> rest = args"
  by (drule bindS_ret) auto

lemma cmd_tails:
  "cmd_dmiread cmd args t = ret (rest, t1) \<Longrightarrow> suffix rest args" "cmd_dmiwrite cmd args t = ret (rest, t1) \<Longrightarrow> suffix rest args"
  "cmd_mw cmd args t = ret (rest, t1) \<Longrightarrow> suffix rest args" "cmd_save cmd args t = ret (rest, t1) \<Longrightarrow> suffix rest args"
  "cmd_ldump cmd args t = ret (rest, t1) \<Longrightarrow> suffix rest args" "cmd_ltrig cmd args t = ret (rest, t1) \<Longrightarrow> suffix rest args"
  "cmd_mtrig cmd args t = ret (rest, t1) \<Longrightarrow> suffix rest args"
  unfolding cmd_dmiread_def cmd_dmiwrite_def cmd_mw_def cmd_save_def cmd_ldump_def cmd_ltrig_def cmd_mtrig_def usage_def Let_def
  by (auto split: list.splits dest!: bindS_ret simp: suffix_Cons)

lemma cmd_opt_tails:
  "cmd_mr cmd args t = ret (rest, t1) \<Longrightarrow> suffix rest args" "cmd_load cmd args t = ret (rest, t1) \<Longrightarrow> suffix rest args"
  "cmd_gpr cmd args t = ret (rest, t1) \<Longrightarrow> suffix rest args"
  unfolding cmd_mr_def cmd_load_def cmd_gpr_def usage_def split_beta Let_def
  by (auto split: list.splits dest!: bindS_ret simp: suffix_Cons suffix_opt_arg)

lemma mw_command_tail: "mw_command cmd a args t = ret (rest, t1) \<Longrightarrow> suffix rest args"
  unfolding mw_command_def Let_def usage_def
  by (auto split: if_splits dest: plain_tail cmd_tails cmd_opt_tails)



section \<open>A backend that fails\<close>

definition cmd_fails :: "'b command \<Rightarrow> bool" where
  "cmd_fails cmd \<longleftrightarrow> (\<forall>op a d b. \<exists>b'. cmd op a d b = Some ((- 1, d), b'))"

definition settled :: "'a sim \<Rightarrow> bool" where
  "settled m \<longleftrightarrow> m = sim_exit 1 \<or> (\<exists>x. m = ret x)"

lemma settled_simps [simp]: "settled (ret x)" "settled (sim_exit 1)"
  by (auto simp: settled_def)

lemma settled_if: "settled x \<Longrightarrow> settled y \<Longrightarrow> settled (if b then x else y)"
  by simp

lemma settled_bind: "settled m \<Longrightarrow> (\<And>x. m = ret x \<Longrightarrow> settled (f x)) \<Longrightarrow> settled (bindS m f)"
  by (auto simp: settled_def)

lemma failed_access:
  assumes "cmd_fails cmd"
  shows "\<exists>t'. dmi_read cmd a d t = Some ((- 1, d), t')" "\<exists>t'. dmi_write cmd a d t = Some (- 1, t')"
    "read_check cmd a d t = sim_exit 1" "write_check cmd a d t = sim_exit 1"
proof -
  have c: "\<exists>t'. be_call cmd op a d t = Some ((- 1, d), t')" for op d
  proof -
    obtain b' where "cmd op a d (t_be t) = Some ((- 1, d), b')" using assms unfolding cmd_fails_def by blast
    then show ?thesis by (simp add: be_call_def)
  qed
  from c [of 1 "Some d"] show r: "\<exists>t'. dmi_read cmd a d t = Some ((- 1, d), t')" by (auto simp: dmi_read_def)
  from c [of 2 "Some d"] show w: "\<exists>t'. dmi_write cmd a d t = Some (- 1, t')" by (auto simp: dmi_write_def)
  from r show "read_check cmd a d t = sim_exit 1" by (auto simp: read_check_def check_def)
  from w show "write_check cmd a d t = sim_exit 1" by (auto simp: write_check_def check_def)
qed

lemma failed_mem_read: "cmd_fails cmd \<Longrightarrow> \<exists>t'. mem_read cmd addr n t = Some t'"
  using failed_access(2) [of cmd DBG_WB_CTRL "0x7ff" t] by (auto simp: mem_read_def)

lemma failed_ops:
  assumes "cmd_fails cmd"
  shows "settled (mem_op (dmi_read cmd a d t))" "settled (mem_op (dmi_write cmd a d t))" "settled (mem_op (mem_read cmd addr n t))"
  using failed_access(1,2) [OF assms, of a d t] failed_mem_read [OF assms, of addr n t] by auto

lemma failed_core:
  assumes "cmd_fails cmd"
  shows "core_status cmd t = sim_exit 1" "core_stop cmd t = sim_exit 1" "core_start cmd t = sim_exit 1" "core_reset cmd t = sim_exit 1"
    "core_step cmd t = sim_exit 1" "icache_reset cmd t = sim_exit 1" "log_start cmd t = sim_exit 1" "log_stop cmd t = sim_exit 1"
    "wb_setup cmd a t = sim_exit 1" "settled (gpr_loop cmd n r t)"
  using failed_access [OF assms]
  by (simp_all add: core_status_def core_stop_def core_start_def core_reset_def core_step_def icache_reset_def log_start_def log_stop_def wb_setup_def,
      cases n, simp_all)

lemma failed_words:
  assumes "cmd_fails cmd"
  shows "settled (cmd_dmiread cmd args t)" "settled (cmd_dmiwrite cmd args t)" "settled (cmd_mw cmd args t)" "settled (cmd_save cmd args t)"
    "settled (cmd_ldump cmd args t)" "settled (cmd_ltrig cmd args t)" "settled (cmd_mtrig cmd args t)" "settled (cmd_mr cmd args t)"
    "settled (cmd_load cmd args t)" "settled (cmd_gpr cmd args t)"
proof -
  note f = failed_access(3,4) [OF assms] failed_core [OF assms]
  show "settled (cmd_dmiread cmd args t)" "settled (cmd_dmiwrite cmd args t)" "settled (cmd_mr cmd args t)"
    unfolding cmd_dmiread_def cmd_dmiwrite_def cmd_mr_def usage_def split_beta Let_def
    by (auto split: list.split intro!: settled_bind failed_ops [OF assms])
  show "settled (cmd_mw cmd args t)" "settled (cmd_save cmd args t)" "settled (cmd_ldump cmd args t)" "settled (cmd_ltrig cmd args t)"
    "settled (cmd_mtrig cmd args t)"
    by (simp_all add: f cmd_mw_def cmd_save_def cmd_ldump_def cmd_ltrig_def cmd_mtrig_def usage_def mem_write_def save_def log_dump_def
        ltrig_show_def ltrig_off_def ltrig_set_def mtrig_show_def mtrig_off_def mtrig_set_def split: list.split)
  show "settled (cmd_load cmd args t)" "settled (cmd_gpr cmd args t)"
    unfolding cmd_load_def cmd_gpr_def gpr_read_def load_def usage_def split_beta Let_def
    by (auto simp: f split: list.split option.split intro!: settled_bind)
qed

lemma failed_command: "cmd_fails cmd \<Longrightarrow> settled (mw_command cmd a args t)"
  unfolding mw_command_def Let_def usage_def
  by (intro settled_if settled_bind failed_words failed_ops; simp add: failed_core split_beta)

lemma failed_loop: "cmd_fails cmd \<Longrightarrow> length args \<le> n \<Longrightarrow> settled (mw_loop n cmd args t)"
proof (induction n arbitrary: args t)
  case (Suc n)
  show ?case
  proof (cases args)
    case (Cons a rest)
    have "settled (mw_loop n cmd rest' t')" if "mw_command cmd a rest t = ret (rest', t')" for rest' t'
      using Suc Cons suffix_length_le [OF mw_command_tail [OF that]] by simp
    with Cons failed_command [OF Suc.prems(1)] show ?thesis by (auto intro!: settled_bind)
  qed simp
qed simp



end
