(* ===== verification/Dmi_Link.thy ===== *)
theory Dmi_Link
  imports Mw_Main
begin

text \<open>
  The contract between the debugger and a backend. A backend gives access to registers: a
  request to read or write one is accepted at once, then each further command asks for its
  outcome and finds it busy (3) or complete (0), and it is busy only finitely often.

  \<open>reg_command\<close> is the ideal backend, which answers a request immediately. The locale shows
  that a whole session of the debugger over any backend that keeps the contract is the same
  as over the ideal one: the same text, files and exit status, and the same effect on the
  registers.
\<close>

section \<open>The ideal backend\<close>

type_synonym 'h reg_read = "u8 \<Rightarrow> 'h \<Rightarrow> u64 \<times> 'h"
type_synonym 'h reg_write = "u8 \<Rightarrow> u64 \<Rightarrow> 'h \<Rightarrow> 'h"

definition reg_command :: "'h reg_read \<Rightarrow> 'h reg_write \<Rightarrow> ('h \<times> u64) command" where
  "reg_command rd wr op a data = (\<lambda>(h, x).
     if op = 1 then (case rd a h of (v, h') \<Rightarrow> Some ((0, data), (h', v)))
     else if op = 2 then Some ((0, data), (wr a (the data) h, x))
     else Some ((0, map_option (\<lambda>_. x) data), (h, x)))"

lemma dmi_read_reg:
  "dmi_read (reg_command rd wr) a d t =
     Some ((0, fst (rd a (fst (t_be t)))), t\<lparr>t_be := (snd (rd a (fst (t_be t))), fst (rd a (fst (t_be t))))\<rparr>)"
  by (simp add: dmi_read_def be_call_def reg_command_def dmi_poll.simps split_beta)

lemma dmi_write_reg:
  "dmi_write (reg_command rd wr) a d t = Some (0, t\<lparr>t_be := (wr a d (fst (t_be t)), snd (t_be t))\<rparr>)"
  by (simp add: dmi_write_def be_call_def reg_command_def dmi_poll.simps split_beta)

lemma read_check_reg:
  "read_check (reg_command rd wr) a d t =
     ret (fst (rd a (fst (t_be t))), t\<lparr>t_be := (snd (rd a (fst (t_be t))), fst (rd a (fst (t_be t))))\<rparr>)"
  by (simp add: read_check_def check_def dmi_read_reg)

lemma write_check_reg:
  "write_check (reg_command rd wr) a d t = ret (t\<lparr>t_be := (wr a d (fst (t_be t)), snd (t_be t))\<rparr>)"
  by (simp add: write_check_def check_def dmi_write_reg)

lemmas reg_simps = dmi_read_reg dmi_write_reg read_check_reg write_check_reg

section \<open>Related outcomes\<close>

definition rsim :: "('a \<Rightarrow> 'b \<Rightarrow> bool) \<Rightarrow> 'a sim \<Rightarrow> 'b sim \<Rightarrow> bool" where
  "rsim R = rel_option (rel_sum (=) R)"

lemma rsim_simps [simp]:
  "rsim R (ret x) (ret y) = R x y"
  "rsim R (sim_exit c) (sim_exit d) = (c = d)"
  "rsim R None None"
  by (simp_all add: rsim_def ret_def sim_exit_def)

lemma rsim_bind:
  "rsim R m m' \<Longrightarrow> (\<And>x x'. R x x' \<Longrightarrow> rsim S (f x) (f' x')) \<Longrightarrow> rsim S (bindS m f) (bindS m' f')"
  by (cases m; cases m') (auto simp: rsim_def bindS_def split: sum.splits)

lemma rsim_mem_op: "rel_option R m m' \<Longrightarrow> rsim R (mem_op m) (mem_op m')"
  by (cases m; cases m') (auto simp: rsim_def mem_op_def)

lemma rel_bind:
  "rel_option R m m' \<Longrightarrow> (\<And>x x'. R x x' \<Longrightarrow> rel_option S (f x) (f' x')) \<Longrightarrow>
   rel_option S (Option.bind m f) (Option.bind m' f')"
  by (cases m; cases m') auto

lemma rsim_ret_iff: "rsim R m (ret y) \<longleftrightarrow> (\<exists>x. m = ret x \<and> R x y)"
  by (cases m) (auto simp: rsim_def ret_def rel_sum.simps)

section \<open>Contract\<close>

definition same_tool :: "('b \<Rightarrow> 'h \<times> u64 \<Rightarrow> bool) \<Rightarrow> 'b tool \<Rightarrow> ('h \<times> u64) tool \<Rightarrow> bool" where
  "same_tool B t t' \<longleftrightarrow> B (t_be t) (t_be t') \<and> t_core t = t_core t' \<and> t_core t' < 15 \<and> t_debug t = t_debug t' \<and> t_junk t = t_junk t' \<and>
     t_out t = t_out t' \<and> t_err t = t_err t' \<and> t_files t = t_files t' \<and> t_writable t = t_writable t'"

lemma core_reg_not_quit:
  assumes "core < 15" "r < 0x1f"
  shows "(ucast (r + push_bit 4 core :: u32) :: u8) \<noteq> 0xff"
proof
  assume "(ucast (r + push_bit 4 core :: u32) :: u8) = 0xff"
  then have "unat (ucast (r + push_bit 4 core :: u32) :: u8) = 255" by simp
  moreover have "unat (push_bit 4 core) = 16 * unat core" "unat core < 15" "unat r < 0x1f"
    using assms by (simp_all add: push_bit_eq_mult unat_word_ariths word_less_nat_alt)
  ultimately show False by (simp add: unsigned_ucast_eq unat_word_ariths take_bit_eq_mod)
qed

text \<open>A command leaves a tail of the words it is given.\<close>

definition tail_rel :: "string list \<Rightarrow> ('a \<Rightarrow> 'b \<Rightarrow> bool) \<Rightarrow> string list \<times> 'a \<Rightarrow> string list \<times> 'b \<Rightarrow> bool" where
  "tail_rel args R p q \<longleftrightarrow> fst p = fst q \<and> suffix (fst p) args \<and> R (snd p) (snd q)"

lemma tail_rel_Pair [simp]: "tail_rel args R (r, x) (r', y) \<longleftrightarrow> r = r' \<and> suffix r args \<and> R x y"
  by (simp add: tail_rel_def)

lemmas core_regs = DBG_CORE_CTRL_def DBG_CORE_STAT_def DBG_CORE_NIA_def DBG_CORE_MSR_def DBG_CORE_GSPR_INDEX_def
  DBG_CORE_GSPR_DATA_def DBG_LOG_ADDR_def DBG_LOG_DATA_def DBG_LOG_TRIGGER_def DBG_LOG_MTRIGGER_def

text \<open>
  \<open>idle h b\<close>: backend \<open>b\<close> has no request in flight and the registers are \<open>h\<close>. \<open>pend n x h b\<close>: the
  request in flight will be busy \<open>n\<close> times, then complete with data \<open>x\<close> and leave registers \<open>h\<close>.
  Register \<open>0xff\<close> is left out, since writing it ends a simulation.
\<close>

locale dmi_link =
  fixes cmd :: "'b command"
    and rd :: "'h reg_read"
    and wr :: "'h reg_write"
    and idle :: "'h \<Rightarrow> 'b \<Rightarrow> bool"
    and pend :: "nat \<Rightarrow> u64 \<Rightarrow> 'h \<Rightarrow> 'b \<Rightarrow> bool"
  assumes cmd_read: "idle h b \<Longrightarrow> \<exists>v n b'. cmd 1 a (Some d) b = Some ((0, Some v), b') \<and> pend n (fst (rd a h)) (snd (rd a h)) b'"
    and cmd_write: "idle h b \<Longrightarrow> a \<noteq> 0xff \<Longrightarrow> \<exists>v n x b'. cmd 2 a (Some d) b = Some ((0, Some v), b') \<and> pend n x (wr a d h) b'"
    and cmd_busy: "pend (Suc n) x h b \<Longrightarrow> \<exists>v b'. cmd 0 0 data b = Some ((3, map_option (\<lambda>_. v) data), b') \<and> pend n x h b'"
    and cmd_done: "pend 0 x h b \<Longrightarrow> \<exists>b'. cmd 0 0 data b = Some ((0, map_option (\<lambda>_. x) data), b') \<and> idle h b'"
begin

lemma poll: "pend n x h (t_be t) \<Longrightarrow> \<exists>b'. dmi_poll cmd data t = Some ((0, map_option (\<lambda>_. x) data), t\<lparr>t_be := b'\<rparr>) \<and> idle h b'"
proof (induction n arbitrary: t data)
  case 0
  from cmd_done [OF this] obtain b' where "cmd 0 0 data (t_be t) = Some ((0, map_option (\<lambda>_. x) data), b')" "idle h b'" by blast
  then show ?case by (intro exI [of _ b']) (simp add: be_call_def dmi_poll.simps [of cmd data t])
next
  case (Suc n)
  from cmd_busy [OF Suc.prems] obtain v b' where
    1: "cmd 0 0 data (t_be t) = Some ((3, map_option (\<lambda>_. v) data), b')" "pend n x h b'" by blast
  from Suc.IH [of "t\<lparr>t_be := b'\<rparr>" "map_option (\<lambda>_. v) data"] 1(2) obtain b'' where
    "dmi_poll cmd (map_option (\<lambda>_. v) data) (t\<lparr>t_be := b'\<rparr>) = Some ((0, map_option (\<lambda>_. x) data), t\<lparr>t_be := b''\<rparr>)" "idle h b''"
    by (auto simp: option.map_comp o_def)
  then show ?case by (intro exI [of _ b'']) (simp add: be_call_def dmi_poll.simps [of cmd data t] 1(1))
qed

lemma read_ok:
  assumes "idle h (t_be t)"
  shows "\<exists>b'. dmi_read cmd a d t = Some ((0, fst (rd a h)), t\<lparr>t_be := b'\<rparr>) \<and> idle (snd (rd a h)) b'"
proof -
  from cmd_read [OF assms] obtain v n b' where
    1: "cmd 1 a (Some d) (t_be t) = Some ((0, Some v), b')" "pend n (fst (rd a h)) (snd (rd a h)) b'" by blast
  from poll [of n _ _ "t\<lparr>t_be := b'\<rparr>" "Some v"] 1(2) obtain b'' where
    "dmi_poll cmd (Some v) (t\<lparr>t_be := b'\<rparr>) = Some ((0, Some (fst (rd a h))), t\<lparr>t_be := b''\<rparr>)" "idle (snd (rd a h)) b''"
    by fastforce
  with 1(1) show ?thesis by (intro exI [of _ b'']) (simp add: dmi_read_def be_call_def)
qed

lemma write_ok:
  assumes "idle h (t_be t)" "a \<noteq> 0xff"
  shows "\<exists>b'. dmi_write cmd a d t = Some (0, t\<lparr>t_be := b'\<rparr>) \<and> idle (wr a d h) b'"
proof -
  from cmd_write [OF assms] obtain v n x b' where
    1: "cmd 2 a (Some d) (t_be t) = Some ((0, Some v), b')" "pend n x (wr a d h) b'" by blast
  from poll [of n _ _ "t\<lparr>t_be := b'\<rparr>" None] 1(2) obtain b'' where
    "dmi_poll cmd None (t\<lparr>t_be := b'\<rparr>) = Some ((0, None), t\<lparr>t_be := b''\<rparr>)" "idle (wr a d h) b''"
    by fastforce
  with 1(1) show ?thesis by (intro exI [of _ b'']) (simp add: dmi_write_def be_call_def)
qed

abbreviation link :: "'b tool \<Rightarrow> ('h \<times> u64) tool \<Rightarrow> bool" where
  "link \<equiv> same_tool (\<lambda>b hx. idle (fst hx) b)"

abbreviation ideal :: "('h \<times> u64) command" where
  "ideal \<equiv> reg_command rd wr"

lemma link_read:
  assumes "link t t'"
  shows "rel_option (rel_prod (=) link) (dmi_read cmd a d t) (dmi_read ideal a d t')"
  using read_ok [of "fst (t_be t')" t a d] assms by (auto simp: reg_simps same_tool_def)

lemma link_write:
  assumes "link t t'" "a \<noteq> 0xff"
  shows "rel_option (rel_prod (=) link) (dmi_write cmd a d t) (dmi_write ideal a d t')"
  using write_ok [of "fst (t_be t')" t a d] assms by (auto simp: reg_simps same_tool_def)

lemma link_read_check:
  assumes "link t t'"
  shows "rsim (rel_prod (=) link) (read_check cmd a d t) (read_check ideal a d t')"
  using read_ok [of "fst (t_be t')" t a d] assms by (auto simp: reg_simps same_tool_def read_check_def check_def)

lemma link_write_check:
  assumes "link t t'" "a \<noteq> 0xff"
  shows "rsim link (write_check cmd a d t) (write_check ideal a d t')"
  using write_ok [of "fst (t_be t')" t a d] assms by (auto simp: reg_simps same_tool_def write_check_def check_def)

lemma link_bind_read:
  assumes "link t t'" "\<And>v u u'. link u u' \<Longrightarrow> rsim S (f (v, u)) (f' (v, u'))"
  shows "rsim S (bindS (read_check cmd a d t) f) (bindS (read_check ideal a d t') f')"
  by (rule rsim_bind [OF link_read_check [OF assms(1)]]) (auto simp: rel_prod_sel intro: assms(2))

lemma link_bind_write:
  assumes "link t t'" "a \<noteq> 0xff" "\<And>u u'. link u u' \<Longrightarrow> rsim S (f u) (f' u')"
  shows "rsim S (bindS (write_check cmd a d t) f) (bindS (write_check ideal a d t') f')"
  by (rule rsim_bind [OF link_write_check [OF assms(1,2)]]) (rule assms(3))

lemma link_eqs:
  assumes "link t t'"
  shows "t_core t = t_core t'" "t_debug t = t_debug t'" "t_junk t = t_junk t'" "t_files t = t_files t'" "t_writable t = t_writable t'"
    "t_core t' < 15"
  using assms by (simp_all add: same_tool_def)

lemma link_print: "link t t' \<Longrightarrow> link (print s t) (print s t')"
  by (simp add: same_tool_def print_def)

lemma link_files: "link t t' \<Longrightarrow> link (t\<lparr>t_files := fs\<rparr>) (t'\<lparr>t_files := fs\<rparr>)"
  by (simp add: same_tool_def)

lemma link_progress: "link t t' \<Longrightarrow> link (progress n t) (progress n t')"
  by (simp add: progress_def link_print)

lemmas link_intros = link_bind_read link_bind_write link_write_check link_print link_files link_progress

lemma link_core_ops:
  assumes "link t t'"
  shows "rsim link (core_status cmd t) (core_status ideal t')" "rsim link (core_stop cmd t) (core_stop ideal t')"
    "rsim link (core_start cmd t) (core_start ideal t')" "rsim link (core_reset cmd t) (core_reset ideal t')"
    "rsim link (core_step cmd t) (core_step ideal t')" "rsim link (icache_reset cmd t) (icache_reset ideal t')"
  unfolding core_status_def core_stop_def core_start_def core_reset_def core_step_def icache_reset_def
  using assms by (auto simp: link_eqs [OF assms] core_regs core_reg_not_quit Let_def intro!: link_intros)

lemma link_gpr_loop: "link t t' \<Longrightarrow> rsim link (gpr_loop cmd n reg t) (gpr_loop ideal n reg t')"
proof (induction n arbitrary: reg t t')
  case (Suc n)
  then show ?case by (auto simp: link_eqs [OF Suc.prems] core_regs core_reg_not_quit intro!: link_intros Suc.IH)
qed simp

lemma link_gpr_read: "link t t' \<Longrightarrow> rsim link (gpr_read cmd reg count t) (gpr_read ideal reg count t')"
  by (simp add: gpr_read_def Let_def link_gpr_loop)

lemma link_mem_read_loop:
  "link t t' \<Longrightarrow> rel_option link (mem_read_loop cmd n i addr t) (mem_read_loop ideal n i addr t')"
proof (induction n arbitrary: i addr t t')
  case (Suc n)
  show ?case
    using Suc.IH [OF link_print] by (auto simp: link_eqs [OF Suc.prems] rel_prod_sel intro!: rel_bind [OF link_read [OF Suc.prems]])
qed simp

lemma link_mem_read: "link t t' \<Longrightarrow> rel_option link (mem_read cmd addr count t) (mem_read ideal addr count t')"
  unfolding mem_read_def
  by (rule rel_bind [OF link_write]) (auto simp: rel_prod_sel DBG_WB_CTRL_def DBG_WB_ADDR_def intro!: rel_bind [OF link_write] link_mem_read_loop)

lemma link_wb_setup: "link t t' \<Longrightarrow> rsim link (wb_setup cmd addr t) (wb_setup ideal addr t')"
  by (auto simp: wb_setup_def DBG_WB_CTRL_def DBG_WB_ADDR_def intro!: link_intros)

lemma link_mem_write: "link t t' \<Longrightarrow> rsim link (mem_write cmd addr v t) (mem_write ideal addr v t')"
  by (auto simp: mem_write_def DBG_WB_DATA_def intro!: rsim_bind [OF link_wb_setup] link_intros)

lemma link_load_loop:
  "link t t' \<Longrightarrow> rsim (rel_prod (=) link) (load_loop cmd n bs t) (load_loop ideal n bs t')"
proof (induction "length bs" arbitrary: n bs t t' rule: less_induct)
  case less
  show ?case
    by (subst (1 2) load_loop.simps) (use less in \<open>auto simp: DBG_WB_DATA_def intro!: link_intros less.hyps\<close>)
qed

lemma link_load: "link t t' \<Longrightarrow> rsim link (load cmd file addr t) (load ideal file addr t')"
  by (auto simp: load_def link_eqs rel_prod_sel split: option.split intro!: rsim_bind [OF link_wb_setup] rsim_bind [OF link_load_loop] link_intros)

lemma link_save_loop:
  "link t t' \<Longrightarrow> rsim (rel_prod (=) (rel_prod (=) link)) (save_loop cmd sz n w t) (save_loop ideal sz n w t')"
proof (induction "2 ^ 31 - n" arbitrary: n w t t' rule: less_induct)
  case less
  show ?case
    by (subst (1 2) save_loop.simps)
      (use less.prems in \<open>auto simp: link_eqs [OF less.prems] Let_def intro!: link_intros less.hyps\<close>)
qed

lemma link_save: "link t t' \<Longrightarrow> rsim link (save cmd file addr sz t) (save ideal file addr sz t')"
  by (auto simp: save_def link_eqs rel_prod_sel Let_def intro!: rsim_bind [OF link_wb_setup] rsim_bind [OF link_save_loop] link_intros)

lemma link_log_ops:
  assumes "link t t'"
  shows "rsim link (log_start cmd t) (log_start ideal t')" "rsim link (log_stop cmd t) (log_stop ideal t')"
    "rsim link (ltrig_show cmd t) (ltrig_show ideal t')" "rsim link (ltrig_off cmd t) (ltrig_off ideal t')"
    "rsim link (ltrig_set cmd a t) (ltrig_set ideal a t')" "rsim link (mtrig_show cmd t) (mtrig_show ideal t')"
    "rsim link (mtrig_off cmd t) (mtrig_off ideal t')" "rsim link (mtrig_set cmd a t) (mtrig_set ideal a t')"
  unfolding log_start_def log_stop_def ltrig_show_def ltrig_off_def ltrig_set_def mtrig_show_def mtrig_off_def mtrig_set_def
  using assms by (auto simp: link_eqs [OF assms] core_regs core_reg_not_quit Let_def intro!: link_intros)

lemma link_log_dump_loop:
  "link t t' \<Longrightarrow> rsim (rel_prod (=) link) (log_dump_loop cmd n i w t) (log_dump_loop ideal n i w t')"
proof (induction n arbitrary: i w t t')
  case (Suc n)
  then show ?case by (auto simp: link_eqs [OF Suc.prems] intro!: link_intros Suc.IH)
qed simp

lemma link_log_dump:
  assumes "link t t'"
  shows "rsim link (log_dump cmd file t) (log_dump ideal file t')"
  unfolding log_dump_def
  using assms by (auto simp: link_eqs [OF assms] core_regs core_reg_not_quit Let_def rel_prod_sel link_eqs(4)
      intro!: link_intros rsim_bind [OF link_log_dump_loop])

lemmas link_cmds = link_core_ops link_gpr_read link_mem_write link_load link_save link_log_ops link_log_dump

abbreviation cmd_link :: "string list \<Rightarrow> string list \<times> 'b tool \<Rightarrow> string list \<times> ('h \<times> u64) tool \<Rightarrow> bool" where
  "cmd_link args \<equiv> tail_rel args link"

lemma link_plain: "rsim link m m' \<Longrightarrow> rsim (cmd_link args) (bindS m (\<lambda>u. ret (args, u))) (bindS m' (\<lambda>u. ret (args, u)))"
  by (erule rsim_bind) simp

lemma link_plain_tail:
  "rsim link m m' \<Longrightarrow> suffix rest args \<Longrightarrow> rsim (cmd_link args) (bindS m (\<lambda>u. ret (rest, u))) (bindS m' (\<lambda>u. ret (rest, u)))"
  by (erule rsim_bind) simp

lemma link_command_words:
  assumes "link t t'"
  shows "rsim (cmd_link args) (cmd_mw cmd args t) (cmd_mw ideal args t')" "rsim (cmd_link args) (cmd_save cmd args t) (cmd_save ideal args t')"
    "rsim (cmd_link args) (cmd_ldump cmd args t) (cmd_ldump ideal args t')" "rsim (cmd_link args) (cmd_ltrig cmd args t) (cmd_ltrig ideal args t')"
    "rsim (cmd_link args) (cmd_mtrig cmd args t) (cmd_mtrig ideal args t')"
  unfolding cmd_mw_def cmd_save_def cmd_ldump_def cmd_ltrig_def cmd_mtrig_def usage_def
  using assms by (auto split: list.split intro!: link_plain_tail link_cmds simp: suffix_Cons)

lemma link_command_opt:
  assumes "link t t'"
  shows "rsim (cmd_link args) (cmd_mr cmd args t) (cmd_mr ideal args t')" "rsim (cmd_link args) (cmd_load cmd args t) (cmd_load ideal args t')"
    "rsim (cmd_link args) (cmd_gpr cmd args t) (cmd_gpr ideal args t')"
  unfolding cmd_mr_def cmd_load_def cmd_gpr_def usage_def split_beta Let_def
  using assms by (auto split: list.split intro!: link_plain_tail link_cmds rsim_mem_op link_mem_read simp: suffix_Cons suffix_opt_arg)

lemma link_dmiread: "link t t' \<Longrightarrow> rsim (cmd_link args) (cmd_dmiread cmd args t) (cmd_dmiread ideal args t')"
  unfolding cmd_dmiread_def usage_def Let_def
  by (auto split: list.split intro!: rsim_bind [OF rsim_mem_op [OF link_read]] link_print simp: link_eqs suffix_Cons rel_prod_sel)

lemma link_command:
  assumes "link t t'" "a \<noteq> ''quit''" "a \<noteq> ''dmiwrite''"
  shows "rsim (cmd_link args) (mw_command cmd a args t) (mw_command ideal a args t')"
  unfolding mw_command_def Let_def
  using assms link_command_words [OF assms(1)] link_command_opt [OF assms(1)] link_dmiread [OF assms(1)] link_cmds [OF assms(1)]
  by (simp add: link_plain usage_def)

lemma link_loop:
  "link t t' \<Longrightarrow> ''quit'' \<notin> set args \<Longrightarrow> ''dmiwrite'' \<notin> set args \<Longrightarrow> rsim link (mw_loop n cmd args t) (mw_loop n ideal args t')"
proof (induction n arbitrary: args t t')
  case (Suc n)
  show ?case
  proof (cases args)
    case (Cons a rest)
    have "rsim link (bindS (mw_command cmd a rest t) (\<lambda>(rest', t1). mw_loop n cmd rest' t1))
       (bindS (mw_command ideal a rest t') (\<lambda>(rest', t1). mw_loop n ideal rest' t1))"
      by (rule rsim_bind [OF link_command]) (use Suc Cons in \<open>auto simp: tail_rel_def split_beta dest: set_mono_suffix [THEN subsetD] intro!: Suc.IH\<close>)
    with Cons show ?thesis by simp
  qed (use Suc.prems in simp)
qed simp

lemma link_session:
  "link t t' \<Longrightarrow> ''quit'' \<notin> set args \<Longrightarrow> ''dmiwrite'' \<notin> set args \<Longrightarrow> rsim link (mw_session cmd args t) (mw_session ideal args t')"
  unfolding mw_session_def by (rule rsim_bind [OF link_loop]) (auto intro: link_core_ops)

end

end
