(* ===== verification/Debug_Hw.thy ===== *)
theory Debug_Hw
  imports Mw_Sim
begin

text \<open>
  The hardware the debugger talks to, one register access at a time: the debug master of
  the Wishbone bus (\<^verbatim>\<open>wishbone_debug_master.vhdl\<close>), the debug unit of a core
  (\<^verbatim>\<open>core_debug.vhdl\<close>), the decoding of the debug bus (\<open>dmi_intercon\<close> in \<^verbatim>\<open>soc.vhdl\<close>), the transport
  module behind JTAG (\<^verbatim>\<open>dmi_dtm_xilinx.vhdl\<close>) and the process that feeds it from the socket
  (\<^verbatim>\<open>sim_jtag.vhdl\<close>).

  The memory behind the bus is a function from addresses to bytes. What a running core
  contributes, its next instruction address, machine state and registers, are fields that
  these units only read. The clocks between two accesses appear in two places: a request
  of the transport module stays busy for as many shifts as the list \<open>dt_lat\<close> says, and
  \<open>log_tick\<close> is one clock of the logger. The matching of log triggers is not modelled.
\<close>

section \<open>Wishbone debug master\<close>

record wbm =
  wbm_addr :: u64
  wbm_ctrl :: u64
  wbm_latch :: u64

definition wb_adr :: "u64 \<Rightarrow> u64" where
  "wb_adr a = take_bit 32 a AND NOT 7"

definition wb_rd :: "(u64 \<Rightarrow> u8) \<Rightarrow> u64 \<Rightarrow> u64" where
  "wb_rd m a = of_nat (le_nat (map (\<lambda>i. m (wb_adr a + of_nat i)) [0..<8]))"

definition wb_wr :: "u64 \<Rightarrow> u64 \<Rightarrow> u64 \<Rightarrow> (u64 \<Rightarrow> u8) \<Rightarrow> u64 \<Rightarrow> u8" where
  "wb_wr a sel v m = (\<lambda>x. let i = unat (x - wb_adr a) in
     if i < 8 \<and> bit sel i then nat_le 8 (unat v) ! i else m x)"

definition decode_autoinc :: "u64 \<Rightarrow> u64" where
  "decode_autoinc c = (if c = 0 then 1 else if c = 1 then 2 else if c = 2 then 4 else 8)"

definition wbm_inc :: "wbm \<Rightarrow> wbm" where
  "wbm_inc d = (if bit (wbm_ctrl d) 8 then d\<lparr>wbm_addr := wbm_addr d + decode_autoinc (take_bit 2 (drop_bit 9 (wbm_ctrl d)))\<rparr> else d)"

definition wbm_read :: "u8 \<Rightarrow> wbm \<times> (u64 \<Rightarrow> u8) \<Rightarrow> u64 \<times> wbm \<times> (u64 \<Rightarrow> u8)" where
  "wbm_read r = (\<lambda>(d, m).
     if r = 0 then (wbm_addr d, d, m)
     else if r = 1 then (let v = wb_rd m (wbm_addr d) in (v, wbm_inc (d\<lparr>wbm_latch := v\<rparr>), m))
     else if r = 2 then (wbm_ctrl d, d, m)
     else (0, d, m))"

definition wbm_write :: "u8 \<Rightarrow> u64 \<Rightarrow> wbm \<times> (u64 \<Rightarrow> u8) \<Rightarrow> wbm \<times> (u64 \<Rightarrow> u8)" where
  "wbm_write r v = (\<lambda>(d, m).
     if r = 0 then (d\<lparr>wbm_addr := v\<rparr>, m)
     else if r = 1 then (wbm_inc d, wb_wr (wbm_addr d) (take_bit 8 (wbm_ctrl d)) v m)
     else if r = 2 then (d\<lparr>wbm_ctrl := take_bit 11 v\<rparr>, m)
     else (d, m))"

section \<open>Core debug unit\<close>

text \<open>The log holds \<open>2 ^ cd_bits\<close> entries. Reset, step and cache reset are pulses, which are counted.\<close>

record cdbg =
  cd_stopping :: bool
  cd_stopped :: bool
  cd_terminated :: bool
  cd_nia :: u64
  cd_msr :: u64
  cd_index :: u8
  cd_gpr :: "nat \<Rightarrow> u64"
  cd_spr :: "nat \<Rightarrow> u64"
  cd_ls_spr :: "nat \<Rightarrow> u64"
  cd_bits :: nat
  cd_log :: "256 word list"
  cd_wrptr :: nat
  cd_hold :: bool
  cd_log_addr :: u32
  cd_log_data :: u64
  cd_trig :: u64
  cd_mtrig :: u64
  cd_resets :: nat
  cd_icresets :: nat
  cd_steps :: nat

definition stat_reg :: "cdbg \<Rightarrow> u64" where
  "stat_reg c = of_bool (cd_stopping c) OR push_bit 1 (of_bool (cd_stopped c)) OR push_bit 2 (of_bool (cd_terminated c))"

definition gspr_data :: "cdbg \<Rightarrow> u64" where
  "gspr_data c =
     (let i = unat (cd_index c); lo = i mod 32 in
      if \<not> bit (cd_index c) 5 then cd_gpr c (32 * of_bool (bit (cd_index c) 6) + lo)
      else if 28 \<le> lo then cd_ls_spr c (lo mod 4)
      else if lo \<le> 0x11 then cd_spr c lo
      else 0)"

definition log_write_addr :: "cdbg \<Rightarrow> u64" where
  "log_write_addr c = of_nat (2 ^ cd_bits c + cd_wrptr c)"

definition select_dword :: "256 word \<Rightarrow> nat \<Rightarrow> u64" where
  "select_dword e i = ucast (drop_bit (64 * i) e)"

definition log_dword :: "cdbg \<Rightarrow> nat \<Rightarrow> u64" where
  "log_dword c i = select_dword (cd_log c ! (i div 4)) (i mod 4)"

text \<open>The index of a doubleword in the log is in the low \<open>cd_bits + 2\<close> bits of the address.\<close>

definition log_fetch :: "cdbg \<Rightarrow> cdbg" where
  "log_fetch c = c\<lparr>cd_log_data := log_dword c (unat (cd_log_addr c) mod 2 ^ (cd_bits c + 2))\<rparr>"

definition log_next :: "cdbg \<Rightarrow> cdbg" where
  "log_next c =
     (let n = 2 ^ (cd_bits c + 2); a = unat (cd_log_addr c)
      in log_fetch (c\<lparr>cd_log_addr := of_nat (a - a mod n + (a + 1) mod n)\<rparr>))"

definition cd_read :: "u8 \<Rightarrow> cdbg \<Rightarrow> u64 \<times> cdbg" where
  "cd_read r c =
     (if r = 1 then (stat_reg c, c)
      else if r = 2 then (cd_nia c, c)
      else if r = 3 then (cd_msr c, c)
      else if r = 5 then (gspr_data c, c)
      else if r = 6 then (push_bit 32 (log_write_addr c) OR ucast (cd_log_addr c), c)
      else if r = 7 then (cd_log_data c, log_next c)
      else if r = 8 then (cd_trig c, c)
      else if r = 9 then (cd_mtrig c, c)
      else (0, c))"

definition cd_ctrl :: "u64 \<Rightarrow> cdbg \<Rightarrow> cdbg" where
  "cd_ctrl v c =
     (let c1 = (if bit v 1 then c\<lparr>cd_resets := cd_resets c + 1, cd_terminated := False\<rparr> else c);
          c2 = (if bit v 0 then c1\<lparr>cd_stopping := True\<rparr> else c1);
          c3 = (if bit v 3 then c2\<lparr>cd_steps := cd_steps c2 + 1, cd_terminated := False\<rparr> else c2);
          c4 = (if bit v 2 then c3\<lparr>cd_icresets := cd_icresets c3 + 1\<rparr> else c3)
      in if bit v 4 then c4\<lparr>cd_stopping := False, cd_terminated := False\<rparr> else c4)"

definition cd_write :: "u8 \<Rightarrow> u64 \<Rightarrow> cdbg \<Rightarrow> cdbg" where
  "cd_write r v c =
     (if r = 0 then cd_ctrl v c
      else if r = 4 then c\<lparr>cd_index := ucast v\<rparr>
      else if r = 6 then log_fetch (c\<lparr>cd_log_addr := ucast v\<rparr>)
      else if r = 8 then c\<lparr>cd_trig := v\<rparr>
      else if r = 9 then c\<lparr>cd_mtrig := v\<rparr>
      else c)"

definition log_wr_enable :: "cdbg \<Rightarrow> bool" where
  "log_wr_enable c \<longleftrightarrow> \<not> (cd_hold c \<or> bit (cd_log_addr c) 31 \<or> bit (cd_trig c) 1 \<or> bit (cd_mtrig c) 1)"

definition log_tick :: "256 word \<Rightarrow> cdbg \<Rightarrow> cdbg" where
  "log_tick e c =
     (if log_wr_enable c then c\<lparr>cd_log := (cd_log c)[cd_wrptr c := e], cd_wrptr := (cd_wrptr c + 1) mod 2 ^ cd_bits c\<rparr> else c)"

section \<open>Debug bus\<close>

record dbg_hw =
  hw_wbm :: wbm
  hw_mem :: "u64 \<Rightarrow> u8"
  hw_cores :: "cdbg list"
  hw_stop :: bool

text \<open>Addresses 0 to 3 are the bus master; \<open>0x10\<close> to \<open>0x1f\<close> the first core, and so on.\<close>

definition dmi_rd :: "u8 \<Rightarrow> dbg_hw \<Rightarrow> u64 \<times> dbg_hw" where
  "dmi_rd a h =
     (let k = unat a div 16 in
      if a < 4 then (case wbm_read a (hw_wbm h, hw_mem h) of (v, d, m) \<Rightarrow> (v, h\<lparr>hw_wbm := d, hw_mem := m\<rparr>))
      else if 1 \<le> k \<and> k \<le> length (hw_cores h) then
        (case cd_read (a AND 15) (hw_cores h ! (k - 1)) of (v, c) \<Rightarrow> (v, h\<lparr>hw_cores := (hw_cores h)[k - 1 := c]\<rparr>))
      else (- 1, h))"

definition dmi_wr :: "u8 \<Rightarrow> u64 \<Rightarrow> dbg_hw \<Rightarrow> dbg_hw" where
  "dmi_wr a v h =
     (let k = unat a div 16 in
      if a < 4 then (case wbm_write a v (hw_wbm h, hw_mem h) of (d, m) \<Rightarrow> h\<lparr>hw_wbm := d, hw_mem := m\<rparr>)
      else if 1 \<le> k \<and> k \<le> length (hw_cores h) then
        h\<lparr>hw_cores := (hw_cores h)[k - 1 := cd_write (a AND 15) v (hw_cores h ! (k - 1))]\<rparr>
      else if a = 0xff then h\<lparr>hw_stop := True\<rparr>
      else h)"

section \<open>Transport module\<close>

record dtm =
  dt_request :: "74 word"
  dt_pending :: bool
  dt_busy :: nat
  dt_lat :: "nat list"
  dt_hw :: dbg_hw

definition req_op :: "74 word \<Rightarrow> u8" where "req_op w = take_bit 2 (ucast w)"
definition req_addr :: "74 word \<Rightarrow> u8" where "req_addr w = ucast (drop_bit 66 w)"
definition req_data :: "74 word \<Rightarrow> u64" where "req_data w = ucast (drop_bit 2 w)"

text \<open>The completion of a request: a read leaves its result in the data of the request.\<close>

definition dtm_complete :: "dtm \<Rightarrow> dtm" where
  "dtm_complete t =
     (let w = dt_request t in
      if req_op w = 1 then
        (case dmi_rd (req_addr w) (dt_hw t) of (v, h) \<Rightarrow>
           t\<lparr>dt_pending := False, dt_request := dmi_req 1 v (req_addr w), dt_hw := h\<rparr>)
      else t\<lparr>dt_pending := False, dt_hw := dmi_wr (req_addr w) (req_data w) (dt_hw t)\<rparr>)"

text \<open>What happens up to the next capture: the request in flight completes, or it is busy for one more.\<close>

definition dtm_advance :: "dtm \<Rightarrow> dtm" where
  "dtm_advance t =
     (if \<not> dt_pending t then t
      else if dt_busy t = 0 then dtm_complete t
      else t\<lparr>dt_busy := dt_busy t - 1\<rparr>)"

primrec dtm_shift :: "bool list \<Rightarrow> 74 word \<Rightarrow> bool list \<times> 74 word" where
  "dtm_shift [] w = ([], w)"
| "dtm_shift (b # bs) w =
     (let (os, w') = dtm_shift bs (drop_bit 1 w OR push_bit 73 (of_bool b)) in (bit w 0 # os, w'))"

definition dtm_update :: "74 word \<Rightarrow> dtm \<Rightarrow> dtm" where
  "dtm_update w t =
     (if (req_op w = 1 \<or> req_op w = 2) \<and> \<not> dt_pending t then
        t\<lparr>dt_request := w, dt_pending := True, dt_busy := (case dt_lat t of [] \<Rightarrow> 0 | n # _ \<Rightarrow> n), dt_lat := tl (dt_lat t)\<rparr>
      else t)"

definition clock_command :: "bool list \<Rightarrow> dtm \<Rightarrow> bool list \<times> dtm" where
  "clock_command cmd t =
     (let t1 = dtm_advance t;
          cap = (dt_request t1 AND NOT 3) OR (if dt_pending t1 then 3 else 0);
          (rsp, w) = dtm_shift cmd cap
      in (rsp, dtm_update w t1))"

section \<open>Socket process\<close>

text \<open>\<open>jm_junk\<close> is what the local array of \<open>sim_jtag_write_msg\<close> happens to hold when it is called.\<close>

record jsim =
  jm_sock :: jsock
  jm_rsp :: "bool list"
  jm_dtm :: dtm
  jm_junk :: "u8 list"

definition sim_jtag_round :: "jsim \<Rightarrow> jsim sim" where
  "sim_jtag_round j =
     bindS (vhdl_jtag_read (jm_sock j)) (\<lambda>(cmd, msize, s).
       let n = unat msize in
       if n \<noteq> 0 \<and> n < 248 then
         let (rsp, t) = clock_command (take n cmd) (jm_dtm j);
             rsp' = rsp @ drop n (jm_rsp j)
         in bindS (vhdl_jtag_write rsp' msize (jm_junk j) s) (\<lambda>s'. ret (j\<lparr>jm_sock := s', jm_rsp := rsp', jm_dtm := t\<rparr>))
       else ret (j\<lparr>jm_sock := s\<rparr>))"

end
