(* ===== verification/Debug_Link.thy ===== *)
theory Debug_Link
  imports Dmi_Link Debug_Hw
begin

text \<open>
  The debugger connected to the hardware. Over the socket: \<open>sim_command\<close> on one side, and on
  the other the simulated process that reads a message, shifts it through the transport
  module and sends back what came out. Over a cable: \<open>jtag_command\<close> with a register of 74 bits
  that is shifted through the transport module. Both keep the contract of a backend.
\<close>

section \<open>Definitions\<close>

text \<open>The simulation runs until it has sent something.\<close>

partial_function (option) serve :: "jsim \<Rightarrow> jsim sim" where
  "serve j =
     (if js_out (jm_sock j) \<noteq> [] then Some (Inr j)
      else Option.bind (sim_jtag_round j) (\<lambda>r. if isl r then Some (Inl (projl r)) else serve (projr r)))"

text \<open>\<open>read\<close> on the socket of the debugger; a simulation that has ended gives the end of the file.\<close>

definition sim_net :: "jsim net" where
  "sim_net = \<lparr>
     net_write = (\<lambda>bs j. (int (length bs), j\<lparr>jm_sock := (jm_sock j)\<lparr>js_in := js_in (jm_sock j) @ [bs]\<rparr>\<rparr>)),
     net_read = (\<lambda>n j. map_option (\<lambda>r. case r of
         Inl _ \<Rightarrow> ([], j)
       | Inr j' \<Rightarrow> let (c, cs) = (hd (js_out (jm_sock j')), tl (js_out (jm_sock j')))
                 in (take n c, j'\<lparr>jm_sock := (jm_sock j')\<lparr>js_out := (if length c \<le> n then cs else drop n c # cs)\<rparr>\<rparr>))
       (serve j))\<rparr>"

definition sim_connect :: "string \<Rightarrow> u16 \<Rightarrow> jsim \<Rightarrow> int \<times> jsim" where
  "sim_connect host port j =
     (if 0 \<le> js_fd (jm_sock j) then (0, j\<lparr>jm_sock := (jm_sock j)\<lparr>js_waiting := True\<rparr>\<rparr>) else (- 1, j))"

section \<open>Transport module\<close>

lemma dtm_shift_eq:
  "length bs \<le> 74 \<Longrightarrow>
   fst (dtm_shift bs w) = map (bit w) [0..<length bs] \<and>
   (\<forall>k < 74. bit (snd (dtm_shift bs w)) k = (if k < 74 - length bs then bit w (k + length bs) else bs ! (k - (74 - length bs))))"
proof (induction bs arbitrary: w)
  case (Cons b bs)
  let ?n = "length bs"
  define w1 where "w1 = (drop_bit 1 w OR push_bit 73 (of_bool b) :: 74 word)"
  have w: "bit w1 k = (if k = 73 then b else bit w (Suc k))" if "k < 74" for k
    using that bit_imp_le_length [of w "Suc k"] by (auto simp: w1_def bit_simps)
  from Cons have IH: "fst (dtm_shift bs w1) = map (bit w1) [0..<?n]"
    "\<And>k. k < 74 \<Longrightarrow> bit (snd (dtm_shift bs w1)) k = (if k < 74 - ?n then bit w1 (k + ?n) else bs ! (k - (74 - ?n)))"
    by auto
  have "map (bit w1) [0..<?n] = map (bit w) [Suc 0..<Suc ?n]"
    using Cons.prems by (subst map_Suc_upt [symmetric]) (auto simp: w)
  moreover have "bit (snd (dtm_shift bs w1)) k = (if k < 73 - ?n then bit w (k + Suc ?n) else (b # bs) ! (k - (73 - ?n)))" if "k < 74" for k
    using that Cons.prems by (auto simp: IH(2) w nth_Cons' Suc_diff_le)
  moreover have "dtm_shift (b # bs) w = (bit w 0 # fst (dtm_shift bs w1), snd (dtm_shift bs w1))"
    by (simp only: dtm_shift.simps w1_def Let_def split_beta)
  ultimately show ?case using IH(1) by (simp add: upt_conv_Cons del: upt_Suc dtm_shift.simps)
qed simp

definition dtm_exchange :: "74 word \<Rightarrow> dtm \<Rightarrow> 74 word \<times> dtm" where
  "dtm_exchange w t =
     (let t1 = dtm_advance t in ((dt_request t1 AND NOT 3) OR (if dt_pending t1 then 3 else 0), dtm_update w t1))"

lemma clock_command_eq:
  assumes "length bs = 74" "\<And>k. k < 74 \<Longrightarrow> bs ! k = bit w k"
  shows "clock_command bs t = (map (bit (fst (dtm_exchange w t))) [0..<74], snd (dtm_exchange w t))"
proof -
  let ?c = "fst (dtm_exchange w t)"
  have "snd (dtm_shift bs ?c) = w"
    by (rule bit_word_eqI) (use dtm_shift_eq [of bs ?c] assms in auto)
  moreover have "fst (dtm_shift bs ?c) = map (bit ?c) [0..<74]" using dtm_shift_eq [of bs ?c] assms(1) by simp
  ultimately show ?thesis by (auto simp: clock_command_def dtm_exchange_def Let_def split_beta)
qed

lemma req_fields [simp]:
  "req_op (dmi_req op d a) = take_bit 2 op" "req_addr (dmi_req op d a) = a" "req_data (dmi_req op d a) = d"
  by (rule bit_word_eqI; auto simp: req_op_def req_addr_def req_data_def bit_simps bit_dmi_req)+

lemma hw_stop_dmi_rd [simp]: "hw_stop (snd (dmi_rd a h)) = hw_stop h"
  by (auto simp: dmi_rd_def Let_def split_beta)

lemma hw_stop_dmi_wr: "a \<noteq> 0xff \<Longrightarrow> hw_stop (dmi_wr a v h) = hw_stop h"
  by (auto simp: dmi_wr_def Let_def split_beta)

definition dtm_idle :: "dbg_hw \<Rightarrow> dtm \<Rightarrow> bool" where
  "dtm_idle h t \<longleftrightarrow> \<not> dt_pending t \<and> dt_hw t = h \<and> \<not> hw_stop h"

definition dtm_pend :: "nat \<Rightarrow> u64 \<Rightarrow> dbg_hw \<Rightarrow> dtm \<Rightarrow> bool" where
  "dtm_pend n x h t \<longleftrightarrow> dt_pending t \<and> dt_busy t = n \<and> dt_hw (dtm_complete t) = h \<and> req_data (dt_request (dtm_complete t)) = x \<and> \<not> hw_stop h"

lemma dmi_status_or:
  "dmi_status ((w AND NOT 3) OR 3) = 3" "dmi_status (w AND NOT 3) = 0" "dmi_data ((w AND NOT 3) OR 3) = req_data w"
  "dmi_data (w AND NOT 3) = req_data w"
proof -
  have 3: "(3 :: 74 word) = mask 2" "(3 :: u64) = mask 2" by (simp_all add: mask_eq_exp_minus_1)
  show "dmi_status ((w AND NOT 3) OR 3) = 3" "dmi_status (w AND NOT 3) = 0" "dmi_data ((w AND NOT 3) OR 3) = req_data w"
    "dmi_data (w AND NOT 3) = req_data w"
    unfolding 3 by (rule bit_word_eqI; auto simp: dmi_status_def dmi_data_def req_data_def bit_simps)+
qed

lemmas exchange_defs = dtm_exchange_def dtm_advance_def dtm_idle_def dtm_pend_def dtm_update_def dtm_complete_def
  dmi_status_or dmi_status_or [simplified] hw_stop_dmi_wr Let_def split_beta

lemma exchange_read:
  assumes "dtm_idle h t"
  shows "dmi_status (fst (dtm_exchange (dmi_req 1 d a) t)) = 0 \<and>
    (\<exists>n. dtm_pend n (fst (dmi_rd a h)) (snd (dmi_rd a h)) (snd (dtm_exchange (dmi_req 1 d a) t)))"
  using assms
  by (auto simp: exchange_defs)

lemma exchange_write:
  assumes "dtm_idle h t" "a \<noteq> 0xff"
  shows "dmi_status (fst (dtm_exchange (dmi_req 2 d a) t)) = 0 \<and>
    (\<exists>n x. dtm_pend n x (dmi_wr a d h) (snd (dtm_exchange (dmi_req 2 d a) t)))"
  using assms
  by (auto simp: exchange_defs)

lemma exchange_busy:
  assumes "dtm_pend (Suc n) x h t"
  shows "dmi_status (fst (dtm_exchange (dmi_req 0 d a) t)) = 3 \<and> dtm_pend n x h (snd (dtm_exchange (dmi_req 0 d a) t))"
  using assms
  by (auto simp: exchange_defs)

lemma exchange_done:
  assumes "dtm_pend 0 x h t"
  shows "dmi_status (fst (dtm_exchange (dmi_req 0 d a) t)) = 0 \<and> dmi_data (fst (dtm_exchange (dmi_req 0 d a) t)) = x \<and>
    dtm_idle h (snd (dtm_exchange (dmi_req 0 d a) t))"
  using assms
  by (auto simp: exchange_defs)

section \<open>Over the socket\<close>

definition sock_ok :: "jsim \<Rightarrow> bool" where
  "sock_ok j \<longleftrightarrow> 0 \<le> js_fd (jm_sock j) \<and> (0 \<le> js_cfd (jm_sock j) \<or> js_waiting (jm_sock j)) \<and>
     js_in (jm_sock j) = [] \<and> js_out (jm_sock j) = [] \<and> length (jm_rsp j) = 248 \<and> length (jm_junk j) = 32"

lemma vhdl_jtag_read_accept:
  assumes "0 \<le> js_fd s" "js_cfd s < 0" "js_waiting s"
  shows "vhdl_jtag_read s = vhdl_jtag_read (check_connection s)"
  using assms by (simp add: vhdl_jtag_read_def sim_jtag_read_msg_def check_connection_def Let_def)

lemma vhdl_jtag_read_msg:
  assumes "sock_ok j" "length bytes < 32" "unat sz \<le> 8 * length bytes" "sz \<noteq> 255"
  shows "\<exists>bits s. length bits = 248 \<and> (\<forall>k < unat sz. bits ! k = bufbit bytes k) \<and> 0 \<le> js_fd s \<and> 0 \<le> js_cfd s \<and> js_in s = [] \<and> js_out s = [] \<and>
    vhdl_jtag_read ((jm_sock j)\<lparr>js_in := [sz # bytes]\<rparr>) = ret (bits, sz, s)"
proof -
  let ?s = "(jm_sock j)\<lparr>js_in := [sz # bytes]\<rparr>"
  let ?s1 = "if js_cfd (jm_sock j) < 0 then check_connection ?s else ?s"
  have "vhdl_jtag_read ?s = vhdl_jtag_read ?s1"
    using assms(1) by (auto simp: sock_ok_def intro: vhdl_jtag_read_accept)
  moreover have s1: "0 \<le> js_fd ?s1" "0 \<le> js_cfd ?s1" "js_in ?s1 = [sz # bytes]" "js_out ?s1 = []"
    using assms(1) by (auto simp: sock_ok_def check_connection_def)
  moreover from vhdl_jtag_read_eq [OF s1(1-3) assms(2,4,3)] obtain bits where
    "length bits = 248" "\<forall>k < unat sz. bits ! k = bufbit bytes k" "vhdl_jtag_read ?s1 = ret (bits, sz, ?s1\<lparr>js_in := []\<rparr>)"
    by blast
  ultimately show ?thesis by (intro exI [of _ bits] exI [of _ "?s1\<lparr>js_in := []\<rparr>"]) simp
qed

lemma sim_round:
  assumes "sock_ok j" "length payload = 10" "\<And>k. k < 74 \<Longrightarrow> bufbit payload k = bit w k"
  shows "\<exists>j' rest. sim_jtag_round (j\<lparr>jm_sock := (jm_sock j)\<lparr>js_in := [74 # payload]\<rparr>\<rparr>) = ret j' \<and>
    js_out (jm_sock j') = [74 # rest] \<and> length rest = 9 \<and> (\<forall>k < 66. bufbit rest k = bit (fst (dtm_exchange w (jm_dtm j))) k) \<and>
    jm_dtm j' = snd (dtm_exchange w (jm_dtm j)) \<and> sock_ok (j'\<lparr>jm_sock := (jm_sock j')\<lparr>js_out := []\<rparr>\<rparr>)"
proof -
  from vhdl_jtag_read_msg [OF assms(1), of payload 74] assms(2) obtain bits s where
    b: "length bits = 248" "\<And>k. k < 74 \<Longrightarrow> bits ! k = bufbit payload k" "0 \<le> js_fd s" "0 \<le> js_cfd s" "js_in s = []" "js_out s = []"
      "vhdl_jtag_read ((jm_sock j)\<lparr>js_in := [74 # payload]\<rparr>) = ret (bits, 74, s)" by auto
  let ?r = "fst (dtm_exchange w (jm_dtm j))" and ?t = "snd (dtm_exchange w (jm_dtm j))"
  have cc: "clock_command (take 74 bits) (jm_dtm j) = (map (bit ?r) [0..<74], ?t)"
    by (rule clock_command_eq) (use b assms(3) in auto)
  let ?rsp = "map (bit ?r) [0..<74] @ drop 74 (jm_rsp j)"
  have len: "length ?rsp = 248" and junk: "length (jm_junk j) = 32" using assms(1) by (simp_all add: sock_ok_def)
  from vhdl_jtag_write_eq [OF len junk _ b(4), of 74] obtain pl where
    p: "length pl = 31" "\<And>k. k < 74 \<Longrightarrow> bufbit pl k = ?rsp ! k" "vhdl_jtag_write ?rsp 74 (jm_junk j) s = ret (s\<lparr>js_out := [74 # take 9 pl]\<rparr>)"
    by (auto simp: b(6))
  have bits: "bufbit (take 9 pl) k = bit ?r k" if "k < 66" for k
    using that p(2) [of k] by (simp add: bufbit_take nth_append)
  have "sim_jtag_round (j\<lparr>jm_sock := (jm_sock j)\<lparr>js_in := [74 # payload]\<rparr>\<rparr>) =
      ret (j\<lparr>jm_sock := s\<lparr>js_out := [74 # take 9 pl]\<rparr>, jm_rsp := ?rsp, jm_dtm := ?t\<rparr>)"
    by (simp add: sim_jtag_round_def b(7) cc p(3) Let_def)
  then show ?thesis using p(1) bits b(3-6) len junk by (auto simp: sock_ok_def)
qed

lemma sim_exchange:
  fixes op a :: u8 and data :: "u64 option"
  assumes "sock_ok j"
  defines "rsp \<equiv> fst (dtm_exchange (dmi_req op (case data of None \<Rightarrow> 0 | Some v \<Rightarrow> v) a) (jm_dtm j))"
  shows "\<exists>j'. sim_command sim_net op a data j = Some ((uint (dmi_status rsp), map_option (\<lambda>_. dmi_data rsp) data), j') \<and>
    sock_ok j' \<and> jm_dtm j' = snd (dtm_exchange (dmi_req op (case data of None \<Rightarrow> 0 | Some v \<Rightarrow> v) a) (jm_dtm j))"
proof -
  let ?w = "dmi_req op (case data of None \<Rightarrow> 0 | Some v \<Rightarrow> v) a"
  obtain pl where pl: "length pl = 10" "\<And>k. k < 74 \<Longrightarrow> bufbit pl k = bit ?w k"
    and cmd: "\<And>r s1 got s2 rsp. net_write sim_net (74 # pl) j = (r, s1) \<Longrightarrow> 0 \<le> r \<Longrightarrow> net_read sim_net 16 s1 = Some (got, s2) \<Longrightarrow>
      10 \<le> length got \<Longrightarrow> length got \<le> 16 \<Longrightarrow> (\<And>j. j < 66 \<Longrightarrow> bufbit (tl got) j = bit rsp j) \<Longrightarrow>
      sim_command sim_net op a data j = Some ((uint (dmi_status rsp), map_option (\<lambda>_. dmi_data rsp) data), s2)"
    by (rule sim_command_eq [where net = sim_net and s = j and op = op and data = data and addr = a]) (rule that; blast)
  let ?j1 = "j\<lparr>jm_sock := (jm_sock j)\<lparr>js_in := [74 # pl]\<rparr>\<rparr>"
  from sim_round [OF assms(1) pl] obtain j' rest where
    r: "sim_jtag_round ?j1 = ret j'" "js_out (jm_sock j') = [74 # rest]" "length rest = 9" "\<And>k. k < 66 \<Longrightarrow> bufbit rest k = bit rsp k"
      "jm_dtm j' = snd (dtm_exchange ?w (jm_dtm j))" "sock_ok (j'\<lparr>jm_sock := (jm_sock j')\<lparr>js_out := []\<rparr>\<rparr>)"
    unfolding rsp_def by blast
  have "serve j' = ret j'" using r(2) by (subst serve.simps) (simp add: ret_def)
  then have "serve ?j1 = ret j'" using assms(1) r(1) by (subst serve.simps) (simp add: sock_ok_def ret_def)
  then have "net_read sim_net 16 ?j1 = Some (74 # rest, j'\<lparr>jm_sock := (jm_sock j')\<lparr>js_out := []\<rparr>\<rparr>)"
    using r(2,3) by (simp add: sim_net_def ret_def)
  moreover have "net_write sim_net (74 # pl) j = (11, ?j1)" using assms(1) pl(1) by (simp add: sim_net_def sock_ok_def)
  ultimately have "sim_command sim_net op a data j = Some ((uint (dmi_status rsp), map_option (\<lambda>_. dmi_data rsp) data),
      j'\<lparr>jm_sock := (jm_sock j')\<lparr>js_out := []\<rparr>\<rparr>)"
    by (intro cmd) (use r(3,4) in auto)
  then show ?thesis using r(5,6) by auto
qed

definition sim_idle :: "dbg_hw \<Rightarrow> jsim \<Rightarrow> bool" where
  "sim_idle h j \<longleftrightarrow> sock_ok j \<and> dtm_idle h (jm_dtm j)"

definition sim_pend :: "nat \<Rightarrow> u64 \<Rightarrow> dbg_hw \<Rightarrow> jsim \<Rightarrow> bool" where
  "sim_pend n x h j \<longleftrightarrow> sock_ok j \<and> dtm_pend n x h (jm_dtm j)"

interpretation sim_link: dmi_link "sim_command sim_net" dmi_rd dmi_wr sim_idle sim_pend
proof
  let ?cmd = "sim_command sim_net"
  fix h b a d
  assume 1: "sim_idle h b"
  then show "\<exists>v n b'. ?cmd 1 a (Some d) b = Some ((0, Some v), b') \<and> sim_pend n (fst (dmi_rd a h)) (snd (dmi_rd a h)) b'"
    using sim_exchange [where j = b and op = 1 and data = "Some d" and a = a] exchange_read [of h "jm_dtm b" d a] by (fastforce simp: sim_idle_def sim_pend_def)
next
  let ?cmd = "sim_command sim_net"
  fix h b d and a :: u8
  assume "sim_idle h b" "a \<noteq> 0xff"
  then show "\<exists>v n x b'. ?cmd 2 a (Some d) b = Some ((0, Some v), b') \<and> sim_pend n x (dmi_wr a d h) b'"
    using sim_exchange [where j = b and op = 2 and data = "Some d" and a = a] exchange_write [of h "jm_dtm b" a d] by (fastforce simp: sim_idle_def sim_pend_def)
next
  let ?cmd = "sim_command sim_net"
  fix n x h b and data :: "u64 option"
  assume "sim_pend (Suc n) x h b"
  then show "\<exists>v b'. ?cmd 0 0 data b = Some ((3, map_option (\<lambda>_. v) data), b') \<and> sim_pend n x h b'"
    using sim_exchange [where j = b and op = 0 and data = data and a = 0] exchange_busy [of n x h "jm_dtm b" "case data of None \<Rightarrow> 0 | Some v \<Rightarrow> v" 0]
    by (fastforce simp: sim_pend_def)
next
  let ?cmd = "sim_command sim_net"
  fix x h b and data :: "u64 option"
  assume "sim_pend 0 x h b"
  then show "\<exists>b'. ?cmd 0 0 data b = Some ((0, map_option (\<lambda>_. x) data), b') \<and> sim_idle h b'"
    using sim_exchange [where j = b and op = 0 and data = data and a = 0] exchange_done [of x h "jm_dtm b" "case data of None \<Rightarrow> 0 | Some v \<Rightarrow> v" 0]
    by (fastforce simp: sim_pend_def sim_idle_def)
qed

end
