(* ===== verification/Debug_Tool.thy ===== *)
theory Debug_Tool
  imports Debug_Link
begin

text \<open>
  What the commands of the debugger do to the hardware and what they print. Each is first
  computed over the ideal backend; the refinement of sessions then carries it to a
  debugger that talks to a simulation through the socket.
\<close>

abbreviation hwc :: "(dbg_hw \<times> u64) command" where
  "hwc \<equiv> reg_command dmi_rd dmi_wr"

abbreviation sim_tool :: "jsim tool \<Rightarrow> (dbg_hw \<times> u64) tool \<Rightarrow> bool" where
  "sim_tool \<equiv> same_tool (\<lambda>j hx. sim_idle (fst hx) j)"

section \<open>Memory through the bus master\<close>

text \<open>The bus master is set up by \<open>wb_setup\<close> for accesses of eight bytes to rising addresses.\<close>

definition wb_at :: "u64 \<Rightarrow> (u64 \<Rightarrow> u8) \<Rightarrow> (dbg_hw \<times> u64) tool \<Rightarrow> bool" where
  "wb_at a m t \<longleftrightarrow> wbm_ctrl (hw_wbm (fst (t_be t))) = 0x7ff \<and> wbm_addr (hw_wbm (fst (t_be t))) = a \<and> hw_mem (fst (t_be t)) = m"

definition aligned :: "u64 \<Rightarrow> nat \<Rightarrow> bool" where
  "aligned a n \<longleftrightarrow> 8 dvd unat a \<and> unat a + n \<le> 2 ^ 32"

definition mem_bytes :: "(u64 \<Rightarrow> u8) \<Rightarrow> u64 \<Rightarrow> nat \<Rightarrow> u8 list" where
  "mem_bytes m a n = map (\<lambda>i. m (a + of_nat i)) [0..<n]"

definition pad8 :: "u8 list \<Rightarrow> u8 list" where
  "pad8 bs = bs @ replicate ((8 - length bs mod 8) mod 8) 0"

lemma bit_dvd8: "8 dvd unat a \<Longrightarrow> k < 3 \<Longrightarrow> \<not> bit (a :: u64) k"
proof -
  assume "8 dvd unat a" "k < 3"
  then have "take_bit 3 (unat a) = 0" by (simp add: take_bit_eq_mod)
  then have "\<not> bit (take_bit 3 (unat a)) k" by simp
  then have "\<not> bit (unat a) k" using \<open>k < 3\<close> by (simp add: bit_take_bit_iff)
  then show "\<not> bit a k" using bit_imp_le_length [of a k] by (auto simp: bit_unsigned_iff)
qed

lemma wb_adr_aligned: "aligned a (Suc n) \<Longrightarrow> wb_adr a = a"
proof -
  assume al: "aligned a (Suc n)"
  then have "take_bit 32 (unat a) = unat a" by (simp add: aligned_def take_bit_nat_eq_self)
  then have "unat (take_bit 32 a) = unat a" by (simp only: unsigned_take_bit_eq)
  then have "take_bit 32 a = a" by (rule unsigned_word_eqI)
  moreover have "a AND NOT 7 = a"
  proof (rule bit_word_eqI)
    fix k
    have m3: "(7 :: u64) = mask 3" by (simp add: mask_eq_exp_minus_1)
    show "bit (a AND NOT 7) k = bit a k" if "k < LENGTH(64)"
      using al bit_dvd8 [of a k] that unfolding m3 by (auto simp: aligned_def bit_simps)
  qed
  ultimately show ?thesis by (simp add: wb_adr_def)
qed

lemma wb_rd_aligned: "aligned a 8 \<Longrightarrow> nat_le 8 (unat (wb_rd m a)) = mem_bytes m a 8"
proof -
  assume al: "aligned a 8"
  let ?bs = "mem_bytes m a 8"
  have "wb_rd m a = of_nat (le_nat ?bs)" using wb_adr_aligned [of a 7] al by (simp add: wb_rd_def mem_bytes_def)
  moreover have "le_nat ?bs < addr_max" using le_nat_less [of ?bs] by (simp add: mem_bytes_def addr_max_def)
  moreover have "length ?bs = 8" by (simp add: mem_bytes_def)
  ultimately show ?thesis using nat_le_le_nat [of ?bs] by (simp add: unat_of_nat_addr)
qed

lemma wb_wr_aligned:
  "aligned a 8 \<Longrightarrow> wb_wr a 255 v m = (\<lambda>x. if unat (x - a) < 8 then nat_le 8 (unat v) ! unat (x - a) else m x)"
proof -
  assume al: "aligned a 8"
  have m8: "(255 :: u64) = mask 8" by (simp add: mask_eq_exp_minus_1)
  have "bit (255 :: u64) i" if "i < 8" for i using that unfolding m8 by (simp add: bit_simps)
  then show ?thesis using wb_adr_aligned [of a 7] al by (auto simp: wb_wr_def Let_def)
qed

lemma wb_regs:
  assumes "wb_at a m t"
  shows "fst (dmi_rd DBG_WB_DATA (fst (t_be t))) = wb_rd m a"
    "wb_at (a + 8) m (t\<lparr>t_be := (snd (dmi_rd DBG_WB_DATA (fst (t_be t))), x)\<rparr>)"
    "wb_at (a + 8) (wb_wr a 255 v m) (t\<lparr>t_be := (dmi_wr DBG_WB_DATA v (fst (t_be t)), x)\<rparr>)"
proof -
  have c: "take_bit 8 (0x7ff :: u64) = 255" "bit (0x7ff :: u64) 8" "decode_autoinc 3 = 8"
    by (simp_all add: decode_autoinc_def)
  show "fst (dmi_rd DBG_WB_DATA (fst (t_be t))) = wb_rd m a"
    "wb_at (a + 8) m (t\<lparr>t_be := (snd (dmi_rd DBG_WB_DATA (fst (t_be t))), x)\<rparr>)"
    "wb_at (a + 8) (wb_wr a 255 v m) (t\<lparr>t_be := (dmi_wr DBG_WB_DATA v (fst (t_be t)), x)\<rparr>)"
    using assms by (simp_all add: wb_at_def DBG_WB_DATA_def dmi_rd_def dmi_wr_def wbm_read_def wbm_write_def wbm_inc_def Let_def c)
qed

lemma wb_setup_eq:
  fixes t :: "(dbg_hw \<times> u64) tool" and a :: u64
  defines "h \<equiv> fst (t_be t)"
  defines "b \<equiv> (h\<lparr>hw_wbm := (hw_wbm h)\<lparr>wbm_ctrl := 0x7ff, wbm_addr := a\<rparr>\<rparr>, snd (t_be t))"
  shows "wb_setup hwc a t = ret (t\<lparr>t_be := b\<rparr>) \<and> wb_at a (hw_mem h) (t\<lparr>t_be := b\<rparr>)"
proof -
  have "take_bit 11 (0x7ff :: u64) = 0x7ff" by simp
  then show ?thesis
    by (simp add: b_def h_def wb_setup_def reg_simps wb_at_def DBG_WB_CTRL_def DBG_WB_ADDR_def dmi_wr_def wbm_write_def Let_def)
qed

section \<open>Reading and writing memory\<close>

lemma aligned_step: "aligned a (8 + n) \<Longrightarrow> aligned (a + 8) n"
  by (auto simp: aligned_def unat_word_ariths)

lemma aligned_le: "aligned a n \<Longrightarrow> k \<le> n \<Longrightarrow> aligned a k"
  by (simp add: aligned_def)

lemma mem_bytes_add: "mem_bytes m a (k + n) = mem_bytes m a k @ mem_bytes m (a + of_nat k) n"
proof -
  have "[0..<k + n] = [0..<k] @ map (\<lambda>i. i + k) [0..<n]" using upt_add_eq_append [of 0 k n] by (simp add: map_add_upt add.commute)
  then have "mem_bytes m a (k + n) = map (\<lambda>i. m (a + of_nat i)) ([0..<k] @ map (\<lambda>i. i + k) [0..<n])" unfolding mem_bytes_def by (rule arg_cong)
  then show ?thesis by (simp add: mem_bytes_def ac_simps)
qed

lemma mem_read_loop_eq:
  "wb_at a m t \<Longrightarrow> i + n < 2 ^ 31 \<Longrightarrow>
   \<exists>b. mem_read_loop hwc n i addr t = Some (t\<lparr>t_be := b, t_out := t_out t @
       concat (map (\<lambda>k. mem_line (addr + 8 * of_nat k) (wb_rd m (a + 8 * of_nat k))) [0..<n])\<rparr>)"
proof (induction n arbitrary: a i addr t)
  case 0
  show ?case by (intro exI [of _ "t_be t"]) simp
next
  case (Suc n)
  let ?h = "fst (t_be t)"
  let ?t = "t\<lparr>t_be := (snd (dmi_rd DBG_WB_DATA ?h), fst (dmi_rd DBG_WB_DATA ?h))\<rparr>"
  have "wb_at (a + 8) m (print (mem_line addr (wb_rd m a)) ?t)" using wb_regs(2) [OF Suc.prems(1)] by (simp add: wb_at_def print_def)
  from Suc.IH [OF this, of "Suc i" "addr + 8"] Suc.prems(2) obtain b where
    "mem_read_loop hwc n (Suc i) (addr + 8) (print (mem_line addr (wb_rd m a)) ?t) =
      Some (t\<lparr>t_be := b, t_out := t_out t @ mem_line addr (wb_rd m a) @
       concat (map (\<lambda>k. mem_line (addr + 8 + 8 * of_nat k) (wb_rd m (a + 8 + 8 * of_nat k))) [0..<n])\<rparr>)"
    by (auto simp: print_def)
  moreover have "concat (map (\<lambda>k. mem_line (addr + 8 * of_nat k) (wb_rd m (a + 8 * of_nat k))) [0..<Suc n]) =
      mem_line addr (wb_rd m a) @ concat (map (\<lambda>k. mem_line (addr + 8 + 8 * of_nat k) (wb_rd m (a + 8 + 8 * of_nat k))) [0..<n])"
    by (subst upt_conv_Cons) (auto simp: map_Suc_upt [symmetric] o_def algebra_simps simp del: upt_Suc)
  ultimately show ?case
    using Suc.prems(2) by (intro exI [of _ b]) (simp add: reg_simps wb_regs(1) [OF Suc.prems(1)] del: upt_Suc)
qed

lemma mem_write_eq:
  assumes "aligned a 8"
  shows "\<exists>b. mem_write hwc a v t = ret (t\<lparr>t_be := b\<rparr>) \<and> hw_mem (fst b) = wb_wr a 255 v (hw_mem (fst (t_be t)))"
proof -
  let ?h = "fst (t_be t)"
  let ?b = "(?h\<lparr>hw_wbm := (hw_wbm ?h)\<lparr>wbm_ctrl := 0x7ff, wbm_addr := a\<rparr>\<rparr>, snd (t_be t))"
  have 1: "wb_setup hwc a t = ret (t\<lparr>t_be := ?b\<rparr>)" "wb_at a (hw_mem ?h) (t\<lparr>t_be := ?b\<rparr>)" using wb_setup_eq [of a t] by auto
  from wb_regs(3) [OF 1(2), of v "snd (t_be t)"] show ?thesis by (auto simp: mem_write_def 1(1) reg_simps wb_at_def)
qed

lemma mem_read_eq:
  assumes "unat n < 2 ^ 31"
  shows "\<exists>b. mem_read hwc a n t = Some (t\<lparr>t_be := b, t_out := t_out t @
       concat (map (\<lambda>k. mem_line (a + 8 * of_nat k) (wb_rd (hw_mem (fst (t_be t))) (a + 8 * of_nat k))) [0..<unat n])\<rparr>)"
proof -
  let ?h = "fst (t_be t)"
  let ?b = "(?h\<lparr>hw_wbm := (hw_wbm ?h)\<lparr>wbm_ctrl := 0x7ff, wbm_addr := a\<rparr>\<rparr>, snd (t_be t))"
  have 1: "wb_setup hwc a t = ret (t\<lparr>t_be := ?b\<rparr>)" "wb_at a (hw_mem ?h) (t\<lparr>t_be := ?b\<rparr>)" using wb_setup_eq [of a t] by auto
  have "mem_read hwc a n t = mem_read_loop hwc (unat n) 0 a (t\<lparr>t_be := ?b\<rparr>)"
    using 1(1) by (simp add: mem_read_def wb_setup_def reg_simps)
  with mem_read_loop_eq [OF 1(2), of 0 "unat n" a] assms show ?thesis by auto
qed

section \<open>Loading and saving\<close>

lemma le_nat_pad: "le_nat (xs @ replicate k 0) = le_nat xs"
proof -
  have "le_nat (replicate k 0) = 0" by (induction k) auto
  then show ?thesis by (induction xs) auto
qed

lemma progress_out: "\<exists>out. progress n t = t\<lparr>t_out := out\<rparr>"
  by (rule exI [of _ "t_out (progress n t)"]) (simp add: progress_def print_def)

lemma pad8_step: "bs \<noteq> [] \<Longrightarrow> pad8 bs = nat_le 8 (le_nat (take 8 bs)) @ pad8 (drop 8 bs)"
proof -
  assume "bs \<noteq> []"
  have z: "nat_le (length xs + k) (le_nat xs) = xs @ replicate k 0" for xs k
    using nat_le_le_nat [of "xs @ replicate k 0"] by (simp add: le_nat_pad)
  show ?thesis
  proof (cases "length bs < 8")
    case True
    moreover from this \<open>bs \<noteq> []\<close> have "(8 - length bs mod 8) mod 8 = 8 - length bs" by (cases "length bs") auto
    ultimately show ?thesis using z [of bs "8 - length bs"] by (simp add: pad8_def)
  next
    case False
    then have "(length bs - 8) mod 8 = length bs mod 8" by (simp add: le_mod_geq)
    with False z [of "take 8 bs" 0] show ?thesis by (simp add: pad8_def)
  qed
qed

lemma length_pad8_step: "bs \<noteq> [] \<Longrightarrow> length (pad8 bs) = 8 + length (pad8 (drop 8 bs))"
  by (simp add: pad8_step [of bs])

lemma length_pad8: "bs \<noteq> [] \<Longrightarrow> \<exists>k. length (pad8 bs) = 8 * Suc k \<and> 8 * k < length bs \<and> length bs \<le> 8 * Suc k"
proof -
  assume "bs \<noteq> []"
  then obtain l where l: "length bs = Suc l" by (cases bs) auto
  define q r where "q = l div 8" and "r = l mod 8"
  then have "l = 8 * q + r" "r < 8" by simp_all
  moreover from \<open>r < 8\<close> have "r \<in> {0, 1, 2, 3, 4, 5, 6, 7}" by auto
  ultimately have "Suc l + (8 - Suc l mod 8) mod 8 = 8 * Suc (l div 8)" by (auto simp: mod_Suc)
  with l show ?thesis by (intro exI [of _ "l div 8"]) (simp add: pad8_def)
qed

lemma store_step:
  fixes m :: "u64 \<Rightarrow> u8"
  assumes "length xs = 8" "8 + length ys \<le> 2 ^ 32"
  shows "(\<lambda>x. if unat (x - (a + 8)) < length ys then ys ! unat (x - (a + 8)) else if unat (x - a) < 8 then xs ! unat (x - a) else m x) =
     (\<lambda>x. if unat (x - a) < 8 + length ys then (xs @ ys) ! unat (x - a) else m x)"
proof
  fix x
  let ?d = "x - a"
  have d: "x - (a + 8) = ?d - 8" by simp
  show "(if unat (x - (a + 8)) < length ys then ys ! unat (x - (a + 8)) else if unat ?d < 8 then xs ! unat ?d else m x) =
     (if unat ?d < 8 + length ys then (xs @ ys) ! unat ?d else m x)"
  proof (cases "unat ?d < 8")
    case True
    then have "unat (?d - 8) = unat ?d + 2 ^ 64 - 8" by (simp add: unat_sub_if_size word_size)
    then have "\<not> unat (?d - 8) < length ys" using assms(2) by simp
    with True assms(1) show ?thesis unfolding d by (simp add: nth_append)
  next
    case False
    then have "unat (?d - 8) = unat ?d - 8" by (simp add: unat_sub_if_size word_size)
    with False assms(1) show ?thesis unfolding d by (auto simp: nth_append)
  qed
qed

lemma load_loop_eq:
  "wb_at a m t \<Longrightarrow> aligned a (length (pad8 bs)) \<Longrightarrow> n + length (pad8 bs) < 2 ^ 31 \<Longrightarrow>
   \<exists>b out. load_loop hwc n bs t = ret (n + length (pad8 bs), t\<lparr>t_be := b, t_out := out\<rparr>) \<and>
     hw_mem (fst b) = (\<lambda>x. if unat (x - a) < length (pad8 bs) then pad8 bs ! unat (x - a) else m x)"
proof (induction "length bs" arbitrary: a m t n bs rule: less_induct)
  case less
  show ?case
  proof (cases "bs = []")
    case True
    with less.prems show ?thesis
      by (intro exI [of _ "t_be t"] exI [of _ "t_out t"]) (simp add: load_loop.simps pad8_def wb_at_def)
  next
    case False
    let ?v = "of_nat (le_nat (take 8 bs)) :: u64" and ?h = "fst (t_be t)"
    let ?t = "progress (n + 8) (t\<lparr>t_be := (dmi_wr DBG_WB_DATA ?v ?h, snd (t_be t))\<rparr>)"
    let ?m = "wb_wr a 255 ?v m"
    have len: "length (pad8 bs) = 8 + length (pad8 (drop 8 bs))" by (rule length_pad8_step [OF False])
    have at: "wb_at (a + 8) ?m ?t" using wb_regs(3) [OF less.prems(1)] by (simp add: wb_at_def progress_def print_def)
    have al: "aligned (a + 8) (length (pad8 (drop 8 bs)))" using aligned_step less.prems(2) unfolding len by blast
    have al8: "aligned a 8" by (rule aligned_le [OF less.prems(2)]) (simp add: len)
    have "length (drop 8 bs) < length bs" using False by simp
    from less.hyps [OF this at al, of "n + 8"] less.prems(3) len obtain b out where
      r: "load_loop hwc (n + 8) (drop 8 bs) ?t = ret (n + length (pad8 bs), ?t\<lparr>t_be := b, t_out := out\<rparr>)"
      "hw_mem (fst b) = (\<lambda>x. if unat (x - (a + 8)) < length (pad8 (drop 8 bs)) then pad8 (drop 8 bs) ! unat (x - (a + 8)) else ?m x)"
      by (auto simp: add.assoc)
    have "le_nat (take 8 bs) < addr_max"
      using le_nat_less [of "take 8 bs"] power_increasing [of "length (take 8 bs)" 8 "256 :: nat"] by (simp add: addr_max_def)
    then have v: "unat ?v = le_nat (take 8 bs)" by (rule unat_of_nat_addr)
    have "hw_mem (fst b) = (\<lambda>x. if unat (x - a) < length (pad8 bs) then pad8 bs ! unat (x - a) else m x)"
      unfolding r(2) wb_wr_aligned [OF al8] v pad8_step [OF False] length_append length_nat_le
      by (rule store_step) (use less.prems(2) len in \<open>auto simp: aligned_def\<close>)
    moreover have "load_loop hwc n bs t = load_loop hwc (n + 8) (drop 8 bs) ?t"
      using False less.prems(3) len by (subst load_loop.simps) (simp add: reg_simps)
    moreover have "?t\<lparr>t_be := b, t_out := out\<rparr> = t\<lparr>t_be := b, t_out := out\<rparr>" by (simp add: progress_def print_def)
    ultimately show ?thesis using r(1) by (intro exI [of _ b] exI [of _ out]) simp
  qed
qed

lemma save_loop_eq:
  "wb_at a m t \<Longrightarrow> aligned a (8 * Suc k) \<Longrightarrow> n + 8 * k < unat sz \<or> k = 0 \<Longrightarrow> unat sz \<le> n + 8 * Suc k \<Longrightarrow> n + 8 * Suc k < 2 ^ 31 \<Longrightarrow>
   \<exists>b out. save_loop hwc sz n w t = ret (n + 8 * Suc k, w @ mem_bytes m a (8 * Suc k), t\<lparr>t_be := b, t_out := out\<rparr>) \<and> hw_mem (fst b) = m"
proof (induction k arbitrary: a t n w)
  case 0
  let ?h = "fst (t_be t)"
  let ?t = "t\<lparr>t_be := (snd (dmi_rd DBG_WB_DATA ?h), fst (dmi_rd DBG_WB_DATA ?h))\<rparr>"
  have "save_loop hwc sz n w t = ret (n + 8, w @ mem_bytes m a 8, progress (n + 8) ?t)"
    using 0(2,4,5) by (subst save_loop.simps) (simp add: reg_simps wb_regs(1) [OF 0(1)] wb_rd_aligned)
  moreover obtain out where "progress (n + 8) ?t = ?t\<lparr>t_out := out\<rparr>" using progress_out by blast
  ultimately have "save_loop hwc sz n w t = ret (n + 8 * Suc 0, w @ mem_bytes m a (8 * Suc 0), t\<lparr>t_be := t_be ?t, t_out := out\<rparr>)"
    by simp
  moreover have "hw_mem (fst (t_be ?t)) = m" using wb_regs(2) [OF 0(1)] by (simp add: wb_at_def)
  ultimately show ?case by blast
next
  case (Suc k)
  let ?h = "fst (t_be t)"
  let ?t = "progress (n + 8) (t\<lparr>t_be := (snd (dmi_rd DBG_WB_DATA ?h), fst (dmi_rd DBG_WB_DATA ?h))\<rparr>)"
  let ?w = "w @ mem_bytes m a 8"
  have al: "aligned a 8" "aligned (a + 8) (8 * Suc k)"
    using Suc.prems(2) aligned_step [of a "8 * Suc k"] by (auto intro: aligned_le)
  have at: "wb_at (a + 8) m ?t" using wb_regs(2) [OF Suc.prems(1)] by (simp add: wb_at_def progress_def print_def)
  have "(n + 8) + 8 * k < unat sz \<or> k = 0" "unat sz \<le> (n + 8) + 8 * Suc k" "(n + 8) + 8 * Suc k < 2 ^ 31" using Suc.prems(3-5) by auto
  from Suc.IH [OF at al(2) this] obtain b out where
    r: "save_loop hwc sz (n + 8) ?w ?t = ret (n + 8 + 8 * Suc k, ?w @ mem_bytes m (a + 8) (8 * Suc k), ?t\<lparr>t_be := b, t_out := out\<rparr>)" "hw_mem (fst b) = m"
    by blast
  have "save_loop hwc sz n w t = save_loop hwc sz (n + 8) ?w ?t"
    using Suc.prems(3,5) by (subst save_loop.simps) (simp add: reg_simps wb_regs(1) [OF Suc.prems(1)] wb_rd_aligned [OF al(1)])
  moreover have "?w @ mem_bytes m (a + 8) (8 * Suc k) = w @ mem_bytes m a (8 * Suc (Suc k))"
    using mem_bytes_add [of m a 8 "8 * Suc k"] by simp
  moreover have "?t\<lparr>t_be := b, t_out := out\<rparr> = t\<lparr>t_be := b, t_out := out\<rparr>" by (simp add: progress_def print_def)
  ultimately show ?case using r by (intro exI [of _ b] exI [of _ out]) simp
qed

lemma load_eq:
  assumes "t_files t f = Some bs" "aligned a (length (pad8 bs))" "length (pad8 bs) < 2 ^ 31"
  shows "\<exists>b out. load hwc f a t = ret (t\<lparr>t_be := b, t_out := out\<rparr>) \<and>
     hw_mem (fst b) = (\<lambda>x. if unat (x - a) < length (pad8 bs) then pad8 bs ! unat (x - a) else hw_mem (fst (t_be t)) x)"
proof -
  let ?h = "fst (t_be t)"
  let ?t = "t\<lparr>t_be := (?h\<lparr>hw_wbm := (hw_wbm ?h)\<lparr>wbm_ctrl := 0x7ff, wbm_addr := a\<rparr>\<rparr>, snd (t_be t))\<rparr>"
  have 1: "wb_setup hwc a t = ret ?t" "wb_at a (hw_mem ?h) ?t" using wb_setup_eq [of a t] by auto
  from load_loop_eq [OF 1(2) assms(2), of 0] assms(3) obtain b out where
    2: "load_loop hwc 0 bs ?t = ret (length (pad8 bs), ?t\<lparr>t_be := b, t_out := out\<rparr>)"
      "hw_mem (fst b) = (\<lambda>x. if unat (x - a) < length (pad8 bs) then pad8 bs ! unat (x - a) else hw_mem ?h x)" by auto
  show ?thesis
    by (intro exI [of _ b] exI [of _ "out @ hexnat (length (pad8 bs)) @ '' done.'' @ nl"])
      (simp add: load_def assms(1) 1(1) 2 print_def)
qed

lemma save_eq:
  assumes "t_writable t f" "aligned a (8 * Suc k)" "8 * k < unat sz \<or> k = 0" "unat sz \<le> 8 * Suc k" "8 * Suc k < 2 ^ 31"
  shows "\<exists>b out. save hwc f a sz t = ret (t\<lparr>t_be := b, t_out := out, t_files := (t_files t)(f \<mapsto>
     mem_bytes (hw_mem (fst (t_be t))) a (8 * Suc k) @ drop (8 * Suc k) (case t_files t f of None \<Rightarrow> [] | Some old \<Rightarrow> old))\<rparr>) \<and>
     hw_mem (fst b) = hw_mem (fst (t_be t))"
proof -
  let ?h = "fst (t_be t)"
  let ?t = "t\<lparr>t_be := (?h\<lparr>hw_wbm := (hw_wbm ?h)\<lparr>wbm_ctrl := 0x7ff, wbm_addr := a\<rparr>\<rparr>, snd (t_be t))\<rparr>"
  have 1: "wb_setup hwc a t = ret ?t" "wb_at a (hw_mem ?h) ?t" using wb_setup_eq [of a t] by auto
  from save_loop_eq [OF 1(2) assms(2), of 0 sz "[]"] assms(3-5) obtain b out where
    2: "save_loop hwc sz 0 [] ?t = ret (8 * Suc k, mem_bytes (hw_mem ?h) a (8 * Suc k), ?t\<lparr>t_be := b, t_out := out\<rparr>)" "hw_mem (fst b) = hw_mem ?h"
    by auto
  have [simp]: "length (mem_bytes (hw_mem ?h) a (8 * Suc k)) = 8 * Suc k" by (simp add: mem_bytes_def)
  show ?thesis
    by (intro exI [of _ b] exI [of _ "out @ hexnat (8 * Suc k) @ '' done.'' @ nl"])
      (simp add: save_def assms(1) 1(1) 2 print_def Let_def del: mult_Suc_right)
qed

lemma mem_bytes_loaded:
  assumes "length bs \<le> 2 ^ 32"
  shows "mem_bytes (\<lambda>x. if unat (x - a) < length bs then bs ! unat (x - a) else m x) a (length bs) = bs"
proof (rule nth_equalityI)
  fix i
  assume "i < length (mem_bytes (\<lambda>x. if unat (x - a) < length bs then bs ! unat (x - a) else m x) a (length bs))"
  then have i: "i < length bs" by (simp add: mem_bytes_def)
  then have "unat (of_nat i :: u64) = i" using assms by (intro unat_of_nat_addr) (simp add: addr_max_def)
  with i show "mem_bytes (\<lambda>x. if unat (x - a) < length bs then bs ! unat (x - a) else m x) a (length bs) ! i = bs ! i"
    by (simp add: mem_bytes_def)
qed (simp add: mem_bytes_def)

section \<open>Through the socket\<close>

definition ideal_of :: "dbg_hw \<Rightarrow> 'b tool \<Rightarrow> (dbg_hw \<times> u64) tool" where
  "ideal_of h t = \<lparr>t_be = (h, 0), t_core = t_core t, t_debug = t_debug t, t_junk = t_junk t, t_out = t_out t, t_err = t_err t,
     t_files = t_files t, t_writable = t_writable t\<rparr>"

lemma ideal_of_sel [simp]:
  "t_be (ideal_of h t) = (h, 0)" "t_core (ideal_of h t) = t_core t" "t_debug (ideal_of h t) = t_debug t" "t_junk (ideal_of h t) = t_junk t"
  "t_out (ideal_of h t) = t_out t" "t_err (ideal_of h t) = t_err t" "t_files (ideal_of h t) = t_files t" "t_writable (ideal_of h t) = t_writable t"
  by (simp_all add: ideal_of_def)

lemma sim_tool_ideal: "sim_idle h (t_be t) \<Longrightarrow> t_core t < 15 \<Longrightarrow> sim_tool t (ideal_of h t)"
  by (simp add: same_tool_def)

text \<open>A command line that selects the simulation, and the connection it opens.\<close>

definition sim_be :: "jsim backend" where
  "sim_be = \<lparr>be_init = sim_init sim_connect, be_reset = sim_reset, be_command = sim_command sim_net\<rparr>"

lemma sim_idle_waiting: "sim_idle h j \<Longrightarrow> sim_idle h (j\<lparr>jm_sock := (jm_sock j)\<lparr>js_waiting := True\<rparr>\<rparr>)"
  by (simp add: sim_idle_def sock_ok_def)

definition sim_listening :: "dbg_hw \<Rightarrow> jsim \<Rightarrow> bool" where
  "sim_listening h j \<longleftrightarrow> sim_idle h (snd (sim_connect [] 0 j)) \<and> 0 \<le> js_fd (jm_sock j)"

lemma sim_init_eq:
  assumes "sim_listening h (t_be t)"
  shows "\<exists>t1. sim_init sim_connect target freq t = Some (0, t1) \<and> sim_idle h (t_be t1) \<and> t_core t1 = t_core t"
  using assms by (auto simp: sim_init_def sim_connect_def sim_listening_def Let_def split_beta print_def)

text \<open>
  C1. A run of the debugger that selects the simulation behaves as if every debug register
  were accessed directly: over the packing of requests, the socket, the simulated JTAG
  process and the transport module it prints the same text, leaves the same files, ends
  with the same status and has the same effect on the hardware as the session over the
  ideal backend. The words \<open>quit\<close> and \<open>dmiwrite\<close> are left out, since they can stop the
  simulation.
\<close>

theorem mw_main_sim_refines:
  assumes "bk sim_backend = sim_be" "mw_opts options opts0 = ret os" "o_backend os = Some sim_backend"
    "sim_listening h (t_be t)" "''quit'' \<notin> set args" "''dmiwrite'' \<notin> set args"
  shows "\<exists>t1. sim_init sim_connect (o_target os) (o_freq os) (t\<lparr>t_core := o_core os, t_debug := o_debug os\<rparr>) = Some (0, t1) \<and>
    rsim (same_tool (\<lambda>j hx. sim_idle (fst hx) j)) (mw_main bk options args t) (mw_session (reg_command dmi_rd dmi_wr) args (ideal_of h t1))"
proof -
  let ?t = "t\<lparr>t_core := o_core os, t_debug := o_debug os\<rparr>"
  have core: "o_core os < 15" using mw_opts_core [OF assms(2)] by (simp add: opts0_def)
  from sim_init_eq [of h ?t "o_target os" "o_freq os"] assms(4) obtain t1 where
    t1: "sim_init sim_connect (o_target os) (o_freq os) ?t = Some (0, t1)" "sim_idle h (t_be t1)" "t_core t1 = o_core os" by auto
  have "mw_main bk options args t = mw_session (sim_command sim_net) args t1"
    by (simp add: mw_main_def assms(1-3) sim_be_def t1(1))
  with sim_link.link_session [OF sim_tool_ideal assms(5,6), of h t1] t1 core show ?thesis by auto
qed

section \<open>Example target\<close>

text \<open>A target with empty memory and one stopped core, as a simulation starts it.\<close>

definition core0 :: cdbg where
  "core0 = \<lparr>cd_stopping = True, cd_stopped = True, cd_terminated = False, cd_nia = 0x100, cd_msr = 1, cd_index = 0,
     cd_gpr = of_nat, cd_spr = (\<lambda>_. 0), cd_ls_spr = (\<lambda>_. 0), cd_bits = 1, cd_log = [1, 2], cd_wrptr = 1, cd_hold = False,
     cd_log_addr = 0x80000000, cd_log_data = 0, cd_trig = 0, cd_mtrig = 0, cd_resets = 0, cd_icresets = 0, cd_steps = 0\<rparr>"

definition hw0 :: dbg_hw where
  "hw0 = \<lparr>hw_wbm = \<lparr>wbm_addr = 0, wbm_ctrl = 0, wbm_latch = 0\<rparr>, hw_mem = (\<lambda>_. 0), hw_cores = [core0], hw_stop = False\<rparr>"

definition sim0 :: jsim where
  "sim0 = \<lparr>jm_sock = \<lparr>js_fd = 3, js_cfd = 4, js_can_listen = True, js_waiting = False, js_in = [], js_out = []\<rparr>,
     jm_rsp = replicate 248 False,
     jm_dtm = \<lparr>dt_request = 0, dt_pending = False, dt_busy = 0, dt_lat = [2, 0, 1], dt_hw = hw0\<rparr>,
     jm_junk = replicate 32 0xaa\<rparr>"

lemma sim0_idle [simp]: "sim_idle hw0 sim0" "sim_listening hw0 sim0"
  by (simp_all add: sim_idle_def sim_listening_def sim_connect_def sock_ok_def dtm_idle_def sim0_def hw0_def)

theorem mw_main_sim_refines_witness:
  "\<exists>t1. sim_init sim_connect None 0 (tool0 sim0) = Some (0, t1) \<and>
    rsim (same_tool (\<lambda>j hx. sim_idle (fst hx) j)) (mw_main (\<lambda>_. sim_be) [(CHR ''b'', Some ''sim'')] [''mw'', ''100'', ''2a'', ''mr'', ''100''] (tool0 sim0))
      (mw_session (reg_command dmi_rd dmi_wr) [''mw'', ''100'', ''2a'', ''mr'', ''100''] (ideal_of hw0 t1))"
  using mw_main_sim_refines [of "\<lambda>_. sim_be" "[(CHR ''b'', Some ''sim'')]" "opts0\<lparr>o_backend := Some sim_backend\<rparr>" hw0 "tool0 sim0"
      "[''mw'', ''100'', ''2a'', ''mr'', ''100'']"]
  by (simp add: mw_opt_def opts0_def tool0_def)

section \<open>Files\<close>



section \<open>One doubleword\<close>

lemma wb_rd_wb_wr: "aligned a 8 \<Longrightarrow> wb_rd (wb_wr a 255 v m) a = v"
proof -
  assume al: "aligned a 8"
  have "nat_le 8 (unat (wb_rd (wb_wr a 255 v m) a)) = nat_le 8 (unat v)"
    using wb_rd_aligned [OF al] mem_bytes_loaded [of "nat_le 8 (unat v)" a m] by (simp add: wb_wr_aligned [OF al])
  then have "le_nat (nat_le 8 (unat (wb_rd (wb_wr a 255 v m) a))) = le_nat (nat_le 8 (unat v))" by simp
  moreover have "unat x mod 256 ^ 8 = unat x" for x :: u64 using unsigned_less [of x, where ?'a = nat] by simp
  ultimately show ?thesis by (simp only: le_nat_nat_le) (rule unsigned_word_eqI)
qed

text \<open>
  C17. Through the socket, a doubleword written to memory is printed by a read of the same address.
\<close>

theorem sim_mem_write_read:
  assumes "sim_idle h (t_be t)" "t_core t < 15" "aligned a 8"
  shows "\<exists>t1 t2. mem_write (sim_command sim_net) a v t = ret t1 \<and> mem_read (sim_command sim_net) a 1 t1 = Some t2 \<and>
    t_out t2 = t_out t @ mem_line a v"
proof -
  have "sim_tool t (ideal_of h t)" using assms(1,2) by (rule sim_tool_ideal)
  note l = sim_link.link_mem_write [OF this, of a v]
  from mem_write_eq [OF assms(3), of v "ideal_of h t"] obtain b where
    1: "mem_write hwc a v (ideal_of h t) = ret ((ideal_of h t)\<lparr>t_be := b\<rparr>)" "hw_mem (fst b) = wb_wr a 255 v (hw_mem h)" by auto
  from l [unfolded 1(1) rsim_ret_iff] obtain t1 where
    2: "mem_write (sim_command sim_net) a v t = ret t1" "sim_tool t1 ((ideal_of h t)\<lparr>t_be := b\<rparr>)" by blast
  from mem_read_eq [of 1 a "(ideal_of h t)\<lparr>t_be := b\<rparr>"] obtain b2 where
    3: "mem_read hwc a 1 ((ideal_of h t)\<lparr>t_be := b\<rparr>) = Some ((ideal_of h t)\<lparr>t_be := b2, t_out := t_out t @ mem_line a v\<rparr>)"
    by (auto simp: 1(2) wb_rd_wb_wr [OF assms(3)])
  from sim_link.link_mem_read [OF 2(2), of a 1, unfolded 3] 2(1) show ?thesis
    by (auto simp: option_rel_Some2 same_tool_def)
qed

theorem sim_mem_write_read_witness:
  "\<exists>t1 t2. mem_write (sim_command sim_net) 0x100 0x2a (tool0 sim0) = ret t1 \<and> mem_read (sim_command sim_net) 0x100 1 t1 = Some t2 \<and>
    t_out t2 = t_out (tool0 sim0) @ mem_line 0x100 0x2a"
  by (rule sim_mem_write_read [of hw0]) (simp_all add: tool0_def aligned_def)

end
