(* ===== verification/Debug_Core.thy ===== *)
theory Debug_Core
  imports Debug_Tool
begin

text \<open>
  The commands of the debugger that look at a core: its registers, its state and its log.
\<close>

section \<open>Registers of a core on the debug bus\<close>

definition has_core :: "dbg_hw \<Rightarrow> u32 \<Rightarrow> cdbg \<Rightarrow> bool" where
  "has_core h core c \<longleftrightarrow> core < 15 \<and> unat core < length (hw_cores h) \<and> hw_cores h ! unat core = c"

definition put_core :: "u32 \<Rightarrow> cdbg \<Rightarrow> dbg_hw \<Rightarrow> dbg_hw" where
  "put_core core c h = h\<lparr>hw_cores := (hw_cores h)[unat core := c]\<rparr>"

lemma has_core_put [simp]: "has_core h core c \<Longrightarrow> has_core (put_core core c' h) core c'"
  by (simp add: has_core_def put_core_def)

lemma hw0_core [simp]: "has_core hw0 0 core0"
  by (simp add: has_core_def hw0_def)

lemma put_core_put [simp]: "put_core core c' (put_core core c h) = put_core core c' h"
  by (simp add: put_core_def)

lemma put_core_same: "has_core h core c \<Longrightarrow> put_core core c h = h"
  by (auto simp: has_core_def put_core_def)

lemma core_reg_addr:
  assumes "core < 15" "r < 16"
  shows "unat (ucast (0x10 + of_nat r + push_bit 4 core :: u32) :: u8) = 16 * (unat core + 1) + r"
proof -
  have "unat (push_bit 4 core) = 16 * unat core" "unat core < 15"
    using assms(1) by (simp_all add: push_bit_eq_mult unat_word_ariths word_less_nat_alt)
  moreover have "unat (of_nat r :: u32) = r" using assms(2) by (simp add: unat_of_nat)
  ultimately show ?thesis using assms(2) by (simp add: unsigned_ucast_eq unat_word_ariths take_bit_eq_mod)
qed

lemma core_reg_select:
  assumes "has_core h core c" "r < 16"
  defines "a \<equiv> (ucast (0x10 + of_nat r + push_bit 4 core :: u32) :: u8)"
  shows "dmi_rd a h = (case cd_read (of_nat r) c of (v, c') \<Rightarrow> (v, put_core core c' h))"
    "dmi_wr a v h = put_core core (cd_write (of_nat r) v c) h"
proof -
  have core: "core < 15" "unat core < length (hw_cores h)" "hw_cores h ! unat core = c" using assms(1) by (auto simp: has_core_def)
  have u: "unat a = 16 * (unat core + 1) + r" unfolding a_def by (rule core_reg_addr [OF core(1) assms(2)])
  then have k: "unat a div 16 = unat core + 1" "unat a mod 16 = r" using assms(2) unfolding u mod_mult_self4 by simp_all
  have "\<not> a < 4" using u by (simp add: word_less_nat_alt)
  moreover have "a AND 15 = of_nat r"
  proof (rule unsigned_word_eqI)
    have m: "(15 :: u8) = mask 4" by (simp add: mask_eq_exp_minus_1)
    have "unat (a AND 15) = take_bit 4 (unat a)" unfolding m by (simp only: take_bit_eq_mask [symmetric] unsigned_take_bit_eq)
    then have "unat (a AND 15) = unat a mod 16" by (simp add: take_bit_eq_mod)
    then show "unat (a AND 15) = unat (of_nat r :: u8)" using k(2) assms(2) by (simp add: unat_of_nat)
  qed
  ultimately show "dmi_rd a h = (case cd_read (of_nat r) c of (v, c') \<Rightarrow> (v, put_core core c' h))"
    "dmi_wr a v h = put_core core (cd_write (of_nat r) v c) h"
    using core k by (simp_all add: dmi_rd_def dmi_wr_def put_core_def split: prod.split)
qed

lemma core_reg_forms:
  "DBG_CORE_CTRL core = ucast (0x10 + of_nat 0 + push_bit 4 core :: u32)" "DBG_CORE_STAT core = ucast (0x10 + of_nat 1 + push_bit 4 core :: u32)"
  "DBG_CORE_NIA core = ucast (0x10 + of_nat 2 + push_bit 4 core :: u32)" "DBG_CORE_MSR core = ucast (0x10 + of_nat 3 + push_bit 4 core :: u32)"
  "DBG_CORE_GSPR_INDEX core = ucast (0x10 + of_nat 4 + push_bit 4 core :: u32)" "DBG_CORE_GSPR_DATA core = ucast (0x10 + of_nat 5 + push_bit 4 core :: u32)"
  "DBG_LOG_ADDR core = ucast (0x10 + of_nat 6 + push_bit 4 core :: u32)" "DBG_LOG_DATA core = ucast (0x10 + of_nat 7 + push_bit 4 core :: u32)"
  by (simp_all add: core_regs)

lemma core_reads:
  assumes "has_core h core c"
  shows "dmi_rd (DBG_CORE_STAT core) h = (stat_reg c, h)" "dmi_rd (DBG_CORE_NIA core) h = (cd_nia c, h)" "dmi_rd (DBG_CORE_MSR core) h = (cd_msr c, h)"
    "dmi_rd (DBG_CORE_GSPR_DATA core) h = (gspr_data c, h)"
    "dmi_rd (DBG_LOG_ADDR core) h = (push_bit 32 (log_write_addr c) OR ucast (cd_log_addr c), h)"
    "dmi_rd (DBG_LOG_DATA core) h = (cd_log_data c, put_core core (log_next c) h)"
  unfolding core_reg_forms
  by (subst core_reg_select(1) [OF assms], simp, simp add: cd_read_def put_core_same [OF assms])+

lemma core_writes:
  assumes "has_core h core c"
  shows "dmi_wr (DBG_CORE_CTRL core) v h = put_core core (cd_ctrl v c) h" "dmi_wr (DBG_CORE_GSPR_INDEX core) v h = put_core core (c\<lparr>cd_index := ucast v\<rparr>) h"
    "dmi_wr (DBG_LOG_ADDR core) v h = put_core core (log_fetch (c\<lparr>cd_log_addr := ucast v\<rparr>)) h"
  unfolding core_reg_forms
  by (subst core_reg_select(2) [OF assms], simp, simp add: cd_write_def)+

section \<open>Status and registers\<close>

definition state_text :: "bool \<Rightarrow> bool \<Rightarrow> bool \<Rightarrow> string" where
  "state_text stopping stopped terminated =
     (if stopped then if stopping then if terminated then ''stopped (terminated)'' else ''stopped'' else ''stopped (restarting?)''
      else if stopping then if terminated then ''stopping (terminated)'' else ''stopping''
      else if terminated then ''odd state (TERM but no STOP)'' else ''running'')"

definition status_report :: "u32 \<Rightarrow> cdbg \<Rightarrow> string" where
  "status_report core c = ''Core'' @ decnat (unat core) @ '': '' @ state_text (cd_stopping c) (cd_stopped c) (cd_terminated c) @ nl @
     '' NIA: '' @ hex0 16 (cd_nia c) @ nl @ '' MSR: '' @ hex0 16 (cd_msr c) @ nl"

lemma status_text_eq: "status_text (stat_reg c) = state_text (cd_stopping c) (cd_stopped c) (cd_terminated c)"
  by (cases "cd_stopping c"; cases "cd_stopped c"; cases "cd_terminated c")
    (simp_all add: status_text_def stat_reg_def state_text_def DBG_CORE_STAT_STOPPED_def DBG_CORE_STAT_STOPPING_def DBG_CORE_STAT_TERM_def)

lemma core_status_eq:
  assumes "has_core (fst (t_be t)) (t_core t) c" "\<not> t_debug t"
  shows "\<exists>b. core_status hwc t = ret (t\<lparr>t_be := b, t_out := t_out t @ status_report (t_core t) c\<rparr>) \<and> fst b = fst (t_be t)"
  using assms by (intro exI [of _ "(fst (t_be t), cd_msr c)"]) (simp add: core_status_def reg_simps core_reads print_def status_report_def status_text_eq)

text \<open>
  What a register index stands for: the general purpose registers, the special purpose
  registers of the execution unit, those of the load/store unit, and the floating point
  registers.
\<close>

definition gpr_value :: "cdbg \<Rightarrow> nat \<Rightarrow> u64" where
  "gpr_value c r =
     (if r < 32 then cd_gpr c r else if r < 50 then cd_spr c (r - 32) else if r < 60 then 0
      else if r < 64 then cd_ls_spr c (r - 60) else cd_gpr c (r - 32))"

definition gpr_line :: "cdbg \<Rightarrow> nat \<Rightarrow> string" where
  "gpr_line c r = reg_name (of_nat r) @ '':'' @ [CHR 0x09] @ hex0 16 (gpr_value c r) @ nl"

lemma gspr_data_eq:
  assumes "r < 96"
  shows "gspr_data (c\<lparr>cd_index := of_nat r\<rparr>) = gpr_value c r"
proof -
  have u: "unat (of_nat r :: u8) = r" using assms by (simp add: unat_of_nat)
  have b: "bit (of_nat r :: u8) k \<longleftrightarrow> odd (r div 2 ^ k)" if "k < 8" for k
  proof -
    have "bit (unat (of_nat r :: u8)) k = bit (of_nat r :: u8) k" using that by (simp add: bit_unsigned_iff)
    then show ?thesis unfolding u bit_iff_odd by (rule sym)
  qed
  consider "r < 32" | "32 \<le> r" "r < 64" | "64 \<le> r" by linarith
  then show ?thesis
  proof cases
    case 1
    then have "r div 32 = 0" "r div 64 = 0" by simp_all
    with 1 show ?thesis by (simp add: gspr_data_def u b gpr_value_def Let_def)
  next
    case 2
    then have "r div 32 = 1" "r div 64 = 0" "r mod 32 = r - 32" by (simp_all add: div_nat_eqI le_mod_geq)
    moreover have "60 \<le> r \<Longrightarrow> (r - 32) mod 4 = r - 60" using 2 mod_add_self2 [of "r - 60" 4] mod_mult_self2 [of "r - 60" 4 7] by simp
    ultimately show ?thesis using 2 by (auto simp: gspr_data_def u b gpr_value_def Let_def)
  next
    case 3
    with assms have "r div 32 = 2" "r div 64 = 1" "r mod 32 = r - 64" by (simp_all add: div_nat_eqI le_mod_geq)
    with 3 show ?thesis by (simp add: gspr_data_def u b gpr_value_def Let_def)
  qed
qed

lemma gpr_loop_eq:
  "has_core (fst (t_be t)) (t_core t) c \<Longrightarrow> r + n \<le> 96 \<Longrightarrow>
   \<exists>b. gpr_loop hwc n (of_nat r) t = ret (t\<lparr>t_be := b, t_out := t_out t @ concat (map (gpr_line c) [r..<r + n])\<rparr>)"
proof (induction n arbitrary: r t c)
  case 0
  show ?case by (intro exI [of _ "t_be t"]) simp
next
  case (Suc n)
  let ?h = "fst (t_be t)" and ?c = "c\<lparr>cd_index := ucast (of_nat r :: u64)\<rparr>"
  have i: "(ucast (of_nat r :: u64) :: u8) = of_nat r"
    using Suc.prems(2) by (intro unsigned_word_eqI) (simp add: unsigned_ucast_eq unsigned_of_nat take_bit_nat_eq_self)
  have v: "gspr_data ?c = gpr_value c r" unfolding i by (rule gspr_data_eq) (use Suc.prems(2) in simp)
  let ?h1 = "put_core (t_core t) ?c ?h"
  have c1: "has_core ?h1 (t_core t) ?c" using Suc.prems(1) by simp
  let ?t = "print (gpr_line c r) (t\<lparr>t_be := (?h1, gpr_value c r)\<rparr>)"
  have step: "gpr_loop hwc (Suc n) (of_nat r) t = gpr_loop hwc n (of_nat (Suc r)) ?t"
    by (simp add: reg_simps core_writes [OF Suc.prems(1)] core_reads [OF c1] v gpr_line_def add.commute)
  have "has_core (fst (t_be ?t)) (t_core ?t) ?c" using c1 by (simp add: print_def)
  from Suc.IH [OF this, of "Suc r"] Suc.prems(2) obtain b where
    "gpr_loop hwc n (of_nat (Suc r)) ?t = ret (?t\<lparr>t_be := b, t_out := t_out ?t @ concat (map (gpr_line ?c) [Suc r..<Suc r + n])\<rparr>)" by auto
  moreover have "gpr_line ?c = gpr_line c" by (rule ext) (simp add: gpr_line_def gpr_value_def)
  moreover have "[r..<r + Suc n] = r # [Suc r..<Suc r + n]" by (simp add: upt_conv_Cons)
  ultimately show ?case unfolding step by (intro exI [of _ b]) (simp add: print_def del: upt_Suc)
qed

text \<open>
  C18. Through the socket, \<open>gpr\<close> prints the named registers of the core from the given index on,
  each with its value, and never goes past the last floating point register, for an index
  up to that one and a count that does not wrap around.
\<close>

theorem sim_gpr_read:
  assumes "sim_idle h (t_be t)" "has_core h (t_core t) c" "unat (reg AND 0x7f) \<le> 96" "unat count < 2 ^ 63"
  defines "r \<equiv> unat (reg AND 0x7f)"
  shows "\<exists>t1. gpr_read (sim_command sim_net) reg count t = ret t1 \<and>
    t_out t1 = t_out t @ concat (map (gpr_line c) [r..<r + min (unat count) (96 - r)])"
proof -
  let ?n = "min (unat count) (96 - r)"
  have reg: "reg AND 0x7f = of_nat r" by (simp add: r_def)
  have "unat ((of_nat r :: u64) + count) = r + unat count"
    using assms(3,4) unfolding reg [symmetric] r_def by (subst unat_word_ariths) simp
  then have "(96 < (of_nat r :: u64) + count) = (96 < r + unat count)" by (simp add: word_less_nat_alt)
  moreover have "unat (96 - (of_nat r :: u64)) = 96 - r"
    using assms(3) unfolding reg [symmetric] r_def by (simp add: unat_sub word_le_nat_alt)
  ultimately have n: "unat (if 96 < (of_nat r :: u64) + count then 96 - of_nat r else count) = ?n" by auto
  have "sim_tool t (ideal_of h t)" using assms(1,2) by (auto intro: sim_tool_ideal simp: has_core_def)
  note l = sim_link.link_gpr_read [OF this, of reg count]
  have "gpr_read hwc reg count (ideal_of h t) = gpr_loop hwc ?n (of_nat r) (ideal_of h t)"
    by (simp only: gpr_read_def Let_def reg n)
  moreover have c: "has_core (fst (t_be (ideal_of h t))) (t_core (ideal_of h t)) c" using assms(2) by simp
  moreover have "r + ?n \<le> 96" using assms(3) by (simp add: r_def)
  ultimately obtain b where
    "gpr_read hwc reg count (ideal_of h t) = ret ((ideal_of h t)\<lparr>t_be := b, t_out := t_out t @ concat (map (gpr_line c) [r..<r + ?n])\<rparr>)"
    using gpr_loop_eq [OF c, unfolded ideal_of_sel] by metis
  from l [unfolded this rsim_ret_iff] show ?thesis by (auto simp: same_tool_def)
qed

theorem sim_gpr_read_witness:
  "\<exists>t1. gpr_read (sim_command sim_net) 30 4 (tool0 sim0) = ret t1 \<and>
    t_out t1 = t_out (tool0 sim0) @ concat (map (gpr_line core0) [30..<34])"
  using sim_gpr_read [of hw0 "tool0 sim0" core0 30 4] by simp

text \<open>
  For an index between 97 and 127 the limit on the count wraps around, so that the loop runs
  almost \<open>2 ^ 64\<close> times.
\<close>

theorem gpr_read_overrun:
  assumes "96 < r" "r < 128" "unat count < 2 ^ 63"
  shows "gpr_read cmd (of_nat r) count t = gpr_loop cmd (2 ^ 64 - (r - 96)) (of_nat r) t"
proof -
  have u: "unat (of_nat r :: u64) = r" using assms(2) by (intro unat_of_nat_addr) (simp add: addr_max_def)
  have m: "(0x7f :: u64) = mask 7" by (simp add: mask_eq_exp_minus_1)
  have "unat ((of_nat r :: u64) AND 0x7f) = take_bit 7 r" unfolding m by (simp only: take_bit_eq_mask [symmetric] unsigned_take_bit_eq u)
  then have "unat ((of_nat r :: u64) AND 0x7f) = r" using assms(2) by (simp add: take_bit_nat_eq_self)
  then have reg: "(of_nat r :: u64) AND 0x7f = of_nat r" using u by (metis word_unat_eq_iff)
  have "unat ((of_nat r :: u64) + count) = r + unat count" using assms u by (subst unat_word_ariths) simp
  then have "96 < (of_nat r :: u64) + count" using assms(1) by (simp add: word_less_nat_alt)
  moreover have "unat (96 - (of_nat r :: u64)) = 2 ^ 64 - (r - 96)" using assms(1,2) u by (simp add: unat_sub_if_size word_size)
  ultimately show ?thesis by (simp add: gpr_read_def Let_def reg)
qed

text \<open>
  C19. A session that stops the core reports it: the text printed at the end shows the core as
  asked to stop, with its next instruction address and its machine state.
\<close>

theorem sim_stop_status:
  assumes "sim_idle h (t_be t)" "has_core h (t_core t) c" "\<not> t_debug t"
  shows "\<exists>t1. mw_session (sim_command sim_net) [''stop''] t = ret t1 \<and>
    t_out t1 = t_out t @ status_report (t_core t) (c\<lparr>cd_stopping := True\<rparr>)"
proof -
  have "sim_tool t (ideal_of h t)" using assms(1,2) by (auto intro: sim_tool_ideal simp: has_core_def)
  note l = sim_link.link_session [OF this, of "[''stop'']"]
  let ?h = "put_core (t_core t) (c\<lparr>cd_stopping := True\<rparr>) h"
  let ?t = "(ideal_of h t)\<lparr>t_be := (?h, 0)\<rparr>"
  have "mw_loop 1 hwc [''stop''] (ideal_of h t) = ret ?t"
    by (simp add: mw_command_def core_stop_def reg_simps core_writes [OF assms(2)] cd_ctrl_def DBG_CORE_CTRL_STOP_def)
  then have "mw_session hwc [''stop''] (ideal_of h t) = core_status hwc ?t" by (simp add: mw_session_def del: mw_loop.simps)
  moreover obtain b where "core_status hwc ?t = ret (?t\<lparr>t_be := b, t_out := t_out t @ status_report (t_core t) (c\<lparr>cd_stopping := True\<rparr>)\<rparr>)"
    using core_status_eq [of ?t "c\<lparr>cd_stopping := True\<rparr>"] has_core_put [OF assms(2)] assms(3) by auto
  ultimately have s: "mw_session hwc [''stop''] (ideal_of h t) = ret (?t\<lparr>t_be := b, t_out := t_out t @ status_report (t_core t) (c\<lparr>cd_stopping := True\<rparr>)\<rparr>)"
    by simp
  from l [unfolded s rsim_ret_iff] show ?thesis by (auto simp: same_tool_def)
qed

theorem sim_stop_status_witness:
  "\<exists>t1. mw_session (sim_command sim_net) [''stop''] (tool0 sim0) = ret t1 \<and>
    t_out t1 = t_out (tool0 sim0) @ status_report 0 (core0\<lparr>cd_stopping := True\<rparr>)"
  using sim_stop_status [of hw0 "tool0 sim0" core0] by simp

end
