(* ===== verification/Debug_Log.thy ===== *)
theory Debug_Log
  imports Debug_Core
begin

text \<open>
  The log of a core: what the hardware records, and what the debugger reads of it.
\<close>

section \<open>The size of the log\<close>

definition log_ok :: "cdbg \<Rightarrow> bool" where
  "log_ok c \<longleftrightarrow> length (cd_log c) = 2 ^ cd_bits c \<and> cd_bits c \<le> 28 \<and> cd_wrptr c < 2 ^ cd_bits c"

lemma log_size_loop_eq:
  "k + n = 64 \<Longrightarrow> k \<le> b \<Longrightarrow> b < 64 \<Longrightarrow> drop_bit 1 waddr < 2 ^ b \<Longrightarrow> (\<And>j. j < b \<Longrightarrow> \<not> drop_bit 1 waddr < (2 :: u64) ^ j) \<Longrightarrow>
   log_size_loop n waddr (2 ^ k) = 2 ^ b"
proof (induction n arbitrary: k)
  case (Suc n)
  show ?case
  proof (cases "k = b")
    case False
    then have "k < b" using Suc.prems(2) by simp
    moreover have "push_bit 1 ((2 :: u64) ^ k) = 2 ^ Suc k" by (simp add: push_bit_eq_mult)
    ultimately show ?thesis using Suc.IH [of "Suc k"] Suc.prems by (simp add: Suc.prems(5) [OF \<open>k < b\<close>] mult.commute)
  qed (use Suc.prems in simp)
qed simp

lemma unat_exp: "k < 64 \<Longrightarrow> unat ((2 :: u64) ^ k) = 2 ^ k"
proof -
  assume "k < 64"
  then have "(2 :: nat) ^ k < addr_max" unfolding addr_max_def by (intro power_strict_increasing) simp_all
  then have "unat (of_nat (2 ^ k) :: u64) = 2 ^ k" by (rule unat_of_nat_addr)
  then show ?thesis by simp
qed

lemma log_size_eq:
  assumes "b \<le> 28" "w < 2 ^ b" "unat waddr = 2 ^ b + w"
  shows "log_size waddr = 2 ^ b"
proof -
  have "2 ^ b + w < 2 ^ 64" using unsigned_less [of waddr, where ?'a = nat] assms(3) by simp
  then have d: "unat (drop_bit 1 waddr) = (2 ^ b + w) div 2"
    unfolding unsigned_drop_bit_eq assms(3) by (simp add: drop_bit_eq_div take_bit_nat_eq_self)
  have "drop_bit 1 waddr < 2 ^ b" using assms(1,2) by (simp only: word_less_nat_alt d) (simp add: unat_exp)
  moreover have "\<not> drop_bit 1 waddr < 2 ^ j" if "j < b" for j
  proof -
    have "(2 :: nat) ^ j * 2 \<le> 2 ^ b" using that power_increasing [of "Suc j" b "2 :: nat"] by simp
    then have "(2 :: nat) ^ j \<le> (2 ^ b + w) div 2" by simp
    then show ?thesis using assms(1) that by (simp only: word_less_nat_alt d) (simp add: unat_exp)
  qed
  ultimately show ?thesis using log_size_loop_eq [of 0 64 b waddr] assms(1) by (simp only: log_size_def) simp
qed

text \<open>The address register of the log: the size and the write pointer above, the read address below.\<close>

lemma laddr_fields:
  assumes "log_ok c"
  defines "laddr \<equiv> push_bit 32 (log_write_addr c) OR (ucast (cd_log_addr c) :: u64)"
  shows "unat (drop_bit 32 laddr) = 2 ^ cd_bits c + cd_wrptr c" "laddr AND LOG_STOP = 0 \<longleftrightarrow> \<not> bit (cd_log_addr c) 31"
    "(ucast laddr :: u32) = cd_log_addr c"
proof -
  let ?n = "2 ^ cd_bits c + cd_wrptr c"
  have "(2 :: nat) ^ cd_bits c \<le> 2 ^ 28" using assms(1) by (intro power_increasing) (simp_all add: log_ok_def)
  then have n: "?n < 2 ^ 32" using assms(1) by (auto simp: log_ok_def)
  have w: "unat (log_write_addr c) = ?n" unfolding log_write_addr_def by (rule unat_of_nat_addr) (use n in \<open>simp add: addr_max_def\<close>)
  have hi: "\<not> bit (log_write_addr c) k" if "32 \<le> k" for k
  proof -
    have "?n < 2 ^ k" using n power_increasing [OF that, of "2 :: nat"] by simp
    then have "\<not> bit ?n k" by (simp add: bit_iff_odd)
    then have "\<not> bit (unat (log_write_addr c)) k" unfolding w .
    then show ?thesis by (simp add: bit_unsigned_iff)
  qed
  then have lo: "bit (log_write_addr c) k \<Longrightarrow> k < 32" for k by (meson not_less)
  have "drop_bit 32 laddr = log_write_addr c"
    by (rule bit_word_eqI) (auto simp: laddr_def bit_simps dest: bit_imp_le_length lo)
  then show "unat (drop_bit 32 laddr) = ?n" using w by simp
  show "(ucast laddr :: u32) = cd_log_addr c"
    by (rule bit_word_eqI) (auto simp: laddr_def bit_simps)
  have "LOG_STOP = push_bit 31 1" by (simp add: LOG_STOP_def)
  then show "laddr AND LOG_STOP = 0 \<longleftrightarrow> \<not> bit (cd_log_addr c) 31"
    using and_bit_nonzero [of laddr 31] by (auto simp: laddr_def bit_simps)
qed

section \<open>Reading the log\<close>

definition log_at :: "cdbg \<Rightarrow> nat \<Rightarrow> cdbg" where
  "log_at c x = c\<lparr>cd_log_addr := of_nat (2 ^ 31 + x mod 2 ^ (cd_bits c + 2)), cd_log_data := log_dword c (x mod 2 ^ (cd_bits c + 2))\<rparr>"

lemma log_at_simps [simp]: "cd_bits (log_at c x) = cd_bits c" "cd_log_data (log_at c x) = log_dword c (x mod 2 ^ (cd_bits c + 2))"
  "log_dword (log_at c x) = log_dword c" "log_ok (log_at c x) = log_ok c"
  by (simp_all add: log_at_def log_ok_def log_dword_def fun_eq_iff)

lemma log_at_addr: "cd_log_addr (log_at c x) = of_nat (2 ^ 31 + x mod 2 ^ (cd_bits c + 2))"
  by (simp add: log_at_def)

lemma log_len:
  assumes "log_ok c"
  shows "2 ^ (cd_bits c + 2) dvd (2 :: nat) ^ 31" "(2 :: nat) ^ (cd_bits c + 2) \<le> 2 ^ 30"
proof -
  have b: "cd_bits c + 2 \<le> 30" using assms by (simp add: log_ok_def)
  show "2 ^ (cd_bits c + 2) dvd (2 :: nat) ^ 31" by (rule le_imp_power_dvd) (use b in simp)
  show "(2 :: nat) ^ (cd_bits c + 2) \<le> 2 ^ 30" by (rule power_increasing [OF b]) simp
qed

lemma log_addr_unat: "log_ok c \<Longrightarrow> unat (of_nat (2 ^ 31 + x mod 2 ^ (cd_bits c + 2)) :: u32) = 2 ^ 31 + x mod 2 ^ (cd_bits c + 2)"
proof -
  assume "log_ok c"
  then have "x mod 2 ^ (cd_bits c + 2) < (2 :: nat) ^ 30" using log_len(2) [of c] mod_less_divisor [of "2 ^ (cd_bits c + 2)" x] by (meson less_le_trans zero_less_numeral zero_less_power)
  then show ?thesis by (subst unat_of_nat) simp
qed

lemma log_next_at: "log_ok c \<Longrightarrow> log_next (log_at c x) = log_at c (Suc x)"
proof -
  assume ok: "log_ok c"
  let ?n = "2 ^ (cd_bits c + 2) :: nat" and ?a = "2 ^ 31 + x mod 2 ^ (cd_bits c + 2) :: nat"
  obtain q where q: "(2 :: nat) ^ 31 = ?n * q" using log_len(1) [OF ok] by blast
  have "?a mod ?n = x mod ?n" "(?a + 1) mod ?n = Suc x mod ?n" unfolding q by (simp_all add: mod_Suc_eq)
  then have "of_nat (?a - ?a mod ?n + (?a + 1) mod ?n) = (of_nat (2 ^ 31 + Suc x mod ?n) :: u32)" by simp
  moreover have "unat (cd_log_addr (log_at c x)) = ?a" by (simp only: log_at_addr log_addr_unat [OF ok])
  ultimately have "log_next (log_at c x) = log_fetch ((log_at c x)\<lparr>cd_log_addr := of_nat (2 ^ 31 + Suc x mod ?n)\<rparr>)"
    by (simp only: log_next_def Let_def log_at_simps(1))
  moreover have "(2 ^ 31 + Suc x mod ?n) mod ?n = Suc x mod ?n" unfolding q by simp
  ultimately show ?thesis using log_addr_unat [OF ok, of "Suc x"]
    by (simp add: log_fetch_def log_at_def log_dword_def del: of_nat_add of_nat_power)
qed

lemma log_start_at:
  assumes "log_ok c"
  shows "log_fetch (c\<lparr>cd_log_addr := ucast (LOG_STOP OR push_bit 2 (of_nat (cd_wrptr c)) :: u64)\<rparr>) = log_at c (4 * cd_wrptr c)"
proof -
  let ?w = "cd_wrptr c" and ?n = "2 ^ (cd_bits c + 2) :: nat"
  have w: "4 * ?w < ?n" "?n \<le> 2 ^ 30" using assms log_len(2) [OF assms] by (auto simp: log_ok_def)
  have stop: "LOG_STOP = push_bit 31 1" by (simp add: LOG_STOP_def)
  have p: "push_bit 2 (of_nat ?w :: u64) = of_nat (4 * ?w)" by (simp add: push_bit_eq_mult)
  have "\<not> bit (of_nat (4 * ?w) :: u64) 31"
  proof -
    have "4 * ?w < 2 ^ 31" using w by simp
    then have nb: "\<not> bit (4 * ?w) 31" by (simp add: bit_iff_odd)
    have u: "unat (of_nat (4 * ?w) :: u64) = 4 * ?w" using w by (intro unat_of_nat_addr) (simp add: addr_max_def)
    have "\<not> bit (unat (of_nat (4 * ?w) :: u64)) 31" unfolding u by (rule nb)
    then show ?thesis by (simp only: bit_unsigned_iff) simp
  qed
  then have "\<not> bit LOG_STOP k \<or> \<not> bit (of_nat (4 * ?w) :: u64) k" for k
    unfolding stop by (cases "k = 31") (simp_all add: bit_push_bit_iff bit_1_iff del: push_bit_of_1 of_nat_mult)
  then have "LOG_STOP + of_nat (4 * ?w) = (LOG_STOP OR of_nat (4 * ?w) :: u64)" by (rule disjunctive_add)
  then have a: "LOG_STOP OR push_bit 2 (of_nat ?w) = (of_nat (2 ^ 31 + 4 * ?w) :: u64)" unfolding p by (simp add: LOG_STOP_def)
  have "2 ^ 31 + 4 * ?w < (2 :: nat) ^ 32" using w by simp
  then have "(ucast (of_nat (2 ^ 31 + 4 * ?w) :: u64) :: u32) = of_nat (2 ^ 31 + 4 * ?w)"
    by (intro unsigned_word_eqI) (simp add: unsigned_ucast_eq unsigned_of_nat take_bit_nat_eq_self del: of_nat_add)
  moreover have "(2 ^ 31 + 4 * ?w) mod ?n = 4 * ?w"
    using log_len(1) [OF assms] w(1) by (metis mod_add_left_eq mod_less add_0 dvd_imp_mod_0)
  moreover have "4 * ?w mod ?n = 4 * ?w" using w(1) by simp
  ultimately show ?thesis
    using log_addr_unat [OF assms, of "4 * ?w"] unfolding a log_fetch_def log_at_def by (simp add: log_dword_def del: of_nat_add)
qed

lemma log_dump_loop_eq:
  "log_ok c \<Longrightarrow> has_core (fst (t_be t)) (t_core t) (log_at c x) \<Longrightarrow>
   \<exists>b out. log_dump_loop hwc k i written t =
      ret (written @ concat (map (\<lambda>j. nat_le 8 (unat (log_dword c ((x + j) mod 2 ^ (cd_bits c + 2))))) [0..<k]), t\<lparr>t_be := b, t_out := out\<rparr>) \<and>
     fst b = put_core (t_core t) (log_at c (x + k)) (fst (t_be t))"
proof (induction k arbitrary: i written t x)
  case 0
  show ?case by (intro exI [of _ "t_be t"] exI [of _ "t_out t"]) (simp add: put_core_same [OF 0(2)])
next
  case (Suc k)
  let ?h = "fst (t_be t)" and ?h1 = "put_core (t_core t) (log_at c (Suc x)) (fst (t_be t))"
  let ?v = "log_dword c (x mod 2 ^ (cd_bits c + 2))"
  let ?t0 = "t\<lparr>t_be := (?h1, ?v)\<rparr>"
  let ?t = "if i mod 128 = 0 then print (decnat (unat (i * 8)) @ ''...'' @ [CHR 0x0D]) ?t0 else ?t0"
  have step: "log_dump_loop hwc (Suc k) i written t = log_dump_loop hwc k (i + 1) (written @ nat_le 8 (unat ?v)) ?t"
    by (simp add: reg_simps core_reads [OF Suc.prems(2)] log_next_at [OF Suc.prems(1)])
  have c: "has_core (fst (t_be ?t)) (t_core ?t) (log_at c (Suc x))" using Suc.prems(2) by (auto simp: print_def)
  from Suc.IH [OF Suc.prems(1) c, of "i + 1" "written @ nat_le 8 (unat ?v)"] obtain b out where
    r: "log_dump_loop hwc k (i + 1) (written @ nat_le 8 (unat ?v)) ?t =
      ret ((written @ nat_le 8 (unat ?v)) @ concat (map (\<lambda>j. nat_le 8 (unat (log_dword c ((Suc x + j) mod 2 ^ (cd_bits c + 2))))) [0..<k]),
        ?t\<lparr>t_be := b, t_out := out\<rparr>)" "fst b = put_core (t_core ?t) (log_at c (Suc x + k)) (fst (t_be ?t))" by blast
  have m: "map (\<lambda>j. nat_le 8 (unat (log_dword c ((x + j) mod 2 ^ (cd_bits c + 2))))) [0..<Suc k] =
      nat_le 8 (unat ?v) # map (\<lambda>j. nat_le 8 (unat (log_dword c ((Suc x + j) mod 2 ^ (cd_bits c + 2))))) [0..<k]"
    by (subst upt_conv_Cons) (auto simp: map_Suc_upt [symmetric] o_def simp del: upt_Suc)
  have "?t\<lparr>t_be := b, t_out := out\<rparr> = t\<lparr>t_be := b, t_out := out\<rparr>" by (simp add: print_def)
  then show ?case unfolding step m using r by (intro exI [of _ b] exI [of _ out]) (simp add: print_def del: nat_le.simps)
qed

lemma waddr_clear:
  assumes "b \<le> 28" "w < 2 ^ b" "unat waddr = 2 ^ b + w"
  shows "waddr AND NOT (2 ^ b) = (of_nat w :: u64)"
proof -
  let ?W = "of_nat w :: u64"
  have exp: "(2 :: u64) ^ b = push_bit b 1" by (simp add: push_bit_eq_mult)
  have "(2 :: nat) ^ b \<le> 2 ^ 28" using assms(1) by (rule power_increasing) simp
  then have lt: "w < addr_max" "2 ^ b + w < addr_max" using assms(2) by (simp_all add: addr_max_def)
  have "of_nat (unat waddr) = waddr" by simp
  then have "waddr = of_nat (2 ^ b + w)" unfolding assms(3) by (rule sym)
  then have eq: "waddr = push_bit b 1 + ?W" by (simp add: exp [symmetric])
  have hi: "\<not> bit ?W k" if "b \<le> k" for k
  proof -
    have "w < 2 ^ k" by (rule less_le_trans [OF assms(2)], rule power_increasing [OF that]) simp
    then have nb: "\<not> bit w k" by (simp add: bit_iff_odd)
    have "\<not> bit (unat ?W) k" unfolding unat_of_nat_addr [OF lt(1)] by (rule nb)
    then show ?thesis by (simp only: bit_unsigned_iff) simp
  qed
  have "\<not> bit (push_bit b (1 :: u64)) k \<or> \<not> bit ?W k" for k
    using hi [of k] by (cases "k = b") (simp_all add: bit_push_bit_iff bit_1_iff del: push_bit_of_1)
  then have "push_bit b 1 + ?W = push_bit b 1 OR ?W" by (rule disjunctive_add)
  moreover have "(push_bit b 1 OR ?W) AND NOT (push_bit b 1) = ?W"
    by (rule bit_word_eqI) (use hi in \<open>auto simp: bit_and_iff bit_or_iff bit_not_iff bit_push_bit_iff bit_1_iff simp del: push_bit_of_1\<close>)
  ultimately show ?thesis unfolding eq exp by simp
qed

definition entry_bytes :: "256 word \<Rightarrow> u8 list" where
  "entry_bytes e = concat (map (\<lambda>i. nat_le 8 (unat (select_dword e i))) [0..<4])"

lemma concat_by_four: "concat (map f [0..<4 * n]) = concat (map (\<lambda>e. concat (map (\<lambda>i. f (4 * e + i)) [0..<4])) [0..<n])"
proof (induction n)
  case (Suc n)
  have "[0..<4 * Suc n] = [0..<4 * n] @ map (\<lambda>i. 4 * n + i) [0..<4]"
    using upt_add_eq_append [of 0 "4 * n" 4] map_add_upt [of "4 * n" 4] by (simp add: add.commute)
  then have "map f [0..<4 * Suc n] = map f [0..<4 * n] @ map (\<lambda>i. f (4 * n + i)) [0..<4]" by (simp only: map_append map_map o_def)
  moreover have "map (\<lambda>e. concat (map (\<lambda>i. f (4 * e + i)) [0..<4])) [0..<Suc n] =
      map (\<lambda>e. concat (map (\<lambda>i. f (4 * e + i)) [0..<4])) [0..<n] @ [concat (map (\<lambda>i. f (4 * n + i)) [0..<4])]" by (simp only: upt_Suc_append map_append list.map)
  ultimately show ?case using Suc by (simp only: concat_append concat.simps append_Nil2)
qed simp

lemma log_rotated:
  assumes "log_ok c"
  shows "concat (map (\<lambda>j. nat_le 8 (unat (log_dword c ((4 * cd_wrptr c + j) mod 2 ^ (cd_bits c + 2))))) [0..<4 * 2 ^ cd_bits c]) =
    concat (map entry_bytes (rotate (cd_wrptr c) (cd_log c)))"
proof -
  let ?N = "2 ^ cd_bits c :: nat" and ?w = "cd_wrptr c"
  have len: "length (cd_log c) = ?N" using assms by (simp add: log_ok_def)
  have "concat (map (\<lambda>i. nat_le 8 (unat (log_dword c ((4 * ?w + (4 * e + i)) mod 2 ^ (cd_bits c + 2))))) [0..<4]) =
      entry_bytes (rotate ?w (cd_log c) ! e)" if "e < ?N" for e
  proof -
    have "(4 * ?w + (4 * e + i)) mod 2 ^ (cd_bits c + 2) = 4 * ((?w + e) mod ?N) + i" if "i < 4" for i
    proof -
      have "(4 * x + i) div 4 = x" "(4 * x + i) mod 4 = i" for x using that by simp_all
      then have "(4 * (?w + e) + i) mod (4 * ?N) = 4 * ((?w + e) mod ?N) + i" by (simp only: mod_mult2_eq)
      moreover have "4 * ?w + (4 * e + i) = 4 * (?w + e) + i" "2 ^ (cd_bits c + 2) = 4 * ?N" by simp_all
      ultimately show ?thesis by (simp only:)
    qed
    then have "log_dword c ((4 * ?w + (4 * e + i)) mod 2 ^ (cd_bits c + 2)) = select_dword (rotate ?w (cd_log c) ! e) i" if "i < 4" for i
      using that \<open>e < ?N\<close> len by (simp add: log_dword_def nth_rotate add.commute)
    then show ?thesis unfolding entry_bytes_def by (intro arg_cong [where f = concat] map_cong) auto
  qed
  then have "concat (map (\<lambda>j. nat_le 8 (unat (log_dword c ((4 * ?w + j) mod 2 ^ (cd_bits c + 2))))) [0..<4 * ?N]) =
      concat (map (\<lambda>e. entry_bytes (rotate ?w (cd_log c) ! e)) [0..<?N])"
    unfolding concat_by_four by (intro arg_cong [where f = concat] map_cong) auto
  also have "map (\<lambda>e. entry_bytes (rotate ?w (cd_log c) ! e)) [0..<?N] = map entry_bytes (rotate ?w (cd_log c))"
    by (rule nth_equalityI) (simp_all add: len)
  finally show ?thesis .
qed

lemma log_dump_eq:
  assumes "has_core (fst (t_be t)) (t_core t) c" "log_ok c" "bit (cd_log_addr c) 31" "t_writable t f"
  shows "\<exists>b out. log_dump hwc f t = ret (t\<lparr>t_be := b, t_out := out, t_files := (t_files t)(f \<mapsto> concat (map entry_bytes (rotate (cd_wrptr c) (cd_log c))))\<rparr>) \<and>
    fst b = put_core (t_core t) (log_fetch c) (fst (t_be t))"
proof -
  let ?h = "fst (t_be t)" and ?core = "t_core t"
  define laddr where "laddr = (push_bit 32 (log_write_addr c) OR ucast (cd_log_addr c) :: u64)"
  note fields = laddr_fields [OF assms(2), folded laddr_def]
  have bw: "cd_bits c \<le> 28" "cd_wrptr c < 2 ^ cd_bits c" using assms(2) by (simp_all add: log_ok_def)
  have ls: "log_size (drop_bit 32 laddr) = 2 ^ cd_bits c" by (rule log_size_eq [OF bw fields(1)])
  have wa: "drop_bit 32 laddr AND NOT (2 ^ cd_bits c) = of_nat (cd_wrptr c)" by (rule waddr_clear [OF bw fields(1)])
  have n: "unat ((2 :: u64) ^ cd_bits c * 4) = 4 * 2 ^ cd_bits c"
  proof -
    have "(2 :: nat) ^ cd_bits c \<le> 2 ^ 28" using bw(1) by (rule power_increasing) simp
    then show ?thesis using unat_exp [of "cd_bits c"] bw(1) by (subst unat_word_ariths) simp
  qed
  let ?t3 = "print (''Log size = '' @ decnat (unat ((2 :: u64) ^ cd_bits c)) @ '' entries'' @ nl) (t\<lparr>t_be := (?h, laddr)\<rparr>)"
  let ?t4 = "?t3\<lparr>t_be := (put_core ?core (log_at c (4 * cd_wrptr c)) ?h, laddr)\<rparr>"
  have c4: "has_core (fst (t_be ?t4)) (t_core ?t4) (log_at c (4 * cd_wrptr c))" using assms(1) by (simp add: print_def)
  from log_dump_loop_eq [OF assms(2) c4, of "4 * 2 ^ cd_bits c" 0 "[]"] obtain b out where
    5: "log_dump_loop hwc (4 * 2 ^ cd_bits c) 0 [] ?t4 = ret (concat (map entry_bytes (rotate (cd_wrptr c) (cd_log c))), ?t4\<lparr>t_be := b, t_out := out\<rparr>)"
      "fst b = put_core ?core (log_at c (4 * cd_wrptr c + 4 * 2 ^ cd_bits c)) ?h"
    unfolding log_rotated [OF assms(2)] by (auto simp: print_def)
  have c5: "has_core (fst b) ?core (log_at c (4 * cd_wrptr c + 4 * 2 ^ cd_bits c))" unfolding 5(2) using assms(1) by simp
  have undo: "log_fetch ((log_at c x)\<lparr>cd_log_addr := cd_log_addr c\<rparr>) = log_fetch c" for x
    by (simp add: log_fetch_def log_at_def log_dword_def)
  have w4: "write_check hwc (DBG_LOG_ADDR ?core) (LOG_STOP OR push_bit 2 (of_nat (cd_wrptr c))) ?t3 = ret ?t4"
    using core_writes(3) [OF assms(1)] by (simp add: reg_simps print_def log_start_at [OF assms(2)])
  let ?t5 = "?t4\<lparr>t_be := b, t_out := out\<rparr>" and ?bytes = "concat (map entry_bytes (rotate (cd_wrptr c) (cd_log c)))"
  let ?t6 = "print (decnat (unat ((2 :: u64) ^ cd_bits c * 32)) @ '' done'' @ nl) (?t5\<lparr>t_files := (t_files ?t5)(f \<mapsto> ?bytes)\<rparr>)"
  have nz: "(laddr AND LOG_STOP = 0) = False" using assms(3) fields(2) by simp
  have "log_dump hwc f t = write_check hwc (DBG_LOG_ADDR ?core) laddr ?t6"
    unfolding log_dump_def
    by (simp only: assms(4) not_True_eq_False if_False reg_simps(3) core_reads(5) [OF assms(1), folded laddr_def] fst_conv snd_conv bindS_simps
        prod.case Let_def nz ls wa w4 n 5(1))
  moreover have "write_check hwc (DBG_LOG_ADDR ?core) laddr ?t6 = ret (?t6\<lparr>t_be := (put_core ?core (log_fetch c) ?h, snd b)\<rparr>)"
    using core_writes(3) [OF c5, of laddr] by (simp add: reg_simps(4) fields(3) undo 5(2) print_def)
  moreover have "?t6\<lparr>t_be := b'\<rparr> = t\<lparr>t_be := b', t_out := t_out ?t6, t_files := (t_files t)(f \<mapsto> ?bytes)\<rparr>" for b' by (simp add: print_def)
  ultimately show ?thesis by (metis fst_conv)
qed

section \<open>What the log records\<close>

text \<open>The entries of the log from the oldest to the newest.\<close>

definition log_history :: "cdbg \<Rightarrow> 256 word list" where
  "log_history c = rotate (cd_wrptr c) (cd_log c)"

lemma rotate_update:
  assumes "w < length xs"
  shows "rotate (Suc w mod length xs) (xs[w := e]) = tl (rotate w xs) @ [e]"
proof (rule nth_equalityI)
  let ?n = "length xs"
  show l: "length (rotate (Suc w mod ?n) (xs[w := e])) = length (tl (rotate w xs) @ [e])" using assms by simp
  fix i
  assume "i < length (rotate (Suc w mod ?n) (xs[w := e]))"
  then have i: "i < ?n" by simp
  have "(Suc w mod ?n + i) mod ?n = Suc (w + i) mod ?n" by (simp add: mod_simps)
  then have lhs: "rotate (Suc w mod ?n) (xs[w := e]) ! i = xs[w := e] ! (Suc (w + i) mod ?n)"
    using nth_rotate [of i "xs[w := e]" "Suc w mod ?n"] i by (simp only: length_list_update)
  have rlen: "length (tl (rotate w xs)) = ?n - 1" by simp
  show "rotate (Suc w mod ?n) (xs[w := e]) ! i = (tl (rotate w xs) @ [e]) ! i"
  proof (cases "Suc i = ?n")
    case True
    then have "Suc (w + i) = w + ?n" "i = ?n - 1" by simp_all
    then have "Suc (w + i) mod ?n = w" using assms by (simp only: mod_add_self2 mod_less)
    moreover have "(tl (rotate w xs) @ [e]) ! i = e" using rlen \<open>i = ?n - 1\<close> by (metis nth_append_length)
    ultimately show ?thesis using assms unfolding lhs by simp
  next
    case False
    then have lt: "i < ?n - 1" "Suc i < ?n" using i by simp_all
    have "Suc (w + i) mod ?n \<noteq> w"
    proof (cases "Suc (w + i) < ?n")
      case False
      then have "Suc (w + i) mod ?n = (Suc (w + i) - ?n) mod ?n" "Suc (w + i) - ?n < ?n" using assms i by (simp_all add: le_mod_geq)
      then have "Suc (w + i) mod ?n = Suc (w + i) - ?n" by (simp only: mod_less)
      then show ?thesis using lt False by linarith
    qed simp
    then have "rotate (Suc w mod ?n) (xs[w := e]) ! i = xs ! (Suc (w + i) mod ?n)" unfolding lhs by simp
    moreover have "(tl (rotate w xs) @ [e]) ! i = rotate w xs ! Suc i" using lt rlen by (metis nth_append nth_tl)
    moreover have "rotate w xs ! Suc i = xs ! (Suc (w + i) mod ?n)" using nth_rotate [OF lt(2), of w] by (simp only: add_Suc_right)
    ultimately show ?thesis by (simp only:)
  qed
qed

lemma log_tick_step:
  assumes "log_ok c" "log_wr_enable c"
  shows "log_ok (log_tick e c)" "log_wr_enable (log_tick e c)" "log_history (log_tick e c) = tl (log_history c) @ [e]"
  using assms rotate_update [of "cd_wrptr c" "cd_log c" e] by (simp_all add: log_tick_def log_ok_def log_wr_enable_def log_history_def)

lemma log_ticks:
  assumes "log_ok c" "log_wr_enable c"
  shows "log_ok (fold log_tick es c) \<and> log_wr_enable (fold log_tick es c) \<and>
    log_history (fold log_tick es c) = drop (length es) (log_history c @ es)"
  using assms
proof (induction es arbitrary: c)
  case (Cons e es)
  have "log_history c \<noteq> []" using Cons.prems(1) by (auto simp: log_history_def log_ok_def)
  with Cons.IH [OF log_tick_step(1,2) [OF Cons.prems], of e] log_tick_step(3) [OF Cons.prems, of e] show ?case
    by (cases "log_history c") auto
qed simp

text \<open>
  Through the socket, dumping the log writes the most recent entries, as many as the log
  holds, from the oldest to the newest.
\<close>

lemma log_dump_file:
  assumes "sim_idle h (t_be t)" "log_ok c0" "log_wr_enable c0"
    "has_core h (t_core t) ((fold log_tick es c0)\<lparr>cd_log_addr := a\<rparr>)" "bit a 31" "t_writable t f"
  shows "\<exists>t1. log_dump (sim_command sim_net) f t = ret t1 \<and>
    t_files t1 f = Some (concat (map entry_bytes (drop (length es) (log_history c0 @ es))))"
proof -
  let ?c = "(fold log_tick es c0)\<lparr>cd_log_addr := a\<rparr>"
  have ok: "log_ok ?c" and hist: "rotate (cd_wrptr ?c) (cd_log ?c) = drop (length es) (log_history c0 @ es)"
    using log_ticks [OF assms(2,3), of es] by (simp_all add: log_ok_def log_history_def)
  have "sim_tool t (ideal_of h t)" using assms(1,4) by (auto intro: sim_tool_ideal simp: has_core_def)
  note l = sim_link.link_log_dump [OF this, of f]
  have "has_core (fst (t_be (ideal_of h t))) (t_core (ideal_of h t)) ?c" "bit (cd_log_addr ?c) 31" "t_writable (ideal_of h t) f"
    using assms(4-6) by simp_all
  from log_dump_eq [OF this(1) ok this(2,3), unfolded hist] obtain b out where
    "log_dump hwc f (ideal_of h t) = ret ((ideal_of h t)\<lparr>t_be := b, t_out := out,
       t_files := (t_files (ideal_of h t))(f \<mapsto> concat (map entry_bytes (drop (length es) (log_history c0 @ es))))\<rparr>)" by blast
  from l [unfolded this rsim_ret_iff] show ?thesis by (auto simp: same_tool_def)
qed

end
