(* ===== verification/Fmt_Log.thy ===== *)
theory Fmt_Log
  imports Libc_Printf
begin

text \<open>
  \<^verbatim>\<open>scripts/fmt_log/fmt_log.c\<close>: the formatter of the log of a core. It reads entries of 32
  bytes and prints a line for each, with column headings every 20 lines, and at the end the
  number of completed instructions and the cycles per instruction.

  The entries are a C structure of bit-fields, which the compiler places from the
  least significant bit of each doubleword. Three things are not fixed by the source and are parameters: the initial
  value of the last element of \<open>full_nia\<close>, which the program does not set; the width at which the compiler
  evaluates a shift of a bit-field, 42 or 64; and the text of a double that is not a number.
\<close>

section \<open>Entries\<close>

record log_entry =
  le0 :: u64
  le1 :: u64
  le2 :: u64
  reg_wr_data :: u64

definition bf :: "u64 \<Rightarrow> nat \<Rightarrow> nat \<Rightarrow> u64" where
  "bf w off len = take_bit len (drop_bit off w)"

definition nia_lo :: "log_entry \<Rightarrow> u64" where "nia_lo l = bf (le0 l) 0 42"
definition nia_hi :: "log_entry \<Rightarrow> u64" where "nia_hi l = bf (le0 l) 42 1"
definition ic_ra_valid :: "log_entry \<Rightarrow> u64" where "ic_ra_valid l = bf (le0 l) 43 1"
definition ic_access_ok :: "log_entry \<Rightarrow> u64" where "ic_access_ok l = bf (le0 l) 44 1"
definition ic_is_miss :: "log_entry \<Rightarrow> u64" where "ic_is_miss l = bf (le0 l) 45 1"
definition ic_is_hit :: "log_entry \<Rightarrow> u64" where "ic_is_hit l = bf (le0 l) 46 1"
definition ic_way :: "log_entry \<Rightarrow> u64" where "ic_way l = bf (le0 l) 47 3"
definition ic_state :: "log_entry \<Rightarrow> u64" where "ic_state l = bf (le0 l) 50 1"
definition ic_part_nia :: "log_entry \<Rightarrow> u64" where "ic_part_nia l = bf (le0 l) 51 4"
definition ic_fetch_failed :: "log_entry \<Rightarrow> u64" where "ic_fetch_failed l = bf (le0 l) 55 1"
definition ic_stall_out :: "log_entry \<Rightarrow> u64" where "ic_stall_out l = bf (le0 l) 56 1"
definition ic_wb_stall :: "log_entry \<Rightarrow> u64" where "ic_wb_stall l = bf (le0 l) 57 1"
definition ic_wb_cyc :: "log_entry \<Rightarrow> u64" where "ic_wb_cyc l = bf (le0 l) 58 1"
definition ic_wb_stb :: "log_entry \<Rightarrow> u64" where "ic_wb_stb l = bf (le0 l) 59 1"
definition ic_wb_adr :: "log_entry \<Rightarrow> u64" where "ic_wb_adr l = bf (le0 l) 60 3"
definition ic_wb_ack :: "log_entry \<Rightarrow> u64" where "ic_wb_ack l = bf (le0 l) 63 1"
definition ic_insn :: "log_entry \<Rightarrow> u64" where "ic_insn l = bf (le1 l) 0 36"
definition ic_valid :: "log_entry \<Rightarrow> u64" where "ic_valid l = bf (le1 l) 36 1"
definition d1_valid :: "log_entry \<Rightarrow> u64" where "d1_valid l = bf (le1 l) 37 1"
definition d1_unit :: "log_entry \<Rightarrow> u64" where "d1_unit l = bf (le1 l) 38 2"
definition d1_part_nia :: "log_entry \<Rightarrow> u64" where "d1_part_nia l = bf (le1 l) 40 4"
definition d1_insn_type :: "log_entry \<Rightarrow> u64" where "d1_insn_type l = bf (le1 l) 44 6"
definition d2_bypass_a :: "log_entry \<Rightarrow> u64" where "d2_bypass_a l = bf (le1 l) 50 1"
definition d2_bypass_b :: "log_entry \<Rightarrow> u64" where "d2_bypass_b l = bf (le1 l) 51 1"
definition d2_bypass_c :: "log_entry \<Rightarrow> u64" where "d2_bypass_c l = bf (le1 l) 52 1"
definition d2_stall_out :: "log_entry \<Rightarrow> u64" where "d2_stall_out l = bf (le1 l) 53 1"
definition d2_stopped_out :: "log_entry \<Rightarrow> u64" where "d2_stopped_out l = bf (le1 l) 54 1"
definition d2_valid :: "log_entry \<Rightarrow> u64" where "d2_valid l = bf (le1 l) 55 1"
definition d2_part_nia :: "log_entry \<Rightarrow> u64" where "d2_part_nia l = bf (le1 l) 56 4"
definition e1_flush_out :: "log_entry \<Rightarrow> u64" where "e1_flush_out l = bf (le1 l) 60 1"
definition e1_stall_out :: "log_entry \<Rightarrow> u64" where "e1_stall_out l = bf (le1 l) 61 1"
definition e1_redirect :: "log_entry \<Rightarrow> u64" where "e1_redirect l = bf (le1 l) 62 1"
definition e1_valid :: "log_entry \<Rightarrow> u64" where "e1_valid l = bf (le1 l) 63 1"
definition e1_write_enable :: "log_entry \<Rightarrow> u64" where "e1_write_enable l = bf (le2 l) 0 1"
definition e1_irq_state :: "log_entry \<Rightarrow> u64" where "e1_irq_state l = bf (le2 l) 1 1"
definition e1_irq :: "log_entry \<Rightarrow> u64" where "e1_irq l = bf (le2 l) 2 1"
definition e1_exception :: "log_entry \<Rightarrow> u64" where "e1_exception l = bf (le2 l) 3 1"
definition e1_msr_dr :: "log_entry \<Rightarrow> u64" where "e1_msr_dr l = bf (le2 l) 4 1"
definition e1_msr_ir :: "log_entry \<Rightarrow> u64" where "e1_msr_ir l = bf (le2 l) 5 1"
definition e1_msr_pr :: "log_entry \<Rightarrow> u64" where "e1_msr_pr l = bf (le2 l) 6 1"
definition e1_msr_ee :: "log_entry \<Rightarrow> u64" where "e1_msr_ee l = bf (le2 l) 7 1"
definition pad1 :: "log_entry \<Rightarrow> u64" where "pad1 l = bf (le2 l) 8 4"
definition ls_state :: "log_entry \<Rightarrow> u64" where "ls_state l = bf (le2 l) 12 3"
definition ls_dw_done :: "log_entry \<Rightarrow> u64" where "ls_dw_done l = bf (le2 l) 15 1"
definition ls_min_done :: "log_entry \<Rightarrow> u64" where "ls_min_done l = bf (le2 l) 16 1"
definition ls_do_valid :: "log_entry \<Rightarrow> u64" where "ls_do_valid l = bf (le2 l) 17 1"
definition ls_mo_valid :: "log_entry \<Rightarrow> u64" where "ls_mo_valid l = bf (le2 l) 18 1"
definition ls_lo_valid :: "log_entry \<Rightarrow> u64" where "ls_lo_valid l = bf (le2 l) 19 1"
definition ls_eo_except :: "log_entry \<Rightarrow> u64" where "ls_eo_except l = bf (le2 l) 20 1"
definition ls_stall_out :: "log_entry \<Rightarrow> u64" where "ls_stall_out l = bf (le2 l) 21 1"
definition pad2 :: "log_entry \<Rightarrow> u64" where "pad2 l = bf (le2 l) 22 1"
definition dc_state :: "log_entry \<Rightarrow> u64" where "dc_state l = bf (le2 l) 23 3"
definition dc_ra_valid :: "log_entry \<Rightarrow> u64" where "dc_ra_valid l = bf (le2 l) 26 1"
definition dc_tlb_way :: "log_entry \<Rightarrow> u64" where "dc_tlb_way l = bf (le2 l) 27 3"
definition dc_stall_out :: "log_entry \<Rightarrow> u64" where "dc_stall_out l = bf (le2 l) 30 1"
definition dc_op :: "log_entry \<Rightarrow> u64" where "dc_op l = bf (le2 l) 31 3"
definition dc_do_valid :: "log_entry \<Rightarrow> u64" where "dc_do_valid l = bf (le2 l) 34 1"
definition dc_do_error :: "log_entry \<Rightarrow> u64" where "dc_do_error l = bf (le2 l) 35 1"
definition dc_wb_cyc :: "log_entry \<Rightarrow> u64" where "dc_wb_cyc l = bf (le2 l) 36 1"
definition dc_wb_stb :: "log_entry \<Rightarrow> u64" where "dc_wb_stb l = bf (le2 l) 37 1"
definition dc_wb_ack :: "log_entry \<Rightarrow> u64" where "dc_wb_ack l = bf (le2 l) 38 1"
definition dc_wb_stall :: "log_entry \<Rightarrow> u64" where "dc_wb_stall l = bf (le2 l) 39 1"
definition dc_wb_adr :: "log_entry \<Rightarrow> u64" where "dc_wb_adr l = bf (le2 l) 40 3"
definition cr_wr_mask :: "log_entry \<Rightarrow> u64" where "cr_wr_mask l = bf (le2 l) 43 8"
definition cr_wr_data :: "log_entry \<Rightarrow> u64" where "cr_wr_data l = bf (le2 l) 51 4"
definition cr_wr_enable :: "log_entry \<Rightarrow> u64" where "cr_wr_enable l = bf (le2 l) 55 1"
definition reg_wr_reg :: "log_entry \<Rightarrow> u64" where "reg_wr_reg l = bf (le2 l) 56 7"
definition reg_wr_enable :: "log_entry \<Rightarrow> u64" where "reg_wr_enable l = bf (le2 l) 63 1"

definition dword_at :: "u8 list \<Rightarrow> nat \<Rightarrow> u64" where
  "dword_at bs k = of_nat (le_nat (take 8 (drop (8 * k) bs)))"

definition log_of :: "u8 list \<Rightarrow> log_entry" where
  "log_of bs = \<lparr>le0 = dword_at bs 0, le1 = dword_at bs 1, le2 = dword_at bs 2, reg_wr_data = dword_at bs 3\<rparr>"

section \<open>Conversions of printf\<close>

text \<open>The digits of a number, a precision, which pads with zeros, and a field width, which pads with spaces.\<close>

definition dec :: "nat \<Rightarrow> u8 list" where "dec n = dstr False 10 n"

definition hex :: "nat \<Rightarrow> u8 list" where "hex n = dstr False 16 n"

definition prec :: "nat \<Rightarrow> u8 list \<Rightarrow> u8 list" where
  "prec k s = replicate (k - length s) 48 @ s"

definition width :: "nat \<Rightarrow> u8 list \<Rightarrow> u8 list" where
  "width k s = replicate (k - length s) 32 @ s"

text \<open>
  \<open>%.2f\<close> of a quotient of two counts. The quotient is rounded to a double: its significand is the rounded
  value of \<open>a * 2 ^ k / b\<close>, with the first \<open>k\<close> for which that is at least \<open>2 ^ 52\<close>. Then the decimal is rounded to hundredths.
  Both are to the nearest, ties to even. Counts below \<open>2 ^ 53\<close> are doubles themselves and make \<open>k\<close> at least 0.
\<close>

definition round_div :: "nat \<Rightarrow> nat \<Rightarrow> nat" where
  "round_div a b =
     (let q = a div b; r = a mod b
      in if 2 * r < b \<or> 2 * r = b \<and> even q then q else q + 1)"

function scale :: "nat \<Rightarrow> nat \<Rightarrow> nat \<Rightarrow> nat" where
  "scale a b k = (if a = 0 \<or> 2 ^ 52 * b \<le> a then k else scale (2 * a) b (k + 1))"
  by pat_completeness auto

termination
  by (relation "measure (\<lambda>(a, b, k). 2 ^ 52 * b - a)") auto

declare scale.simps [simp del]

definition div_double :: "nat \<Rightarrow> nat \<Rightarrow> nat \<times> nat" where
  "div_double a b = (let k = scale a b 0 in (round_div (a * 2 ^ k) b, k))"

definition hundredths :: "nat \<times> nat \<Rightarrow> nat" where
  "hundredths d = round_div (100 * fst d) (2 ^ snd d)"

section \<open>Definitions\<close>

record fmt_env =
  junk15 :: u64
  nia_bits :: nat
  nan_text :: "u8 list"

definition FLAG :: "u64 \<Rightarrow> string \<Rightarrow> u8 list" where
  "FLAG x y = cbytes (if x \<noteq> 0 then y else '' '')"

definition FLGA :: "u64 \<Rightarrow> string \<Rightarrow> string \<Rightarrow> u8 list" where
  "FLGA x y z = cbytes (if x \<noteq> 0 then y else z)"

definition PNIA :: "u64 list \<Rightarrow> u64 \<Rightarrow> u64" where
  "PNIA full_nia f = full_nia ! unat f AND 0xff"

definition units :: "string list" where
  "units = [''al'', ''ls'', ''fp'', ''3?'']"

definition ops :: "string list" where
  "ops =
    [''illegal'', ''nop    '', ''add    '', ''attn   '', ''b      '', ''bc     '', ''bcreg  '', ''bperm  '',
     ''bsort  '', ''cmp    '', ''compute'', ''countb '', ''darn   '', ''dcbf   '', ''dcbst  '', ''dcbz   '',
     ''icbi   '', ''icbt   '', ''fpcmp  '', ''fparith'', ''fpmove '', ''fpmisc '', ''div    '', ''dive   '',
     ''mod    '', ''isync  '', ''ld     '', ''st     '', ''mcrxrx '', ''mfmsr  '', ''mfspr  '', ''msg    '',
     ''mtcrf  '', ''mtmsr  '', ''mtspr  '', ''mull64 '', ''mulh64 '', ''mulh32 '', ''rfid   '', ''sc     '',
     ''sync   '', ''tlbie  '', ''trap   '', ''wait   '', ''ffail  '', ''?45    '', ''?46    '', ''?47    '',
     ''?48    '', ''?49    '', ''?50    '', ''?51    '', ''?52    '', ''?53    '', ''?54    '', ''?55    '',
     ''?56    '', ''?57    '', ''?58    '', ''?59    '', ''?60    '', ''?61    '', ''?62    '', ''?63    '']"

definition spr_names :: "string list" where
  "spr_names = [''lr '', ''ctr'', ''sr0'', ''sr1'', ''hr0'', ''hr1'', ''sg0'', ''sg1'', ''sg2'', ''sg3'', ''hg0'', ''hg1'', ''xer'']"

definition heading :: "u8 list" where
  "heading = cbytes
    ((''        fetch1 NIA      icache                             decode1       decode2   execute1         loadstore  dcache       CR   GSPR'' @ [CHR 0x0A]) @
     (''     ----------------   TAHW S -WB-- pN  ic --insn--    pN un op         pN byp    FR IIE MSR  WC   SD MM CE   SRTO DE -WB-- c ms reg val'' @ [CHR 0x0A]) @
     (''                        LdMy t csnSa IA                 IA it            IA abc    le srx EPID em   tw rd mx   tAwp vr csnSa 0 k'' @ [CHR 0x0A]))"

text \<open>One text for each of the calls of \<open>printf\<close> for an entry.\<close>

definition text_nia :: "nat \<Rightarrow> log_entry \<Rightarrow> u8 list" where
  "text_nia lineno l = width 4 (dec lineno) @ cbytes '' '' @ FLGA (nia_hi l) ''c'' ''0'' @ cbytes ''0000'' @
     prec 11 (hex (unat (push_bit 2 (nia_lo l)))) @ cbytes '' '' @ FLAG (ic_stall_out l) ''|'' @ cbytes '' ''"

definition text_icache :: "u64 list \<Rightarrow> log_entry \<Rightarrow> u8 list" where
  "text_icache full_nia l = FLGA (ic_ra_valid l) '' '' ''T'' @ FLGA (ic_access_ok l) '' '' ''X'' @
     (if ic_is_hit l \<noteq> 0 then cbytes ''H'' else FLGA (ic_is_miss l) ''M'' '' '') @ dec (unat (ic_way l)) @ cbytes '' '' @
     FLAG (ic_state l) ''W'' @ cbytes '' '' @ FLAG (ic_wb_cyc l) ''c'' @ FLAG (ic_wb_stb l) ''s'' @ dec (unat (ic_wb_adr l)) @
     FLAG (ic_wb_stall l) ''S'' @ FLAG (ic_wb_ack l) ''a'' @ cbytes '' '' @
     prec 2 (hex (unat (PNIA full_nia (ic_part_nia l)))) @ cbytes '' ''"

definition text_insn :: "log_entry \<Rightarrow> u8 list" where
  "text_insn l =
     (if ic_valid l \<noteq> 0 then
        (if ic_insn l AND push_bit 35 1 \<noteq> 0 then cbytes ''ill '' @ prec 8 (hex (unat (ic_insn l AND 0xffffffff)))
         else width 3 (dec (unat (drop_bit 26 (ic_insn l)))) @ cbytes '' x'' @ prec 7 (hex (unat (ic_insn l AND 0x3ffffff))))
      else if ic_fetch_failed l \<noteq> 0 then cbytes ''    !!!!!!!!''
      else cbytes ''--- --------'')"

definition text_d1 :: "u64 list \<Rightarrow> log_entry \<Rightarrow> u8 list" where
  "text_d1 full_nia l = cbytes '' '' @ FLAG (ic_valid l) ''>'' @ FLAG (d2_stall_out l) ''|'' @ cbytes '' '' @
     prec 2 (hex (unat (PNIA full_nia (d1_part_nia l)))) @ cbytes '' '' @
     (if d1_valid l \<noteq> 0 then cbytes (units ! unat (d1_unit l)) @ cbytes '' '' @ cbytes (ops ! unat (d1_insn_type l))
      else cbytes ''-- -------'')"

definition text_d2 :: "u64 list \<Rightarrow> log_entry \<Rightarrow> u8 list" where
  "text_d2 full_nia l = cbytes '' '' @ FLAG (d1_valid l) ''>'' @ FLAG (d2_stall_out l) ''|'' @ cbytes '' '' @
     prec 2 (hex (unat (PNIA full_nia (d2_part_nia l)))) @ cbytes '' '' @ FLAG (d2_bypass_a l) ''a'' @ FLAG (d2_bypass_b l) ''b'' @
     FLAG (d2_bypass_c l) ''c'' @ cbytes '' '' @ FLAG (d2_valid l) ''>'' @ FLAG (e1_stall_out l) ''|'' @ cbytes '' ''"

definition text_e1 :: "log_entry \<Rightarrow> u8 list" where
  "text_e1 l = FLAG (e1_flush_out l) ''F'' @ FLAG (e1_redirect l) ''R'' @ cbytes '' '' @ FLAG (e1_irq_state l) ''w'' @
     FLAG (e1_irq l) ''I'' @ FLAG (e1_exception l) ''X'' @ cbytes '' '' @ FLAG (e1_msr_ee l) ''E'' @ FLGA (e1_msr_pr l) ''u'' ''s'' @
     FLAG (e1_msr_ir l) ''I'' @ FLAG (e1_msr_dr l) ''D'' @ cbytes '' '' @ FLAG (e1_write_enable l) ''W'' @ FLAG (e1_valid l) ''C'' @ cbytes '' ''"

definition text_ls :: "log_entry \<Rightarrow> u8 list" where
  "text_ls l = FLAG (ls_stall_out l) ''|'' @ cbytes '' '' @ dec (unat (ls_state l)) @ dec (unat (ls_dw_done l)) @ cbytes '' '' @
     FLAG (ls_mo_valid l) ''M'' @ FLAG (ls_min_done l) ''m'' @ cbytes '' '' @ FLAG (ls_lo_valid l) ''C'' @ FLAG (ls_eo_except l) ''X'' @
     cbytes '' '' @ FLAG (ls_do_valid l) ''>'' @ cbytes '' ''"

definition text_dc :: "log_entry \<Rightarrow> u8 list" where
  "text_dc l = dec (unat (dc_state l)) @ FLAG (dc_ra_valid l) ''R'' @ dec (unat (dc_tlb_way l)) @ dec (unat (dc_op l)) @ cbytes '' '' @
     FLAG (dc_do_valid l) ''V'' @ FLAG (dc_do_error l) ''E'' @ cbytes '' '' @ FLAG (dc_wb_cyc l) ''c'' @ FLAG (dc_wb_stb l) ''s'' @
     dec (unat (dc_wb_adr l)) @ FLAG (dc_wb_stall l) ''S'' @ FLAG (dc_wb_ack l) ''a'' @ cbytes '' ''"

definition text_cr :: "log_entry \<Rightarrow> u8 list" where
  "text_cr l =
     (if cr_wr_enable l \<noteq> 0 then hex (unat (cr_wr_data l)) @ cbytes ''>'' @ prec 2 (hex (unat (cr_wr_mask l))) @ cbytes '' ''
      else cbytes ''     '')"

definition text_reg :: "log_entry \<Rightarrow> u8 list" where
  "text_reg l =
     (if reg_wr_enable l \<noteq> 0 then
        (if reg_wr_reg l < 32 \<or> 44 < reg_wr_reg l then cbytes ''r'' @ prec 2 (dec (unat (reg_wr_reg l)))
         else cbytes (spr_names ! unat (reg_wr_reg l - 32))) @
        cbytes ''='' @ prec 16 (hex (unat (reg_wr_data l)))
      else [])"

record fmt_state =
  full_nia :: "u64 list"
  lineno :: nat
  ncompl :: nat
  fmt_out :: "u8 list"

definition fmt_init :: "fmt_env \<Rightarrow> fmt_state" where
  "fmt_init env = \<lparr>full_nia = map (\<lambda>i. push_bit 2 (of_nat i)) [0..<15] @ [junk15 env], lineno = 1, ncompl = 0, fmt_out = []\<rparr>"

definition set_nia :: "fmt_env \<Rightarrow> log_entry \<Rightarrow> u64 list \<Rightarrow> u64 list" where
  "set_nia env l t = t[unat (nia_lo l AND 0xf) :=
     (if nia_hi l \<noteq> 0 then 0xc000000000000000 else 0) OR take_bit (nia_bits env) (push_bit 2 (nia_lo l))]"

definition fmt_entry :: "fmt_env \<Rightarrow> log_entry \<Rightarrow> fmt_state \<Rightarrow> fmt_state" where
  "fmt_entry env l s =
     (let t = set_nia env l (full_nia s);
          n = lineno s;
          out = fmt_out s @ (if n mod 20 = 1 then heading else []) @ text_nia n l @ text_icache t l @ text_insn l @ text_d1 t l @
            text_d2 t l @ text_e1 l @ text_ls l @ text_dc l @ text_cr l @ text_reg l @ [10]
      in \<lparr>full_nia = t, lineno = n + 1,
          ncompl = (if ls_lo_valid l \<noteq> 0 \<or> e1_valid l \<noteq> 0 then ncompl s + 1 else ncompl s), fmt_out = out\<rparr>)"

text \<open>\<open>fread\<close> gives the next 32 bytes, or nothing when there are fewer.\<close>

function fmt_loop :: "fmt_env \<Rightarrow> u8 list \<Rightarrow> fmt_state \<Rightarrow> fmt_state" where
  "fmt_loop env bs s =
     (if length bs < 32 then s else fmt_loop env (drop 32 bs) (fmt_entry env (log_of (take 32 bs)) s))"
  by pat_completeness auto

termination
  by (relation "measure (\<lambda>(env, bs, s). length bs)") auto

declare fmt_loop.simps [simp del]

definition text_cpi :: "fmt_env \<Rightarrow> nat \<Rightarrow> nat \<Rightarrow> u8 list" where
  "text_cpi env n m =
     (if m = 0 then (if n = 0 then nan_text env else cbytes ''inf'')
      else let c = hundredths (div_double n m) in dec (c div 100) @ cbytes ''.'' @ prec 2 (dec (c mod 100)))"

definition fmt_summary :: "fmt_env \<Rightarrow> fmt_state \<Rightarrow> u8 list" where
  "fmt_summary env s = dec (ncompl s) @ cbytes '' instructions completed, '' @ text_cpi env (lineno s - 1) (ncompl s) @ cbytes '' CPI'' @ [10]"

text \<open>
  The program with its name, its arguments, the files, each with its contents or the message for
  the error of opening it, and the standard input: the exit status, the output and the error output.
\<close>

definition fmt_log_main :: "fmt_env \<Rightarrow> u8 list \<Rightarrow> u8 list list \<Rightarrow> (u8 list \<Rightarrow> u8 list + u8 list) \<Rightarrow> u8 list \<Rightarrow> nat \<times> u8 list \<times> u8 list" where
  "fmt_log_main env prog args files stdin =
     (if length args \<noteq> 0 \<and> length args \<noteq> 1 then (1, [], cbytes ''Usage: '' @ prog @ cbytes '' [filename]'' @ [10])
      else case (if length args = 1 then files (args ! 0) else Inr stdin) of
        Inl msg \<Rightarrow> (1, [], args ! 0 @ cbytes '': '' @ msg @ [10])
      | Inr bs \<Rightarrow> let s = fmt_loop env bs (fmt_init env) in (0, fmt_out s @ fmt_summary env s, []))"

end
