(* ===== verification/Fmt_Text.thy ===== *)
theory Fmt_Text
  imports Fmt_Log Complex_Main
begin

text \<open>
  What the log formatter prints: the partial addresses it looks up, the lines and their
  columns, the counts, and how accurate the cycles per instruction are.
\<close>

definition env0 :: fmt_env where
  "env0 = \<lparr>junk15 = 0, nia_bits = 42, nan_text = cbytes ''-nan''\<rparr>"

section \<open>Fields\<close>

lemma unat_take_bit_exp: "k < 64 \<Longrightarrow> unat (take_bit k w) < 2 ^ k" for w :: u64
  by (simp add: unsigned_take_bit_eq)

lemma unat_bf: "len < 64 \<Longrightarrow> unat (bf w off len) < 2 ^ len"
  unfolding bf_def by (rule unat_take_bit_exp)

lemma nia_index: "unat (nia_lo l AND 0xf) < 16"
  using word_and_le1 [of "nia_lo l" "0xf"] by (simp add: word_le_nat_alt)

lemma part_nia_less: "unat (ic_part_nia l) < 16" "unat (d1_part_nia l) < 16" "unat (d2_part_nia l) < 16"
  using unat_bf [of 4] by (simp_all add: ic_part_nia_def d1_part_nia_def d2_part_nia_def)

section \<open>Partial addresses\<close>

text \<open>
  An entry of the log holds only four bits of the address of the instruction in a stage; the
  formatter completes it with the last fetch whose address has these bits. The low byte it shows for \<open>j\<close> after the
  entries \<open>es\<close> is that of the last of them with \<open>j\<close> in the bits 2 to 5 of its address.
\<close>

definition part_nia :: "fmt_env \<Rightarrow> log_entry list \<Rightarrow> nat \<Rightarrow> u64" where
  "part_nia env es j =
     (case find (\<lambda>l. unat (nia_lo l AND 0xf) = j) (rev es) of
        Some l \<Rightarrow> push_bit 2 (nia_lo l) AND 0xff
      | None \<Rightarrow> if j < 15 then of_nat (4 * j) else junk15 env AND 0xff)"

lemma set_nia_low:
  "8 \<le> k \<Longrightarrow> ((if b then 0xc000000000000000 else 0) OR take_bit k x) AND 0xff = x AND 0xff" for x :: u64
proof -
  assume k: "8 \<le> k"
  have t: "take_bit k x AND mask 8 = x AND mask 8"
    unfolding take_bit_eq_mask [symmetric] using k by (simp add: take_bit_take_bit min_def)
  have c: "(0xc000000000000000 :: u64) AND mask 8 = 0" by (simp add: mask_numeral)
  have "(if b then 0xc000000000000000 OR take_bit k x else take_bit k x) AND mask 8 = x AND mask 8"
    by (simp only: bit.conj_disj_distrib2 if_distrib [of "\<lambda>y. y AND mask 8"] t c) simp
  then show ?thesis by (cases b) (simp_all add: mask_numeral)
qed

lemma nia_table:
  assumes "8 \<le> nia_bits env" "j < 16"
  shows "length (fold (set_nia env) es (full_nia (fmt_init env))) = 16 \<and>
    fold (set_nia env) es (full_nia (fmt_init env)) ! j AND 0xff = part_nia env es j"
proof (induction es rule: rev_induct)
  case Nil
  have "(of_nat (4 * i) :: u64) AND 0xff = of_nat (4 * i)" if "i < 15" for i :: nat
  proof -
    have "i \<in> {0..<15}" using that by simp
    then have "i \<in> set [0, 1, 2, 3, 4, 5, 6, 7, 8, 9, 10, 11, 12, 13, 14]" by (auto simp: numeral_eq_Suc less_Suc_eq)
    then show ?thesis by auto
  qed
  then show ?case
    using assms(2) by (auto simp: fmt_init_def part_nia_def nth_append push_bit_eq_mult mult.commute)
next
  case (snoc l es)
  let ?t = "fold (set_nia env) es (full_nia (fmt_init env))"
  show ?case
  proof (cases "unat (nia_lo l AND 0xf) = j")
    case True
    then show ?thesis using snoc set_nia_low [OF assms(1)] assms(2) by (simp add: set_nia_def part_nia_def)
  next
    case False
    then show ?thesis using snoc by (simp add: set_nia_def part_nia_def)
  qed
qed

section \<open>The output\<close>

definition entry_fixed :: "u64 list \<Rightarrow> nat \<Rightarrow> log_entry \<Rightarrow> u8 list" where
  "entry_fixed t n l = text_nia n l @ text_icache t l @ text_insn l @ text_d1 t l @ text_d2 t l @ text_e1 l @ text_ls l @ text_dc l @ text_cr l"

definition completes :: "log_entry \<Rightarrow> bool" where
  "completes l \<longleftrightarrow> ls_lo_valid l \<noteq> 0 \<or> e1_valid l \<noteq> 0"

text \<open>The line of entry \<open>i\<close>, after the headings if it is the first of twenty, and the whole report.\<close>

definition report_line :: "fmt_env \<Rightarrow> log_entry list \<Rightarrow> nat \<Rightarrow> u8 list" where
  "report_line env es i = (if i mod 20 = 0 then heading else []) @
     entry_fixed (map (part_nia env (take (Suc i) es)) [0..<16]) (Suc i) (es ! i) @ text_reg (es ! i) @ [10]"

definition report :: "fmt_env \<Rightarrow> log_entry list \<Rightarrow> u8 list" where
  "report env es = concat (map (report_line env es) [0..<length es]) @
     (let m = length (filter completes es)
      in dec m @ cbytes '' instructions completed, '' @ text_cpi env (length es) m @ cbytes '' CPI'' @ [10])"

lemma PNIA_table:
  assumes "8 \<le> nia_bits env" "unat f < 16"
  shows "PNIA (fold (set_nia env) es (full_nia (fmt_init env))) f = PNIA (map (part_nia env es) [0..<16]) f"
proof -
  have "PNIA (fold (set_nia env) es (full_nia (fmt_init env))) f = part_nia env es (unat f)"
    using nia_table [OF assms] by (simp add: PNIA_def)
  moreover have "part_nia env es (unat f) AND 0xff = part_nia env es (unat f)"
    using nia_table [OF assms, of es] by (metis and.assoc and.idem)
  ultimately show ?thesis using assms(2) by (simp add: PNIA_def)
qed

lemma fixed_table:
  assumes "8 \<le> nia_bits env"
  shows "entry_fixed (fold (set_nia env) es (full_nia (fmt_init env))) n l = entry_fixed (map (part_nia env es) [0..<16]) n l"
  by (simp add: entry_fixed_def text_icache_def text_d1_def text_d2_def PNIA_table [OF assms part_nia_less(1)]
      PNIA_table [OF assms part_nia_less(2)] PNIA_table [OF assms part_nia_less(3)])

lemma report_line_take: "i < n \<Longrightarrow> report_line env (take n es) i = report_line env es i"
  by (simp add: report_line_def min_absorb1)

lemma fmt_entry_eq:
  "fmt_entry env l s = \<lparr>full_nia = set_nia env l (full_nia s), lineno = Suc (lineno s), ncompl = ncompl s + of_bool (completes l),
     fmt_out = fmt_out s @ (if lineno s mod 20 = 1 then heading else []) @ entry_fixed (set_nia env l (full_nia s)) (lineno s) l @ text_reg l @ [10]\<rparr>"
  by (simp add: fmt_entry_def Let_def completes_def entry_fixed_def)

lemma fmt_entries:
  assumes "8 \<le> nia_bits env"
  shows "fold (fmt_entry env) es (fmt_init env) = \<lparr>full_nia = fold (set_nia env) es (full_nia (fmt_init env)), lineno = Suc (length es),
    ncompl = length (filter completes es), fmt_out = concat (map (report_line env es) [0..<length es])\<rparr>"
proof (induction es rule: rev_induct)
  case (snoc l es)
  have m: "map (report_line env (es @ [l])) [0..<length es] = map (report_line env es) [0..<length es]"
    using report_line_take [of _ "length es" env "es @ [l]"] by (intro map_cong) auto
  have "Suc (length es) mod 20 = 1 \<longleftrightarrow> length es mod 20 = 0" by presburger
  moreover have "entry_fixed (set_nia env l (fold (set_nia env) es (full_nia (fmt_init env)))) n l =
      entry_fixed (map (part_nia env (es @ [l])) [0..<16]) n l" for n
    using fixed_table [OF assms, of "es @ [l]" n l] by simp
  ultimately show ?case
    unfolding fold_append comp_apply snoc by (simp add: fmt_entry_eq m del: map_eq_conv) (simp add: report_line_def)
qed (simp add: fmt_init_def)

lemma fmt_loop_blocks:
  "(\<And>b. b \<in> set blks \<Longrightarrow> length b = 32) \<Longrightarrow> length rest < 32 \<Longrightarrow>
   fmt_loop env (concat blks @ rest) s = fold (fmt_entry env) (map log_of blks) s"
proof (induction blks arbitrary: s)
  case (Cons b blks)
  then show ?case by (subst fmt_loop.simps) simp
qed (simp add: fmt_loop.simps)

lemma fmt_loop_report:
  assumes "8 \<le> nia_bits env" "\<And>b. b \<in> set blks \<Longrightarrow> length b = 32" "length rest < 32"
  defines "s \<equiv> fmt_loop env (concat blks @ rest) (fmt_init env)"
  shows "fmt_out s @ fmt_summary env s = report env (map log_of blks)"
proof -
  have "s = fold (fmt_entry env) (map log_of blks) (fmt_init env)"
    unfolding s_def using assms(2,3) by (rule fmt_loop_blocks)
  then show ?thesis unfolding fmt_entries [OF assms(1)] by (simp add: report_def fmt_summary_def Let_def)
qed

section \<open>Columns\<close>

lemma length_digs_le: "1 < b \<Longrightarrow> v < b ^ Suc k \<Longrightarrow> length (digs b v) \<le> Suc k"
proof (induction k arbitrary: v)
  case (Suc k)
  show ?case
  proof (cases "v < b")
    case False
    have "v div b < b ^ Suc k" using Suc.prems by (simp add: less_mult_imp_div_less mult.commute)
    from Suc.IH [OF Suc.prems(1) this] show ?thesis using False Suc.prems(1) by (simp add: digs_step)
  qed (simp add: digs_small)
qed (simp add: digs_small)

lemma length_width: "length s \<le> k \<Longrightarrow> length (width k s) = k" "length s \<le> k \<Longrightarrow> length (prec k s) = k"
  by (simp_all add: width_def prec_def)

lemma length_hex: "n < 16 ^ Suc k \<Longrightarrow> length (hex n) \<le> Suc k"
  by (simp only: hex_def dstr_def length_map) (rule length_digs_le; simp)

lemma length_dec: "n < 10 ^ Suc k \<Longrightarrow> length (dec n) \<le> Suc k"
  by (simp only: dec_def dstr_def length_map) (rule length_digs_le; simp)

lemma length_prec_hex: "0 < k \<Longrightarrow> n < 16 ^ k \<Longrightarrow> length (prec k (hex n)) = k"
  using length_hex [of n "k - 1"] by (simp add: length_width)

lemma length_width_dec: "0 < k \<Longrightarrow> n < 10 ^ k \<Longrightarrow> length (width k (dec n)) = k"
  using length_dec [of n "k - 1"] by (simp add: length_width)

lemma length_dec_1: "n < 10 \<Longrightarrow> length (dec n) = 1"
  by (simp add: dec_def dstr_def digs_small)

lemma length_hex_1: "n < 16 \<Longrightarrow> length (hex n) = 1"
  by (simp add: hex_def dstr_def digs_small)

lemma length_flags [simp]:
  "length y = 1 \<Longrightarrow> length (FLAG x y) = 1" "length y = 1 \<Longrightarrow> length z = 1 \<Longrightarrow> length (FLGA x y z) = 1" "length (cbytes y) = length y"
  by (simp_all add: FLAG_def FLGA_def cbytes_def)

lemma length_digit_fields:
  "length (dec (unat (ic_way l))) = 1" "length (dec (unat (ic_wb_adr l))) = 1" "length (dec (unat (ls_state l))) = 1"
  "length (dec (unat (ls_dw_done l))) = 1" "length (dec (unat (dc_state l))) = 1" "length (dec (unat (dc_tlb_way l))) = 1"
  "length (dec (unat (dc_op l))) = 1" "length (dec (unat (dc_wb_adr l))) = 1" "length (hex (unat (cr_wr_data l))) = 1"
  "length (prec 2 (hex (unat (cr_wr_mask l)))) = 2"
proof -
  have 3: "length (dec (unat (bf w off 3))) = 1" and 1: "length (dec (unat (bf w off 1))) = 1"
    and 4: "length (hex (unat (bf w off 4))) = 1" and 8: "length (prec 2 (hex (unat (bf w off 8)))) = 2" for w off
    using unat_bf [of 3 w off] unat_bf [of 1 w off] unat_bf [of 4 w off] unat_bf [of 8 w off]
    by (simp_all add: length_dec_1 length_hex_1 length_prec_hex)
  show "length (dec (unat (ic_way l))) = 1" "length (dec (unat (ic_wb_adr l))) = 1" "length (dec (unat (ls_state l))) = 1"
    "length (dec (unat (dc_state l))) = 1" "length (dec (unat (dc_tlb_way l))) = 1" "length (dec (unat (dc_op l))) = 1" "length (dec (unat (dc_wb_adr l))) = 1"
    unfolding ic_way_def ic_wb_adr_def ls_state_def dc_state_def dc_tlb_way_def dc_op_def dc_wb_adr_def by (rule 3)+
  show "length (dec (unat (ls_dw_done l))) = 1" unfolding ls_dw_done_def by (rule 1)
  show "length (hex (unat (cr_wr_data l))) = 1" unfolding cr_wr_data_def by (rule 4)
  show "length (prec 2 (hex (unat (cr_wr_mask l)))) = 2" unfolding cr_wr_mask_def by (rule 8)
qed

lemma length_PNIA: "length (prec 2 (hex (unat (PNIA t f)))) = 2"
proof (rule length_prec_hex)
  have "PNIA t f \<le> 0xff" unfolding PNIA_def by (rule word_and_le1)
  then show "unat (PNIA t f) < 16 ^ 2" by (simp add: word_le_nat_alt)
qed simp

lemma length_names: "length (units ! unat (d1_unit l)) = 2" "length (ops ! unat (d1_insn_type l)) = 7"
proof -
  have "unat (d1_unit l) < length units" "\<forall>x \<in> set units. length x = 2"
    using unat_bf [of 2 "le1 l" 38] by (simp_all add: units_def d1_unit_def)
  then show "length (units ! unat (d1_unit l)) = 2" using nth_mem by blast
  have "unat (d1_insn_type l) < length ops" "\<forall>x \<in> set ops. length x = 7"
    using unat_bf [of 6 "le1 l" 44] by (simp_all add: ops_def d1_insn_type_def)
  then show "length (ops ! unat (d1_insn_type l)) = 7" using nth_mem by blast
qed

lemma length_text_insn: "length (text_insn l) = 12"
proof -
  have "unat (ic_insn l AND 0xffffffff) < 16 ^ 8" "unat (ic_insn l AND 0x3ffffff) < 16 ^ 7"
    using word_and_le1 [of "ic_insn l" "0xffffffff"] word_and_le1 [of "ic_insn l" "0x3ffffff"] by (simp_all add: word_le_nat_alt)
  moreover have "unat (drop_bit 26 (ic_insn l)) < 10 ^ 3" if "ic_insn l AND push_bit 35 1 = 0"
  proof -
    have "\<not> bit (ic_insn l) 35"
    proof
      assume "bit (ic_insn l) 35"
      then have "bit (ic_insn l AND push_bit 35 1) 35" by (simp add: bit_simps)
      then show False using that by simp
    qed
    moreover have "n < 36 \<longleftrightarrow> n < 35 \<or> n = 35" for n :: nat by auto
    ultimately have "take_bit 35 (ic_insn l) = ic_insn l"
      by (intro bit_word_eqI) (auto simp: bit_simps ic_insn_def bf_def)
    then have "drop_bit 26 (ic_insn l) = take_bit 9 (drop_bit 26 (ic_insn l))" by (simp add: take_bit_drop_bit)
    then have "unat (drop_bit 26 (ic_insn l)) < 2 ^ 9" using unat_take_bit_exp [of 9 "drop_bit 26 (ic_insn l)"] by simp
    then show ?thesis by simp
  qed
  ultimately show ?thesis by (simp add: text_insn_def length_prec_hex length_width_dec)
qed

lemma length_text_nia: "n < 10 ^ 4 \<Longrightarrow> length (text_nia n l) = 24"
proof -
  assume n: "n < 10 ^ 4"
  have "push_bit 2 (nia_lo l) = take_bit 44 (push_bit 2 (nia_lo l))"
    by (rule bit_word_eqI) (auto simp: bit_simps nia_lo_def bf_def)
  then have "unat (push_bit 2 (nia_lo l)) < 2 ^ 44" using unat_take_bit_exp [of 44 "push_bit 2 (nia_lo l)"] by simp
  then have "length (prec 11 (hex (unat (push_bit 2 (nia_lo l))))) = 11" by (intro length_prec_hex) simp_all
  moreover have "length (width 4 (dec n)) = 4" using n by (intro length_width_dec) simp_all
  ultimately show ?thesis by (simp add: text_nia_def)
qed

text \<open>A name of a column at a place of a line.\<close>

definition column_of :: "string \<Rightarrow> u8 list \<Rightarrow> nat \<Rightarrow> bool" where
  "column_of name txt k \<longleftrightarrow> take (length name) (drop k txt) = cbytes name"

text \<open>
  C26. Every line has its columns in the same places, whatever the entry: in the first 9999 lines the text before the register that is
  written takes exactly 130 characters, which is where the second line of the headings has \<open>reg\<close>.
\<close>

theorem fmt_columns:
  assumes "n < 10 ^ 4"
  shows "length (entry_fixed t n l) = 130 \<and> column_of ''reg'' (drop 134 heading) 130"
proof -
  have "length (text_icache t l) = 16" "length (text_d1 t l) = 17" "length (text_d2 t l) = 14" "length (text_e1 l) = 15"
    "length (text_ls l) = 13" "length (text_dc l) = 14" "length (text_cr l) = 5"
    by (simp_all add: text_icache_def text_d1_def text_d2_def text_e1_def text_ls_def text_dc_def text_cr_def length_PNIA length_digit_fields
        length_names)
  then have "length (entry_fixed t n l) = 130" using assms by (simp add: entry_fixed_def length_text_nia length_text_insn)
  moreover have "column_of ''reg'' (drop 134 heading) 130" by code_simp
  ultimately show ?thesis ..
qed

theorem fmt_columns_witness:
  "length (entry_fixed (replicate 16 0) 7 (log_of (replicate 32 255))) = 130 \<and> column_of ''reg'' (drop 134 heading) 130"
  by (rule fmt_columns) simp

section \<open>The table of addresses\<close>

definition nia_ok :: "fmt_state \<Rightarrow> bool" where
  "nia_ok s \<longleftrightarrow> length (full_nia s) = 16 \<and> (\<forall>j<15. full_nia s ! j AND 0x3c = push_bit 2 (of_nat j))"

lemma nia_low_bits:
  fixes x :: u64
  assumes "6 \<le> k"
  shows "((if b then 0xc000000000000000 else 0) OR take_bit k (push_bit 2 x)) AND 0x3c = push_bit 2 (x AND 0xf)"
proof -
  have e: "(0x3c :: u64) = push_bit 2 (mask 4)" "(0xf :: u64) = mask 4" by (simp_all add: mask_numeral)
  have c: "(0xc000000000000000 :: u64) AND push_bit 2 (mask 4) = 0" by (simp add: mask_numeral)
  have "take_bit k (push_bit 2 x) AND push_bit 2 (mask 4) = push_bit 2 (x AND mask 4)"
    by (rule bit_word_eqI) (use assms in \<open>auto simp: bit_simps\<close>)
  then show ?thesis
    unfolding e by (simp only: bit.conj_disj_distrib2 if_distrib [of "\<lambda>y. y AND push_bit 2 (mask 4)"] c) simp
qed

lemma nia_ok_init: "nia_ok (fmt_init env)"
proof -
  have "(push_bit 2 (of_nat j) :: u64) AND 0x3c = push_bit 2 (of_nat j)" if "j < 15" for j
  proof -
    have "(of_nat j :: u64) AND 0xf = of_nat j"
    proof -
      have "(0xf :: u64) = mask 4" by (simp add: mask_numeral)
      moreover have "take_bit 4 j = j" using that by (simp add: take_bit_nat_eq_self)
      ultimately show ?thesis by (metis take_bit_eq_mask take_bit_of_nat)
    qed
    then show ?thesis using nia_low_bits [of 64 False "of_nat j"] by (simp add: take_bit_word_eq_self)
  qed
  then show ?thesis by (auto simp: nia_ok_def fmt_init_def nth_append)
qed

lemma nia_ok_entry: "6 \<le> nia_bits env \<Longrightarrow> nia_ok s \<Longrightarrow> nia_ok (fmt_entry env l s)"
proof -
  assume w: "6 \<le> nia_bits env" and s: "nia_ok s"
  let ?i = "unat (nia_lo l AND 0xf)"
  define x where "x = (if nia_hi l \<noteq> 0 then 0xc000000000000000 else 0) OR take_bit (nia_bits env) (push_bit 2 (nia_lo l))"
  have x: "x AND 0x3c = push_bit 2 (of_nat ?i)" using nia_low_bits [OF w] by (simp add: x_def)
  have "(full_nia s)[?i := x] ! j AND 0x3c = push_bit 2 (of_nat j)" if "j < 15" for j
    using that s x nia_index [of l] by (cases "?i = j") (auto simp: nia_ok_def)
  then show ?thesis using s by (simp add: nia_ok_def fmt_entry_eq set_nia_def flip: x_def)
qed


section \<open>Cycles per instruction\<close>

lemma round_div_error:
  assumes "0 < b"
  shows "\<bar>real (round_div a b) - real a / real b\<bar> \<le> 1 / 2"
proof -
  let ?q = "a div b" and ?r = "a mod b"
  have "real a = real ?q * real b + real ?r" by (metis div_mult_mod_eq of_nat_add of_nat_mult)
  then have e: "real a / real b = real ?q + real ?r / real b" using assms by (simp add: field_simps)
  have r: "real ?r < real b" using assms by simp
  show ?thesis
  proof (cases "2 * ?r < b \<or> 2 * ?r = b \<and> even ?q")
    case True
    then have "real (2 * ?r) \<le> real b" by (intro of_nat_mono) auto
    then show ?thesis unfolding e using True assms by (simp add: round_div_def Let_def field_simps)
  next
    case False
    then have "real b \<le> real (2 * ?r)" by (intro of_nat_mono) auto
    then have "1 / 2 \<le> real ?r / real b" using assms by (simp add: field_simps)
    moreover have "real ?r / real b \<le> 1" using assms r by (simp add: field_simps)
    moreover have "round_div a b = ?q + 1" using False by (simp add: round_div_def Let_def)
    ultimately show ?thesis unfolding e by (simp add: abs_le_iff)
  qed
qed

lemma scale_bound: "0 < a \<Longrightarrow> \<exists>j. scale a b k = k + j \<and> 2 ^ 52 * b \<le> a * 2 ^ j"
proof (induction a b k rule: scale.induct)
  case (1 a b k)
  show ?case
  proof (cases "2 ^ 52 * b \<le> a")
    case True
    then show ?thesis by (intro exI [of _ 0]) (simp add: scale.simps)
  next
    case False
    with 1 obtain j where "scale (2 * a) b (k + 1) = k + 1 + j" "2 ^ 52 * b \<le> 2 * a * 2 ^ j" by auto
    then show ?thesis using False "1.prems" by (intro exI [of _ "Suc j"]) (simp add: scale.simps [of a])
  qed
qed

lemma div_double_error:
  assumes "0 < a" "0 < b"
  shows "\<bar>real (fst (div_double a b)) / 2 ^ snd (div_double a b) - real a / real b\<bar> \<le> (real a / real b) / 2 ^ 53"
proof -
  obtain k where k: "scale a b 0 = k" "2 ^ 52 * b \<le> a * 2 ^ k" using scale_bound [OF assms(1)] by fastforce
  let ?m = "round_div (a * 2 ^ k) b"
  have "real (2 ^ 52 * b) \<le> real (a * 2 ^ k)" using k(2) by (rule of_nat_mono)
  then have s: "2 ^ 52 \<le> real a / real b * 2 ^ k" using assms(2) by (simp add: field_simps)
  define q x where "q = real a / real b" and "x = q * 2 ^ k"
  have "\<bar>real ?m - x\<bar> \<le> 1 / 2" using round_div_error [OF assms(2), of "a * 2 ^ k"] by (simp add: x_def q_def)
  also have "1 / 2 \<le> x / 2 ^ 53" using s by (simp add: x_def q_def [symmetric])
  finally have "\<bar>real ?m - x\<bar> / 2 ^ k \<le> x / 2 ^ 53 / 2 ^ k" by (rule divide_right_mono) simp
  moreover have "\<bar>real ?m - x\<bar> / 2 ^ k = \<bar>(real ?m - x) / 2 ^ k\<bar>" by simp
  moreover have "(real ?m - x) / 2 ^ k = real ?m / 2 ^ k - q" by (simp add: diff_divide_distrib x_def)
  moreover have "x / 2 ^ 53 / 2 ^ k = q / 2 ^ 53" by (simp add: x_def)
  ultimately have "\<bar>real ?m / 2 ^ k - q\<bar> \<le> q / 2 ^ 53" by simp
  then show ?thesis using k(1) by (simp add: div_double_def Let_def q_def)
qed

text \<open>
  C27. The cycles per instruction are printed with two digits, and the number differs from the quotient of the two counts by at most half
  a unit of the last digit plus the relative error of one rounding to a double.
\<close>

theorem cpi_accurate:
  assumes "0 < n" "0 < m"
  shows "\<exists>c. text_cpi env n m = dec (c div 100) @ cbytes ''.'' @ prec 2 (dec (c mod 100)) \<and>
    length (prec 2 (dec (c mod 100))) = 2 \<and> \<bar>real c / 100 - real n / real m\<bar> \<le> 1 / 200 + real n / real m / 2 ^ 53"
proof (intro exI conjI)
  let ?d = "div_double n m" and ?c = "hundredths (div_double n m)"
  show "text_cpi env n m = dec (?c div 100) @ cbytes ''.'' @ prec 2 (dec (?c mod 100))"
    using assms by (simp add: text_cpi_def Let_def)
  show "length (prec 2 (dec (?c mod 100))) = 2"
    using length_dec [of "?c mod 100" 1] by (simp add: length_width)
  define q e where "q = real n / real m" and "e = real (fst ?d) / 2 ^ snd ?d"
  have "\<bar>real ?c - 100 * e\<bar> \<le> 1 / 2"
    using round_div_error [of "2 ^ snd ?d" "100 * fst ?d"] by (simp add: hundredths_def e_def)
  moreover have "\<bar>e - q\<bar> \<le> q / 2 ^ 53" using div_double_error [OF assms] by (simp add: e_def q_def)
  ultimately show "\<bar>real ?c / 100 - real n / real m\<bar> \<le> 1 / 200 + real n / real m / 2 ^ 53"
    unfolding q_def [symmetric] by linarith
qed

theorem cpi_accurate_witness:
  "\<exists>c. text_cpi env0 5 2 = dec (c div 100) @ cbytes ''.'' @ prec 2 (dec (c mod 100)) \<and>
    length (prec 2 (dec (c mod 100))) = 2 \<and> \<bar>real c / 100 - real 5 / real 2\<bar> \<le> 1 / 200 + real 5 / real 2 / 2 ^ 53"
  by (rule cpi_accurate) simp_all

section \<open>The program\<close>

text \<open>
  C24. On a file of whole entries, maybe followed by a part of one, the program exits with status 0 and prints one line per entry, with headings before every
  twentieth, and the summary. A partial address on a line is that of the last entry up to there whose address has the same four bits. The count is the number
  of entries in which an instruction completes. A file that cannot be opened gives status 1 and the message, and so do two or more arguments.
\<close>

theorem fmt_log_output:
  assumes "8 \<le> nia_bits env" "\<forall>b \<in> set blks. length b = 32" "length rest < 32" "files f = Inr (concat blks @ rest)" "files g = Inl msg"
  shows "fmt_log_main env prog [f] files stdin = (0, report env (map log_of blks), []) \<and>
    fmt_log_main env prog [] files (concat blks @ rest) = (0, report env (map log_of blks), []) \<and>
    fmt_log_main env prog [g] files stdin = (1, [], g @ cbytes '': '' @ msg @ [10]) \<and>
    (2 \<le> length args \<longrightarrow> fmt_log_main env prog args files stdin = (1, [], cbytes ''Usage: '' @ prog @ cbytes '' [filename]'' @ [10]))"
  using fmt_loop_report [OF assms(1) _ assms(3), of blks] assms(2,4,5) by (auto simp: fmt_log_main_def Let_def)

theorem fmt_log_output_witness:
  "fmt_log_main env0 [112] [[108]] (\<lambda>f. if f = [108] then Inr (replicate 32 0 @ [1, 2]) else Inl [33]) [] =
     (0, report env0 [log_of (replicate 32 0)], [])"
  using fmt_log_output [of env0 "[replicate 32 0]" "[1, 2]" "\<lambda>f. if f = [108] then Inr (replicate 32 0 @ [1, 2]) else Inl [33]" "[108]" "[]" "[33]" "[112]" "[]"]
  by (simp add: env0_def)


end
