(* ===== verification/Fmt_Hw.thy ===== *)
theory Fmt_Hw
  imports Debug_Log Fmt_Text
begin

text \<open>
  The log from the core to the printed report. The units of the core each contribute some bits of
  an entry (the process at the end of \<^verbatim>\<open>icache.vhdl\<close>, \<^verbatim>\<open>decode1.vhdl\<close> and so on, put together in \<^verbatim>\<open>core.vhdl\<close>); the debugger writes
  the entries to a file; the formatter reads them as its structure.
\<close>

section \<open>An entry as the core records it\<close>

record icache_log =
  ih_valid :: bool
  ih_insn :: "36 word"
  ih_ack :: bool
  ih_adr :: "3 word"
  ih_stb :: bool
  ih_cyc :: bool
  ih_wb_stall :: bool
  ih_stall_out :: bool
  ih_fetch_failed :: bool
  ih_hit_nia :: "4 word"
  ih_wstate :: bool
  ih_lway :: "3 word"
  ih_is_hit :: bool
  ih_is_miss :: bool

record decode_log =
  h1_insn_type :: "6 word"
  h1_nia :: "4 word"
  h1_unit :: "2 word"
  h1_valid :: bool
  h2_nia :: "4 word"
  h2_valid :: bool
  h2_stopped_out :: bool
  h2_stall_out :: bool
  h2_a_bypass :: bool
  h2_b_bypass :: bool
  h2_c_bypass :: bool

record execute_log =
  hx_msr_ee :: bool
  hx_msr_pr :: bool
  hx_msr_ir :: bool
  hx_msr_dr :: bool
  hx_exception :: bool
  hx_irq_valid :: bool
  hx_intr :: bool
  hx_write_enable :: bool
  hx_valid :: bool
  hx_redirect :: bool
  hx_busy :: bool
  hx_flush_in :: bool

record loadstore_log =
  hl_busy :: bool
  hl_interrupt :: bool
  hl_valid :: bool
  hl_m_out_valid :: bool
  hl_d_out_valid :: bool
  hl_m_in_done :: bool
  hl_dword_index :: bool
  hl_req_valid :: bool
  hl_wait_dc :: bool
  hl_state :: bool

record dcache_log =
  hd_adr :: "3 word"
  hd_wb_stall :: bool
  hd_ack :: bool
  hd_stb :: bool
  hd_cyc :: bool
  hd_error :: bool
  hd_valid :: bool
  hd_load_miss :: bool
  hd_store :: bool
  hd_hit_reload :: bool
  hd_stall_out :: bool
  hd_tlb_hit_way :: "3 word"
  hd_valid_ra :: bool
  hd_state :: "3 word"

record write_log =
  hw_cr_enable :: bool
  hw_cr_data :: "4 word"
  hw_cr_mask :: "8 word"
  hw_data :: u64
  hw_enable :: bool
  hw_reg :: "6 word"

text \<open>Fields with their widths, the least significant first: the reverse of the order in which the VHDL concatenates them.\<close>

type_synonym fields = "(nat \<times> u64) list"

abbreviation flag1 :: "bool \<Rightarrow> nat \<times> u64" where
  "flag1 b \<equiv> (1, of_bool b)"

primrec pack :: "fields \<Rightarrow> 256 word" where
  "pack [] = 0"
| "pack (x # xs) = ucast (take_bit (fst x) (snd x)) OR push_bit (fst x) (pack xs)"

text \<open>\<open>nia\<close> is the address being fetched, of which the log keeps the bits 43 to 2 and the top bit.\<close>

definition fetch1_fields :: "u64 \<Rightarrow> fields" where
  "fetch1_fields nia = [(42, drop_bit 2 nia), flag1 (bit nia 63)]"

definition icache_fields :: "icache_log \<Rightarrow> fields" where
  "icache_fields i = [flag1 True, flag1 True, flag1 (ih_is_miss i), flag1 (ih_is_hit i), (3, ucast (ih_lway i)), flag1 (ih_wstate i),
     (4, ucast (ih_hit_nia i)), flag1 (ih_fetch_failed i), flag1 (ih_stall_out i), flag1 (ih_wb_stall i), flag1 (ih_cyc i),
     flag1 (ih_stb i), (3, ucast (ih_adr i)), flag1 (ih_ack i), (36, ucast (ih_insn i)), flag1 (ih_valid i)]"

definition decode1_fields :: "decode_log \<Rightarrow> fields" where
  "decode1_fields d = [flag1 (h1_valid d), (2, ucast (h1_unit d)), (4, ucast (h1_nia d)), (6, ucast (h1_insn_type d))]"

definition decode2_fields :: "decode_log \<Rightarrow> fields" where
  "decode2_fields d = [flag1 (h2_c_bypass d), flag1 (h2_b_bypass d), flag1 (h2_a_bypass d), flag1 (h2_stall_out d), flag1 (h2_stopped_out d),
     flag1 (h2_valid d), (4, ucast (h2_nia d))]"

definition execute1_fields :: "execute_log \<Rightarrow> fields" where
  "execute1_fields x = [flag1 (hx_flush_in x), flag1 (hx_busy x), flag1 (hx_redirect x), flag1 (hx_valid x), flag1 (hx_write_enable x),
     flag1 (hx_intr x), flag1 (hx_irq_valid x), flag1 (hx_exception x), flag1 (hx_msr_dr x), flag1 (hx_msr_ir x), flag1 (hx_msr_pr x), flag1 (hx_msr_ee x)]"

definition loadstore1_fields :: "loadstore_log \<Rightarrow> fields" where
  "loadstore1_fields s = [flag1 (hl_state s), flag1 (hl_wait_dc s), flag1 (hl_req_valid s), flag1 (hl_dword_index s), flag1 (hl_m_in_done s),
     flag1 (hl_d_out_valid s), flag1 (hl_m_out_valid s), flag1 (hl_valid s), flag1 (hl_interrupt s), flag1 (hl_busy s)]"

definition dcache_fields :: "dcache_log \<Rightarrow> fields" where
  "dcache_fields c = [(3, ucast (hd_state c)), flag1 (hd_valid_ra c), (3, ucast (hd_tlb_hit_way c)), flag1 (hd_stall_out c), flag1 (hd_hit_reload c),
     flag1 (hd_store c), flag1 (hd_load_miss c), flag1 (hd_valid c), flag1 (hd_error c), flag1 (hd_cyc c), flag1 (hd_stb c), flag1 (hd_ack c),
     flag1 (hd_wb_stall c), (3, ucast (hd_adr c))]"

definition cr_fields :: "write_log \<Rightarrow> fields" where
  "cr_fields w = [(8, ucast (hw_cr_mask w)), (4, ucast (hw_cr_data w)), flag1 (hw_cr_enable w)]"

definition reg_fields :: "write_log \<Rightarrow> fields" where
  "reg_fields w = [(6, ucast (hw_reg w)), flag1 False, flag1 (hw_enable w), (64, hw_data w)]"

definition log_data :: "u64 \<Rightarrow> icache_log \<Rightarrow> decode_log \<Rightarrow> execute_log \<Rightarrow> loadstore_log \<Rightarrow> dcache_log \<Rightarrow> write_log \<Rightarrow> 256 word" where
  "log_data nia i d x s c w = pack (fetch1_fields nia @ icache_fields i @ decode1_fields d @ decode2_fields d @ execute1_fields x @
     [(4, 0)] @ loadstore1_fields s @ [(1, 0)] @ dcache_fields c @ cr_fields w @ reg_fields w)"

section \<open>Fields of an entry\<close>

fun field_bit :: "fields \<Rightarrow> nat \<Rightarrow> bool" where
  "field_bit [] n = False"
| "field_bit ((k, v) # xs) n = (if n < k then bit v n else field_bit xs (n - k))"

lemma bit_pack: "bit (pack fs) n \<longleftrightarrow> n < 256 \<and> field_bit fs n"
proof (induction fs arbitrary: n)
  case (Cons x fs)
  obtain k v where "x = (k, v)" by (cases x)
  then show ?case by (auto simp: bit_simps Cons.IH dest: bit_imp_le_length)
qed simp

declare pack.simps [simp del]

text \<open>The fields from a bit on, if a field starts there.\<close>

fun at_off :: "fields \<Rightarrow> nat \<Rightarrow> fields" where
  "at_off [] n = []"
| "at_off (x # xs) n = (if n = 0 then x # xs else if fst x \<le> n then at_off xs (n - fst x) else [])"

lemma field_bit_at: "at_off fs m \<noteq> [] \<Longrightarrow> field_bit fs (m + n) = field_bit (at_off fs m) n"
proof (induction fs m rule: at_off.induct)
  case (2 x xs m)
  then show ?case by (cases x) (auto split: if_splits)
qed simp

lemma upt_0_4: "[0..<4] = [0, 1, 2, 3]"
  by (simp add: upt_rec)

lemma length_entry_bytes: "length (entry_bytes e) = 32"
  unfolding entry_bytes_def upt_0_4 by simp

lemma log_of_entry:
  "log_of (entry_bytes e) = \<lparr>le0 = select_dword e 0, le1 = select_dword e 1, le2 = select_dword e 2, reg_wr_data = select_dword e 3\<rparr>"
proof -
  define a b c d where "a = nat_le 8 (unat (select_dword e 0))" and "b = nat_le 8 (unat (select_dword e 1))"
    and "c = nat_le 8 (unat (select_dword e 2))" and "d = nat_le 8 (unat (select_dword e 3))"
  have e: "entry_bytes e = a @ b @ c @ d" unfolding entry_bytes_def upt_0_4 a_def b_def c_def d_def by simp
  have l: "length a = 8" "length b = 8" "length c = 8" "length d = 8" by (simp_all add: a_def b_def c_def d_def)
  have "(of_nat (le_nat (nat_le 8 (unat x))) :: u64) = x" for x :: u64
    using unsigned_less [of x, where ?'a = nat] by simp
  then show ?thesis by (simp add: log_of_def dword_at_def e l) (simp add: a_def b_def c_def d_def)
qed

lemma bit_bf_entry:
  assumes "off + len \<le> 64" "k < 4"
  shows "bit (bf (select_dword (pack fs) k) off len) n \<longleftrightarrow> n < len \<and> field_bit fs (64 * k + off + n)"
  using assms by (auto simp: bf_def select_dword_def bit_simps bit_pack add.assoc)

lemma field_eqI:
  assumes "off + len \<le> 64" "k < 4" "at_off fs (64 * k + off) \<noteq> []" "\<And>n. n < len \<Longrightarrow> field_bit (at_off fs (64 * k + off)) n = bit v n"
  shows "bf (select_dword (pack fs) k) off len = take_bit len v"
  by (rule bit_word_eqI) (use assms(1,2,4) in \<open>auto simp: bit_bf_entry field_bit_at [OF assms(3)] bit_take_bit_iff\<close>)

lemma field_eq:
  assumes "off + len \<le> 64" "k < 4" "at_off fs (64 * k + off) \<noteq> []" "fst (hd (at_off fs (64 * k + off))) = len"
  shows "bf (select_dword (pack fs) k) off len = take_bit len (snd (hd (at_off fs (64 * k + off))))"
  by (rule field_eqI [OF assms(1-3)]) (use assms(3,4) in \<open>cases "at_off fs (64 * k + off)"; auto\<close>)

lemma field_eq_flags:
  assumes "off + 3 \<le> 64" "k < 4" "at_off fs (64 * k + off) = flag1 a # flag1 b # flag1 c # xs"
  shows "bf (select_dword (pack fs) k) off 3 = of_bool a OR push_bit 1 (of_bool b) OR push_bit 2 (of_bool c)"
proof -
  let ?v = "of_bool a OR push_bit 1 (of_bool b) OR push_bit 2 (of_bool c) :: u64"
  have "field_bit (at_off fs (64 * k + off)) n = bit ?v n" if "n < 3" for n
    using that by (auto simp: assms(3) numeral_3_eq_3 less_Suc_eq bit_simps)
  with assms have "bf (select_dword (pack fs) k) off 3 = take_bit 3 ?v" by (intro field_eqI) simp_all
  also have "take_bit 3 ?v = ?v" by (rule bit_word_eqI) (auto simp: bit_simps)
  finally show ?thesis .
qed

lemma take_bit_ucast_eq: "LENGTH('a) \<le> n \<Longrightarrow> take_bit n (ucast (w :: 'a::len word) :: u64) = ucast w"
  by (rule bit_word_eqI) (auto simp: bit_simps dest: bit_imp_le_length)

lemmas fields_defs = fetch1_fields_def icache_fields_def decode1_fields_def decode2_fields_def execute1_fields_def
  loadstore1_fields_def dcache_fields_def cr_fields_def reg_fields_def

definition core_entry :: "u64 \<Rightarrow> icache_log \<Rightarrow> decode_log \<Rightarrow> execute_log \<Rightarrow> loadstore_log \<Rightarrow> dcache_log \<Rightarrow> write_log \<Rightarrow> log_entry" where
  "core_entry nia i d x s c w = log_of (entry_bytes (log_data nia i d x s c w))"

lemma entry_icache:
  "nia_lo (core_entry nia i d x s c w) = take_bit 42 (drop_bit 2 nia)" "nia_hi (core_entry nia i d x s c w) = of_bool (bit nia 63)"
  "ic_ra_valid (core_entry nia i d x s c w) = 1" "ic_access_ok (core_entry nia i d x s c w) = 1"
  "ic_is_miss (core_entry nia i d x s c w) = of_bool (ih_is_miss i)" "ic_is_hit (core_entry nia i d x s c w) = of_bool (ih_is_hit i)"
  "ic_way (core_entry nia i d x s c w) = ucast (ih_lway i)" "ic_state (core_entry nia i d x s c w) = of_bool (ih_wstate i)"
  "ic_part_nia (core_entry nia i d x s c w) = ucast (ih_hit_nia i)"
  "ic_fetch_failed (core_entry nia i d x s c w) = of_bool (ih_fetch_failed i)"
  "ic_stall_out (core_entry nia i d x s c w) = of_bool (ih_stall_out i)"
  "ic_wb_stall (core_entry nia i d x s c w) = of_bool (ih_wb_stall i)" "ic_wb_cyc (core_entry nia i d x s c w) = of_bool (ih_cyc i)"
  "ic_wb_stb (core_entry nia i d x s c w) = of_bool (ih_stb i)" "ic_wb_adr (core_entry nia i d x s c w) = ucast (ih_adr i)"
  "ic_wb_ack (core_entry nia i d x s c w) = of_bool (ih_ack i)" "ic_insn (core_entry nia i d x s c w) = ucast (ih_insn i)"
  "ic_valid (core_entry nia i d x s c w) = of_bool (ih_valid i)"
  unfolding core_entry_def log_of_entry log_data_def
  by (simp_all add: nia_lo_def nia_hi_def ic_ra_valid_def ic_access_ok_def ic_is_miss_def ic_is_hit_def ic_way_def ic_state_def ic_part_nia_def
    ic_fetch_failed_def ic_stall_out_def ic_wb_stall_def ic_wb_cyc_def ic_wb_stb_def ic_wb_adr_def ic_wb_ack_def ic_insn_def ic_valid_def field_eq fields_defs take_bit_ucast_eq)

lemma entry_decode:
  "d1_valid (core_entry nia i d x s c w) = of_bool (h1_valid d)" "d1_unit (core_entry nia i d x s c w) = ucast (h1_unit d)"
  "d1_part_nia (core_entry nia i d x s c w) = ucast (h1_nia d)" "d1_insn_type (core_entry nia i d x s c w) = ucast (h1_insn_type d)"
  "d2_bypass_a (core_entry nia i d x s c w) = of_bool (h2_c_bypass d)" "d2_bypass_b (core_entry nia i d x s c w) = of_bool (h2_b_bypass d)"
  "d2_bypass_c (core_entry nia i d x s c w) = of_bool (h2_a_bypass d)"
  "d2_stall_out (core_entry nia i d x s c w) = of_bool (h2_stall_out d)"
  "d2_stopped_out (core_entry nia i d x s c w) = of_bool (h2_stopped_out d)" "d2_valid (core_entry nia i d x s c w) = of_bool (h2_valid d)"
  "d2_part_nia (core_entry nia i d x s c w) = ucast (h2_nia d)"
  unfolding core_entry_def log_of_entry log_data_def
  by (simp_all add: d1_valid_def d1_unit_def d1_part_nia_def d1_insn_type_def d2_bypass_a_def d2_bypass_b_def d2_bypass_c_def d2_stall_out_def
    d2_stopped_out_def d2_valid_def d2_part_nia_def field_eq fields_defs take_bit_ucast_eq)

lemma entry_execute:
  "e1_flush_out (core_entry nia i d x s c w) = of_bool (hx_flush_in x)" "e1_stall_out (core_entry nia i d x s c w) = of_bool (hx_busy x)"
  "e1_redirect (core_entry nia i d x s c w) = of_bool (hx_redirect x)" "e1_valid (core_entry nia i d x s c w) = of_bool (hx_valid x)"
  "e1_write_enable (core_entry nia i d x s c w) = of_bool (hx_write_enable x)"
  "e1_irq_state (core_entry nia i d x s c w) = of_bool (hx_intr x)" "e1_irq (core_entry nia i d x s c w) = of_bool (hx_irq_valid x)"
  "e1_exception (core_entry nia i d x s c w) = of_bool (hx_exception x)" "e1_msr_dr (core_entry nia i d x s c w) = of_bool (hx_msr_dr x)"
  "e1_msr_ir (core_entry nia i d x s c w) = of_bool (hx_msr_ir x)" "e1_msr_pr (core_entry nia i d x s c w) = of_bool (hx_msr_pr x)"
  "e1_msr_ee (core_entry nia i d x s c w) = of_bool (hx_msr_ee x)"
  unfolding core_entry_def log_of_entry log_data_def
  by (simp_all add: e1_flush_out_def e1_stall_out_def e1_redirect_def e1_valid_def e1_write_enable_def e1_irq_state_def e1_irq_def e1_exception_def
    e1_msr_dr_def e1_msr_ir_def e1_msr_pr_def e1_msr_ee_def field_eq fields_defs take_bit_ucast_eq)

lemma entry_loadstore:
  "ls_dw_done (core_entry nia i d x s c w) = of_bool (hl_dword_index s)"
  "ls_min_done (core_entry nia i d x s c w) = of_bool (hl_m_in_done s)"
  "ls_do_valid (core_entry nia i d x s c w) = of_bool (hl_d_out_valid s)"
  "ls_mo_valid (core_entry nia i d x s c w) = of_bool (hl_m_out_valid s)" "ls_lo_valid (core_entry nia i d x s c w) = of_bool (hl_valid s)"
  "ls_eo_except (core_entry nia i d x s c w) = of_bool (hl_interrupt s)" "ls_stall_out (core_entry nia i d x s c w) = of_bool (hl_busy s)"
  unfolding core_entry_def log_of_entry log_data_def
  by (simp_all add: ls_dw_done_def ls_min_done_def ls_do_valid_def ls_mo_valid_def ls_lo_valid_def ls_eo_except_def ls_stall_out_def field_eq fields_defs take_bit_ucast_eq)

lemma entry_dcache:
  "dc_state (core_entry nia i d x s c w) = ucast (hd_state c)" "dc_ra_valid (core_entry nia i d x s c w) = of_bool (hd_valid_ra c)"
  "dc_tlb_way (core_entry nia i d x s c w) = ucast (hd_tlb_hit_way c)"
  "dc_stall_out (core_entry nia i d x s c w) = of_bool (hd_stall_out c)" "dc_do_valid (core_entry nia i d x s c w) = of_bool (hd_valid c)"
  "dc_do_error (core_entry nia i d x s c w) = of_bool (hd_error c)" "dc_wb_cyc (core_entry nia i d x s c w) = of_bool (hd_cyc c)"
  "dc_wb_stb (core_entry nia i d x s c w) = of_bool (hd_stb c)" "dc_wb_ack (core_entry nia i d x s c w) = of_bool (hd_ack c)"
  "dc_wb_stall (core_entry nia i d x s c w) = of_bool (hd_wb_stall c)" "dc_wb_adr (core_entry nia i d x s c w) = ucast (hd_adr c)"
  unfolding core_entry_def log_of_entry log_data_def
  by (simp_all add: dc_state_def dc_ra_valid_def dc_tlb_way_def dc_stall_out_def dc_do_valid_def dc_do_error_def dc_wb_cyc_def dc_wb_stb_def dc_wb_ack_def
    dc_wb_stall_def dc_wb_adr_def field_eq fields_defs take_bit_ucast_eq)

lemma entry_write:
  "cr_wr_mask (core_entry nia i d x s c w) = ucast (hw_cr_mask w)" "cr_wr_data (core_entry nia i d x s c w) = ucast (hw_cr_data w)"
  "cr_wr_enable (core_entry nia i d x s c w) = of_bool (hw_cr_enable w)"
  "reg_wr_enable (core_entry nia i d x s c w) = of_bool (hw_enable w)"
  unfolding core_entry_def log_of_entry log_data_def
  by (simp_all add: cr_wr_mask_def cr_wr_data_def cr_wr_enable_def reg_wr_enable_def field_eq fields_defs take_bit_ucast_eq)

lemma entry_flags:
  "ls_state (core_entry nia i d x s c w) = of_bool (hl_state s) OR push_bit 1 (of_bool (hl_wait_dc s)) OR push_bit 2 (of_bool (hl_req_valid s))"
  "dc_op (core_entry nia i d x s c w) = of_bool (hd_hit_reload c) OR push_bit 1 (of_bool (hd_store c)) OR push_bit 2 (of_bool (hd_load_miss c))"
  unfolding core_entry_def log_of_entry log_data_def ls_state_def dc_op_def log_entry.simps
  by (rule field_eq_flags; simp add: fields_defs)+

lemma entry_reg:
  "reg_wr_reg (core_entry nia i d x s c w) = ucast (hw_reg w)" "reg_wr_data (core_entry nia i d x s c w) = hw_data w"
proof -
  define fs where "fs = fetch1_fields nia @ icache_fields i @ decode1_fields d @ decode2_fields d @ execute1_fields x @
    [(4, 0)] @ loadstore1_fields s @ [(1, 0)] @ dcache_fields c @ cr_fields w @ reg_fields w"
  have at: "at_off fs 184 = [(6, ucast (hw_reg w)), flag1 False, flag1 (hw_enable w), (64, hw_data w)]" "at_off fs 192 = [(64, hw_data w)]"
    by (simp_all add: fs_def fields_defs)
  have e: "core_entry nia i d x s c w = log_of (entry_bytes (pack fs))" by (simp add: core_entry_def log_data_def fs_def)
  have "field_bit (at_off fs 184) n = bit (ucast (hw_reg w) :: u64) n" if "n < 7" for n
  proof (cases "n < 6")
    case False
    then have "n = 6" using that by simp
    moreover have "\<not> bit (hw_reg w) 6" by (auto dest: bit_imp_le_length)
    ultimately show ?thesis by (simp add: at bit_ucast_iff)
  qed (simp add: at)
  then have "bf (select_dword (pack fs) 2) 56 7 = take_bit 7 (ucast (hw_reg w))" by (intro field_eqI) (simp_all add: at)
  then show "reg_wr_reg (core_entry nia i d x s c w) = ucast (hw_reg w)"
    by (simp add: e log_of_entry reg_wr_reg_def take_bit_ucast_eq)
  have "bf (select_dword (pack fs) 3) 0 64 = take_bit 64 (hw_data w)" by (simp add: field_eq at)
  then show "reg_wr_data (core_entry nia i d x s c w) = hw_data w"
    by (simp add: e log_of_entry bf_def take_bit_word_eq_self)
qed

lemmas entry_fields = entry_icache entry_decode entry_execute entry_loadstore entry_dcache entry_write entry_flags entry_reg

text \<open>
  C23. The formatter and the core agree on the layout of an entry: each bit-field of the structure, read from the bytes that the debugger writes for the entry,
  is the signal that the core put there, all 256 bits of it. The one exception is that the fields for the bypass of the operands
  a and c hold each other's signal.
\<close>

theorem log_fields:
  "let l = core_entry nia i d x s c w in
    nia_lo l = take_bit 42 (drop_bit 2 nia) \<and> nia_hi l = of_bool (bit nia 63) \<and> ic_ra_valid l = 1 \<and> ic_access_ok l = 1 \<and>
    ic_is_miss l = of_bool (ih_is_miss i) \<and> ic_is_hit l = of_bool (ih_is_hit i) \<and> ic_way l = ucast (ih_lway i) \<and>
    ic_state l = of_bool (ih_wstate i) \<and> ic_part_nia l = ucast (ih_hit_nia i) \<and> ic_fetch_failed l = of_bool (ih_fetch_failed i) \<and>
    ic_stall_out l = of_bool (ih_stall_out i) \<and> ic_wb_stall l = of_bool (ih_wb_stall i) \<and> ic_wb_cyc l = of_bool (ih_cyc i) \<and>
    ic_wb_stb l = of_bool (ih_stb i) \<and> ic_wb_adr l = ucast (ih_adr i) \<and> ic_wb_ack l = of_bool (ih_ack i) \<and>
    ic_insn l = ucast (ih_insn i) \<and> ic_valid l = of_bool (ih_valid i) \<and> d1_valid l = of_bool (h1_valid d) \<and>
    d1_unit l = ucast (h1_unit d) \<and> d1_part_nia l = ucast (h1_nia d) \<and> d1_insn_type l = ucast (h1_insn_type d) \<and>
    d2_bypass_a l = of_bool (h2_c_bypass d) \<and> d2_bypass_b l = of_bool (h2_b_bypass d) \<and> d2_bypass_c l = of_bool (h2_a_bypass d) \<and>
    d2_stall_out l = of_bool (h2_stall_out d) \<and> d2_stopped_out l = of_bool (h2_stopped_out d) \<and> d2_valid l = of_bool (h2_valid d) \<and>
    d2_part_nia l = ucast (h2_nia d) \<and> e1_flush_out l = of_bool (hx_flush_in x) \<and> e1_stall_out l = of_bool (hx_busy x) \<and>
    e1_redirect l = of_bool (hx_redirect x) \<and> e1_valid l = of_bool (hx_valid x) \<and> e1_write_enable l = of_bool (hx_write_enable x) \<and>
    e1_irq_state l = of_bool (hx_intr x) \<and> e1_irq l = of_bool (hx_irq_valid x) \<and> e1_exception l = of_bool (hx_exception x) \<and>
    e1_msr_dr l = of_bool (hx_msr_dr x) \<and> e1_msr_ir l = of_bool (hx_msr_ir x) \<and> e1_msr_pr l = of_bool (hx_msr_pr x) \<and>
    e1_msr_ee l = of_bool (hx_msr_ee x) \<and>
    ls_state l = of_bool (hl_state s) OR push_bit 1 (of_bool (hl_wait_dc s)) OR push_bit 2 (of_bool (hl_req_valid s)) \<and>
    ls_dw_done l = of_bool (hl_dword_index s) \<and> ls_min_done l = of_bool (hl_m_in_done s) \<and> ls_do_valid l = of_bool (hl_d_out_valid s) \<and>
    ls_mo_valid l = of_bool (hl_m_out_valid s) \<and> ls_lo_valid l = of_bool (hl_valid s) \<and> ls_eo_except l = of_bool (hl_interrupt s) \<and>
    ls_stall_out l = of_bool (hl_busy s) \<and> dc_state l = ucast (hd_state c) \<and> dc_ra_valid l = of_bool (hd_valid_ra c) \<and>
    dc_tlb_way l = ucast (hd_tlb_hit_way c) \<and> dc_stall_out l = of_bool (hd_stall_out c) \<and>
    dc_op l = of_bool (hd_hit_reload c) OR push_bit 1 (of_bool (hd_store c)) OR push_bit 2 (of_bool (hd_load_miss c)) \<and>
    dc_do_valid l = of_bool (hd_valid c) \<and> dc_do_error l = of_bool (hd_error c) \<and> dc_wb_cyc l = of_bool (hd_cyc c) \<and>
    dc_wb_stb l = of_bool (hd_stb c) \<and> dc_wb_ack l = of_bool (hd_ack c) \<and> dc_wb_stall l = of_bool (hd_wb_stall c) \<and>
    dc_wb_adr l = ucast (hd_adr c) \<and> cr_wr_mask l = ucast (hw_cr_mask w) \<and> cr_wr_data l = ucast (hw_cr_data w) \<and>
    cr_wr_enable l = of_bool (hw_cr_enable w) \<and> reg_wr_reg l = ucast (hw_reg w) \<and> reg_wr_enable l = of_bool (hw_enable w) \<and>
    reg_wr_data l = hw_data w"
  unfolding Let_def by (intro conjI entry_fields)

section \<open>What the report shows wrongly\<close>

text \<open>An instruction that takes only its third operand from a bypass is shown as taking the first one from there.\<close>

theorem bypass_swapped:
  assumes "h2_c_bypass d" "\<not> h2_a_bypass d"
  shows "FLAG (d2_bypass_a (core_entry nia i d x s c w)) ''a'' = cbytes ''a'' \<and> FLAG (d2_bypass_c (core_entry nia i d x s c w)) ''c'' = cbytes '' ''"
  using assms by (simp add: entry_fields FLAG_def)

text \<open>A write of the first floating point register, which has the number 32, is shown as a write of the link register.\<close>

theorem fpr_shown_as_lr:
  assumes "hw_enable w" "hw_reg w = 32"
  shows "take 3 (text_reg (core_entry nia i d x s c w)) = cbytes ''lr ''"
  using assms by (simp add: text_reg_def entry_fields spr_names_def cbytes_def)

section \<open>From the core to the report\<close>

text \<open>
  C2. Through the socket, dumping the log writes a file with the most recent entries, as many as the log holds, from the oldest to the newest,
  and formatting the file reports exactly these: for a log that was stopped after it had recorded \<open>es\<close>, they are the end of the earlier entries followed by \<open>es\<close>.
\<close>

theorem log_dump_report:
  assumes "sim_idle h (t_be t)" "log_ok c0" "log_wr_enable c0"
    "has_core h (t_core t) ((fold log_tick es c0)\<lparr>cd_log_addr := a\<rparr>)" "bit a 31" "t_writable t f" "8 \<le> nia_bits env"
  shows "let recent = drop (length es) (log_history c0 @ es); bs = concat (map entry_bytes recent) in
    (\<exists>t1. log_dump (sim_command sim_net) f t = ret t1 \<and> t_files t1 f = Some bs) \<and>
    fmt_log_main env prog [cbytes f] (\<lambda>_. Inr bs) stdin = (0, report env (map (\<lambda>e. log_of (entry_bytes e)) recent), [])"
proof -
  define recent where "recent = drop (length es) (log_history c0 @ es)"
  let ?s = "fmt_loop env (concat (map entry_bytes recent) @ []) (fmt_init env)"
  have "fmt_out ?s @ fmt_summary env ?s = report env (map log_of (map entry_bytes recent))"
    by (rule fmt_loop_report [OF assms(7)]) (auto simp: length_entry_bytes)
  then have "fmt_log_main env prog [cbytes f] (\<lambda>_. Inr (concat (map entry_bytes recent))) stdin =
      (0, report env (map (\<lambda>e. log_of (entry_bytes e)) recent), [])"
    by (simp add: fmt_log_main_def Let_def o_def)
  then show ?thesis using log_dump_file [OF assms(1-6)] unfolding Let_def recent_def by blast
qed

theorem log_dump_report_witness:
  "let recent = drop (length [1 :: 256 word]) (log_history (core0\<lparr>cd_log := [9, 2], cd_wrptr := 0, cd_log_addr := 0\<rparr>) @ [1]);
       bs = concat (map entry_bytes recent) in
    (\<exists>t1. log_dump (sim_command sim_net) ''log'' (tool0 sim0) = ret t1 \<and> t_files t1 ''log'' = Some bs) \<and>
    fmt_log_main env0 [] [cbytes ''log''] (\<lambda>_. Inr bs) [] = (0, report env0 (map (\<lambda>e. log_of (entry_bytes e)) recent), [])"
proof (rule log_dump_report [where h = hw0 and a = "0x80000000"])
  show "has_core hw0 (t_core (tool0 sim0)) ((fold log_tick [1] (core0\<lparr>cd_log := [9, 2], cd_wrptr := 0, cd_log_addr := 0\<rparr>))\<lparr>cd_log_addr := 0x80000000\<rparr>)"
    by (simp add: has_core_def hw0_def core0_def log_tick_def log_wr_enable_def)
qed (simp_all add: log_ok_def log_wr_enable_def core0_def env0_def)

end
