(* ===== verification/Debug_Jtag.thy ===== *)
theory Debug_Jtag
  imports Debug_Tool
begin

text \<open>
  The debugger on a JTAG cable. What the code relies on of the UrJTAG library, and of the part
  at the end of the cable, is the predicate \<open>urj_ok\<close>: fields of the input register can be
  set and fields of the output register read, and shifting the data registers exchanges the
  input register with the transport module. With it the cable keeps the contract of a backend.
\<close>

section \<open>The library\<close>

text \<open>
  The view of the library's state: the input and the output register of the selected
  instruction and the transport module, as long as a part with its instruction and register is
  selected (\<open>jv_ready\<close>).
\<close>

record 'j jview =
  jv_ready :: "'j \<Rightarrow> bool"
  jv_in :: "'j \<Rightarrow> 74 word"
  jv_out :: "'j \<Rightarrow> 74 word"
  jv_dtm :: "'j \<Rightarrow> dtm"

definition field_set :: "'j urj \<Rightarrow> 'j jview \<Rightarrow> bool" where
  "field_set u w \<longleftrightarrow> (\<forall>v msb lsb j. jv_ready w j \<longrightarrow> lsb \<le> msb \<longrightarrow> msb < 74 \<longrightarrow> msb - lsb < 64 \<longrightarrow>
     (\<exists>j'. urj_tap_register_set_value_bit_range u v msb lsb j = (0, j') \<and> jv_ready w j' \<and> jv_dtm w j' = jv_dtm w j \<and>
       (\<forall>k. bit (jv_in w j') k = (if lsb \<le> k \<and> k \<le> msb then bit v (k - lsb) else bit (jv_in w j) k))))"

definition field_get :: "'j urj \<Rightarrow> 'j jview \<Rightarrow> bool" where
  "field_get u w \<longleftrightarrow> (\<forall>msb lsb j k. jv_ready w j \<longrightarrow> lsb \<le> msb \<longrightarrow> msb < 74 \<longrightarrow> msb - lsb < 64 \<longrightarrow>
     bit (urj_tap_register_get_value_bit_range u msb lsb j) k = (k \<le> msb - lsb \<and> bit (jv_out w j) (lsb + k)))"

definition shift_ok :: "'j urj \<Rightarrow> 'j jview \<Rightarrow> bool" where
  "shift_ok u w \<longleftrightarrow> (\<forall>j. jv_ready w j \<longrightarrow>
     (\<exists>j'. urj_tap_chain_shift_data_registers u j = (0, j') \<and> jv_ready w j' \<and>
       (jv_out w j', jv_dtm w j') = dtm_exchange (jv_in w j) (jv_dtm w j)))"

definition urj_ok :: "'j urj \<Rightarrow> 'j jview \<Rightarrow> bool" where
  "urj_ok u w \<longleftrightarrow> (\<forall>j. jv_ready w j \<longrightarrow> urj_tap_chain_active_part u j \<and> urj_active_instruction u j \<and> urj_data_register u j) \<and>
     field_set u w \<and> field_get u w \<and> shift_ok u w"

section \<open>One exchange\<close>

lemma field_setD:
  assumes "field_set u w" "jv_ready w j" "lsb \<le> msb" "msb < 74" "msb - lsb < 64"
  obtains j' where "urj_tap_register_set_value_bit_range u v msb lsb j = (0, j')" "jv_ready w j'" "jv_dtm w j' = jv_dtm w j"
    "\<And>k. bit (jv_in w j') k = (if lsb \<le> k \<and> k \<le> msb then bit v (k - lsb) else bit (jv_in w j) k)"
  using assms unfolding field_set_def by blast

lemma sint_status: "sint (ucast (dmi_status rsp) :: u32) = uint (dmi_status rsp)"
proof -
  have "dmi_status rsp < 4"
    using take_bit_nat_less_exp [of 2 "unat (ucast rsp :: u64)"] by (simp add: dmi_status_def word_less_nat_alt unsigned_take_bit_eq)
  then have "uint (dmi_status rsp) < 4" by (simp add: word_less_def)
  moreover have "0 \<le> uint (dmi_status rsp)" by simp
  ultimately have "uint (ucast (dmi_status rsp) :: u32) = uint (dmi_status rsp)"
    by (simp add: unsigned_ucast_eq take_bit_int_eq_self)
  moreover have "signed_take_bit 31 (uint (dmi_status rsp)) = uint (dmi_status rsp)"
  proof (rule signed_take_bit_int_eq_self)
    show "- (2 ^ 31) \<le> uint (dmi_status rsp)" by (rule order_trans [OF _ \<open>0 \<le> uint (dmi_status rsp)\<close>]) simp
    show "uint (dmi_status rsp) < 2 ^ 31" by (rule less_trans [OF \<open>uint (dmi_status rsp) < 4\<close>]) simp
  qed
  moreover have "sint (ucast (dmi_status rsp) :: u32) = signed_take_bit 31 (uint (ucast (dmi_status rsp) :: u32))" unfolding sint_uint by simp
  ultimately show ?thesis by (simp only:)
qed

lemma jtag_exchange:
  fixes op a :: u8 and data :: "u64 option"
  assumes "urj_ok u w" "jv_ready w j"
  defines "x \<equiv> dtm_exchange (dmi_req op (case data of None \<Rightarrow> 0 | Some v \<Rightarrow> v) a) (jv_dtm w j)"
  shows "\<exists>j'. jtag_command u op a data j = Some ((uint (dmi_status (fst x)), map_option (\<lambda>_. dmi_data (fst x)) data), j') \<and>
    jv_ready w j' \<and> jv_dtm w j' = snd x"
proof -
  let ?d = "case data of None \<Rightarrow> 0 | Some v \<Rightarrow> v"
  have u: "field_set u w" "field_get u w" "shift_ok u w"
    and ready: "\<And>j. jv_ready w j \<Longrightarrow> urj_tap_chain_active_part u j \<and> urj_active_instruction u j \<and> urj_data_register u j"
    using assms(1) by (auto simp: urj_ok_def)
  from field_setD [OF u(1) assms(2), of 0 1 "ucast op"] obtain j1 where
    1: "urj_tap_register_set_value_bit_range u (ucast op) 1 0 j = (0, j1)" "jv_ready w j1" "jv_dtm w j1 = jv_dtm w j"
      "\<And>k. bit (jv_in w j1) k = (if 0 \<le> k \<and> k \<le> 1 then bit (ucast op :: u64) (k - 0) else bit (jv_in w j) k)" by auto
  from field_setD [OF u(1) 1(2), of 2 65 ?d] obtain j2 where
    2: "urj_tap_register_set_value_bit_range u ?d 65 2 j1 = (0, j2)" "jv_ready w j2" "jv_dtm w j2 = jv_dtm w j"
      "\<And>k. bit (jv_in w j2) k = (if 2 \<le> k \<and> k \<le> 65 then bit ?d (k - 2) else bit (jv_in w j1) k)" using 1(3) by auto
  from field_setD [OF u(1) 2(2), of 66 73 "ucast a"] obtain j3 where
    3: "urj_tap_register_set_value_bit_range u (ucast a) 73 66 j2 = (0, j3)" "jv_ready w j3" "jv_dtm w j3 = jv_dtm w j"
      "\<And>k. bit (jv_in w j3) k = (if 66 \<le> k \<and> k \<le> 73 then bit (ucast a :: u64) (k - 66) else bit (jv_in w j2) k)" using 2(3) by auto
  have "jv_in w j3 = dmi_req op ?d a"
    by (rule bit_word_eqI) (auto simp: 1(4) 2(4) 3(4) bit_dmi_req bit_simps)
  with u(3) 3(2,3) obtain j4 where
    4: "urj_tap_chain_shift_data_registers u j3 = (0, j4)" "jv_ready w j4" "jv_out w j4 = fst x" "jv_dtm w j4 = snd x"
    unfolding shift_ok_def x_def by (metis fst_conv snd_conv)
  have "urj_tap_register_get_value_bit_range u 1 0 j4 = dmi_status (fst x)"
    using u(2) 4(2,3) by (intro bit_word_eqI) (auto simp: field_get_def dmi_status_def bit_simps)
  moreover have "urj_tap_register_get_value_bit_range u 65 2 j4 = dmi_data (fst x)"
    using u(2) 4(2,3) by (intro bit_word_eqI) (auto simp: field_get_def dmi_data_def bit_simps add.commute)
  ultimately show ?thesis
    using ready [OF assms(2)] 1(1) 2(1) 3(1) 4 by (simp add: jtag_command_def sint_status)
qed

section \<open>Sessions\<close>

definition jtag_idle :: "'j jview \<Rightarrow> dbg_hw \<Rightarrow> 'j \<Rightarrow> bool" where
  "jtag_idle w h j \<longleftrightarrow> jv_ready w j \<and> dtm_idle h (jv_dtm w j)"

definition jtag_pend :: "'j jview \<Rightarrow> nat \<Rightarrow> u64 \<Rightarrow> dbg_hw \<Rightarrow> 'j \<Rightarrow> bool" where
  "jtag_pend w n x h j \<longleftrightarrow> jv_ready w j \<and> dtm_pend n x h (jv_dtm w j)"

lemma jtag_link:
  assumes "urj_ok u w"
  shows "dmi_link (jtag_command u) dmi_rd dmi_wr (jtag_idle w) (jtag_pend w)"
proof
  fix h b a d
  assume "jtag_idle w h b"
  then show "\<exists>v n b'. jtag_command u 1 a (Some d) b = Some ((0, Some v), b') \<and> jtag_pend w n (fst (dmi_rd a h)) (snd (dmi_rd a h)) b'"
    using jtag_exchange [OF assms, where j = b and op = 1 and data = "Some d" and a = a] exchange_read [of h "jv_dtm w b" d a]
    by (fastforce simp: jtag_idle_def jtag_pend_def)
next
  fix h b d and a :: u8
  assume "jtag_idle w h b" "a \<noteq> 0xff"
  then show "\<exists>v n x b'. jtag_command u 2 a (Some d) b = Some ((0, Some v), b') \<and> jtag_pend w n x (dmi_wr a d h) b'"
    using jtag_exchange [OF assms, where j = b and op = 2 and data = "Some d" and a = a] exchange_write [of h "jv_dtm w b" a d]
    by (fastforce simp: jtag_idle_def jtag_pend_def)
next
  fix n x h b and data :: "u64 option"
  assume "jtag_pend w (Suc n) x h b"
  then show "\<exists>v b'. jtag_command u 0 0 data b = Some ((3, map_option (\<lambda>_. v) data), b') \<and> jtag_pend w n x h b'"
    using jtag_exchange [OF assms, where j = b and op = 0 and data = data and a = 0] exchange_busy [of n x h "jv_dtm w b" "case data of None \<Rightarrow> 0 | Some v \<Rightarrow> v" 0]
    by (fastforce simp: jtag_pend_def)
next
  fix x h b and data :: "u64 option"
  assume "jtag_pend w 0 x h b"
  then show "\<exists>b'. jtag_command u 0 0 data b = Some ((0, map_option (\<lambda>_. x) data), b') \<and> jtag_idle w h b'"
    using jtag_exchange [OF assms, where j = b and op = 0 and data = data and a = 0] exchange_done [of x h "jv_dtm w b" "case data of None \<Rightarrow> 0 | Some v \<Rightarrow> v" 0]
    by (fastforce simp: jtag_pend_def jtag_idle_def)
qed

lemma rsim_join: "rsim A m i \<Longrightarrow> rsim B m' i \<Longrightarrow> (\<And>x y z. A x z \<Longrightarrow> B y z \<Longrightarrow> R x y) \<Longrightarrow> rsim R m m'"
  by (cases m; cases m'; cases i) (auto simp: rsim_def rel_sum.simps)


text \<open>A library whose state is just the two registers and the transport module.\<close>

definition urj_demo :: "(74 word \<times> 74 word \<times> dtm) urj" where
  "urj_demo = \<lparr>urj_tap_chain_alloc = (\<lambda>j. (True, j)), urj_tap_cable_usb_probe = (\<lambda>j. ((0, Some ''cable''), j)),
     urj_tap_chain_connect = (\<lambda>_ _ j. (0, j)), urj_tap_cable_set_frequency = (\<lambda>_ j. j), urj_tap_manual_add = (\<lambda>_ j. (0, j)),
     urj_parts_len = (\<lambda>_. 1), urj_part_parts_set_instruction = (\<lambda>_ j. j), urj_tap_chain_active_part = (\<lambda>_. True),
     urj_part_data_register_define = (\<lambda>_ _ j. (0, j)), urj_part_instruction_define = (\<lambda>_ _ _ j. (True, j)),
     urj_part_set_instruction = (\<lambda>_ j. j), urj_tap_chain_shift_instructions = (\<lambda>j. j),
     urj_tap_chain_shift_data_registers = (\<lambda>(i, out, d). case dtm_exchange i d of (out', d') \<Rightarrow> (0, (i, out', d'))),
     urj_active_instruction = (\<lambda>_. True), urj_data_register = (\<lambda>_. True), urj_tap_register_get_value = (\<lambda>(i, out, d). ucast out),
     urj_tap_register_set_value_bit_range = (\<lambda>v msb lsb (i, out, d).
       (0, (i AND NOT (push_bit lsb (mask (msb - lsb + 1))) OR push_bit lsb (ucast (take_bit (msb - lsb + 1) v)), out, d))),
     urj_tap_register_get_value_bit_range = (\<lambda>msb lsb (i, out, d). take_bit (msb - lsb + 1) (ucast (drop_bit lsb out)))\<rparr>"

definition view_demo :: "(74 word \<times> 74 word \<times> dtm) jview" where
  "view_demo = \<lparr>jv_ready = (\<lambda>_. True), jv_in = fst, jv_out = (\<lambda>j. fst (snd j)), jv_dtm = (\<lambda>j. snd (snd j))\<rparr>"

lemma urj_demo_ok: "urj_ok urj_demo view_demo"
proof -
  have len: "bit x k \<Longrightarrow> k < 74" for x :: "74 word" and k using bit_imp_le_length [of x k] by simp
  have "field_set urj_demo view_demo"
    unfolding field_set_def urj_demo_def view_demo_def by (auto simp: bit_simps) (blast dest: len)+
  moreover have "field_get urj_demo view_demo"
    by (auto simp: field_get_def urj_demo_def view_demo_def bit_simps)
  moreover have "shift_ok urj_demo view_demo"
    unfolding shift_ok_def by (auto simp: urj_demo_def view_demo_def split_beta)
  moreover have "urj_tap_chain_active_part urj_demo j \<and> urj_active_instruction urj_demo j \<and> urj_data_register urj_demo j" for j
    by (simp add: urj_demo_def)
  ultimately show ?thesis by (simp add: urj_ok_def)
qed


end
