(* ===== verification/Spec2Isabelle.thy ===== *)
theory Spec2Isabelle
  imports Boot_System Uart_Verilator Sim_Bram Sim_Litedram Fmt_Hw Debug_Core Debug_Jtag
begin

text \<open>
  Verification of the C and C++ code of Microwatt, a small OpenPOWER soft core: the firmware that
  runs on it, the models that run beside it in a simulation, and the tools on the host that debug it.

  \<^bold>\<open>The machine.\<close> \<^verbatim>\<open>C_Prelude\<close> has the C integer types as words, for the two targets of the code (LP64, little endian, unsigned
  8-bit \<open>char\<close>), and memory as a partial map from addresses to bytes. A function that touches memory returns an option:
  \<open>None\<close> is an access to memory that is not there, undefined behaviour, or a loop that does not end. Loops that may not end are
  \<open>partial_function (option)\<close>, so each theorem that gives \<open>Some\<close> also says that the loop ends. The simulation helpers and
  the tools can also call \<open>exit\<close>; their result type is \<open>sim\<close> of \<^verbatim>\<open>Sim_Vhpi\<close>. Output, files, sockets and
  devices are explicit state.

  \<^bold>\<open>The C library of the firmware\<close> (\<^verbatim>\<open>litedram/gen-src/sdram_init/libc/src\<close>).
  \<^verbatim>\<open>Libc_Mem\<close> models \<^verbatim>\<open>mem*.c\<close>, \<^verbatim>\<open>Libc_Str\<close> the character and string functions, \<^verbatim>\<open>Libc_Strto\<close> \<^verbatim>\<open>strtoul.c\<close> and \<^verbatim>\<open>strtol.c\<close>,
  \<^verbatim>\<open>Libc_Printf\<close> \<^verbatim>\<open>vsnprintf.c\<close>. The theorems give the result of each function and that it changes nothing else. \<^verbatim>\<open>Libc_Format\<close> has
  a datatype of formats and the text they stand for, and shows that \<open>vsnprintf\<close> writes this text, cut to the
  buffer, never outside of the buffer for formats without a width on \<open>%c\<close>, and that \<open>strtoul\<close> reads back what was printed.

  \<^bold>\<open>The console\<close> (\<^verbatim>\<open>lib/console.c\<close>, \<^verbatim>\<open>include/io.h\<close>, \<^verbatim>\<open>include/microwatt_soc.h\<close>).
  \<^verbatim>\<open>Soc\<close> has the register accessors over a bus, \<^verbatim>\<open>Soc_Devices\<close> the system controller and the two simulated UARTs, \<^verbatim>\<open>Sim_Console\<close> the host
  terminal under them (\<^verbatim>\<open>sim_console_c.c\<close>). \<^verbatim>\<open>Console\<close> is the driver. What it needs of a UART is the locale
  \<open>serial\<close>, what it gives to programs is \<open>char_sink\<close>; both UARTs are interpretations (\<open>potato\<close>, \<open>std\<close>). \<^verbatim>\<open>Hello_World\<close> is the program in
  \<^verbatim>\<open>hello_world.c\<close>: its banner and its echo, whose endless loop is given by its first \<open>n\<close> rounds, for every \<open>n\<close>.

  \<^bold>\<open>The boot firmware\<close> (\<^verbatim>\<open>litedram/gen-src/sdram_init/main.c\<close>). \<^verbatim>\<open>Elf64\<close> has the ELF structures and \<^verbatim>\<open>Boot\<close> every function of the program. \<^verbatim>\<open>Boot_Io\<close> proves what
  it prints over any machine that satisfies the locale \<open>boot_io\<close>, \<^verbatim>\<open>Boot_Elf\<close> that the segments of an image reach memory, and
  \<^verbatim>\<open>Boot_Main\<close> adds the start and the flash of a machine in the locale \<open>boot_machine\<close>. \<^verbatim>\<open>Spi_Flash\<close> models the registers of the flash controller over
  an arbitrary flash chip and interprets the locale (\<open>fsoc\<close>). \<^verbatim>\<open>Boot_System\<close> has the results: which of the three ways
  to boot is taken, what is loaded and where execution continues, for the potato UART and chips that need no mode switch.

  \<^bold>\<open>The simulation.\<close> \<^verbatim>\<open>Sim_Vhpi\<close> (\<^verbatim>\<open>sim_vhpi_c.c\<close>) converts vectors of the VHDL, \<^verbatim>\<open>Sim_Bram\<close> (\<^verbatim>\<open>sim_bram_helpers_c.c\<close>) is the block memory,
  \<^verbatim>\<open>Sim_Litedram\<close> (\<^verbatim>\<open>sim_litedram_c.cpp\<close>) drives the verilated DRAM controller, \<^verbatim>\<open>Sim_Jtag\<close> (\<^verbatim>\<open>sim_jtag_socket_c.c\<close>) is the socket of the debugger, and \<^verbatim>\<open>Uart_Verilator\<close>
  (\<^verbatim>\<open>verilator/\<close>) the serial line at the level of clocks and bits. The theorems are round trips between the two
  sides of each interface, for every timing the code accepts.

  \<^bold>\<open>The debugger\<close> (\<^verbatim>\<open>scripts/mw_debug/mw_debug.c\<close>). \<^verbatim>\<open>Mw_Sim\<close> and \<^verbatim>\<open>Mw_Jtag\<close> are its backends, \<^verbatim>\<open>Mw_Debug\<close> its commands, \<^verbatim>\<open>Mw_Main\<close> its command line. \<^verbatim>\<open>Debug_Hw\<close>
  is the debug hardware (\<^verbatim>\<open>core_debug.vhdl\<close>, \<^verbatim>\<open>wishbone_debug_master.vhdl\<close> and the transport modules), one register access at a time. The locale
  \<open>dmi_link\<close> of \<^verbatim>\<open>Dmi_Link\<close> is the contract of a backend: a request is accepted, then found busy finitely often, then complete. In it every
  session of the debugger is simulated by one over an ideal backend that answers at once. \<^verbatim>\<open>Debug_Link\<close> interprets it for the socket to a simulation
  (\<open>sim_link\<close>), down to the bits of the messages. \<^verbatim>\<open>Debug_Tool\<close>, \<^verbatim>\<open>Debug_Core\<close> and \<^verbatim>\<open>Debug_Log\<close> compute the commands over the ideal backend and
  carry the results to the socket: loading and saving memory, registers, stopping a core, dumping its log. \<^verbatim>\<open>Debug_Jtag\<close> shows that a session on a JTAG
  cable gives the same as one on the socket, relying on what \<open>urj_ok\<close> states of the UrJTAG library.

  \<^bold>\<open>The log formatter\<close> (\<^verbatim>\<open>scripts/fmt_log/fmt_log.c\<close>). \<^verbatim>\<open>Fmt_Log\<close> is the program, with each bit-field of its structure by its offset. \<^verbatim>\<open>Fmt_Text\<close> gives the
  report it prints, the invariant of its table of addresses, the columns of a line, and a bound on the error of the one floating point number.
  \<^verbatim>\<open>Fmt_Hw\<close> follows the log from the signals of the core over the dump of the debugger to the report.

  \<^bold>\<open>Bounds and fuel.\<close> The loop over the words of a command line has the number of words as fuel, and more fuel changes nothing. The search for the size of the log
  has 64 rounds, one for each bit of the counter that it shifts until it is 0. Objects in memory are shorter than \<open>2 ^ 64\<close> bytes. The counts of the formatter are
  natural numbers and converted to doubles exactly, as they are below \<open>2 ^ 53\<close>.

  \<^bold>\<open>Parameters.\<close> Code that is not in the repository is an argument with named hypotheses: the verilated core, the flash
  chip, the generated initialisation of the DRAM, the UrJTAG library, \<open>getopt_long\<close>, the network, and the values of variables that the source leaves
  uninitialised.

  \<^bold>\<open>Not modelled.\<close> The VHDL of the processor core and of the peripherals, except for the registers and the log named above: it is clocked hardware whose behaviour is given by
  hundreds of concurrent signals, not by the C code that this development is about. The test programs under \<^verbatim>\<open>tests/\<close> and the start-up code in \<^verbatim>\<open>head.S\<close>, which need
  the semantics of the instruction set. The generated files of LiteDRAM, LiteEth and LiteSDCard. The declarations of the ELF headers that no code uses. The Rust demonstration, whose allocator is not in the
  repository. Of the C code that is modelled: the details of terminal settings, diagnostics on the standard error of the simulation helpers, failures
  of allocation, closing the trace file at exit, and the branch of \<open>fl_read\<close> that is not compiled. Switching Spansion and ISSI chips to quad
  mode is modelled, but no theorem covers it.

  \<^bold>\<open>Defects.\<close> Some theorems exhibit defects of the code: \<open>phdr_loop_stuck\<close>, \<open>bypass_swapped\<close>, \<open>fpr_shown_as_lr\<close>,
  \<open>uart_tx_duplicates\<close>, \<open>gpr_read_overrun\<close>, \<open>bram_read_overrun\<close> and \<open>percent_c_overrun\<close>.
\<close>

end
